(* ===== verification/Prelude.thy ===== *)
theory Prelude
  imports Main "HOL-Library.Word"
begin

text \<open>
  Shared vocabulary of the development: the machine types of the Rust sources, panics as
  values, big- and little-endian byte strings, slices, and the 64-bit operations whose
  overflow behaviour the code relies on.

  Conventions.
  \<^item> \<open>u8\<close>, \<open>u16\<close> and \<open>u32\<close> are words of that width, so \<open>+\<close>, \<open>-\<close> and \<open>*\<close>
    wrap exactly like Rust's \<^verbatim>\<open>wrapping_*\<close> operations.
  \<^item> A \<open>u64\<close> is a \<open>nat\<close>. Counters that only ever step by one (generations, packet
    counts, statistics) never reach the bound and are left unbounded; where a \<open>u64\<close>
    operation saturates or can leave the range on some input, \<open>sat_add64\<close>,
    \<open>sat_sub64\<close> or \<open>wrap64\<close> writes that out. A plain operator of the library wraps, as in a
    build without overflow checks; the demo is built with them (\<^verbatim>\<open>demo/run_demo.sh\<close> runs a plain
    \<^verbatim>\<open>cargo build\<close>), so its \<open>u32\<close> sums and products are \<open>checked_add32\<close> and \<open>checked_mul32\<close>.
  \<^item> A \<open>usize\<close> is a \<open>nat\<close>, a slice or \<^verbatim>\<open>Vec<u8>\<close> a list of bytes.
  \<^item> \<^verbatim>\<open>Result<T, E>\<close> is \<open>'e + 'a\<close> with \<open>Inl\<close> the error. A panic (a failed
    assertion, \<^verbatim>\<open>expect\<close>, out-of-bounds index, division by zero) is the value
    \<open>Panic p\<close> of type \<open>'a outcome\<close>.
\<close>

named_theorems wire_simps \<open>encoding and decoding of fixed-width fields\<close>
named_theorems outcome_simps \<open>sequencing of computations that may panic\<close>

section \<open>Machine types\<close>

type_synonym u8 = "8 word"
type_synonym u16 = "16 word"
type_synonym u32 = "32 word"
type_synonym bytes = "u8 list"

definition wrap64 :: "nat \<Rightarrow> nat" where
  "wrap64 x = x mod 2 ^ 64"

definition sat_add64 :: "nat \<Rightarrow> nat \<Rightarrow> nat" where
  "sat_add64 a b = min (2 ^ 64 - 1) (a + b)"

definition sat_sub64 :: "nat \<Rightarrow> nat \<Rightarrow> nat" where
  "sat_sub64 a b = (if b \<le> a then a - b else 0)"

definition checked_sub64 :: "nat \<Rightarrow> nat \<Rightarrow> nat option" where
  "checked_sub64 a b = (if b \<le> a then Some (a - b) else None)"

definition sat_sub32 :: "u32 \<Rightarrow> u32 \<Rightarrow> u32" where
  "sat_sub32 a b = (if b \<le> a then a - b else 0)"

lemma wrap64_id [simp]: "x < 2 ^ 64 \<Longrightarrow> wrap64 x = x"
  by (simp add: wrap64_def)

lemma wrap64_less [simp]: "wrap64 x < 2 ^ 64"
  unfolding wrap64_def by (rule mod_less_divisor) simp

lemma sat_add64_ge: "a < 2 ^ 64 \<Longrightarrow> a \<le> sat_add64 a b"
  unfolding sat_add64_def by (simp add: less_eq_Suc_le)

lemma unat_sat_sub32: "unat (sat_sub32 a b) = unat a - unat b"
  by (auto simp: sat_sub32_def unat_sub word_le_nat_alt)

lemma unat_of_nat_u32: "n < 2 ^ 32 \<Longrightarrow> unat (of_nat n :: u32) = n"
  by (simp add: unat_of_nat take_bit_nat_eq_self)

lemma unat_of_nat_u16: "n < 2 ^ 16 \<Longrightarrow> unat (of_nat n :: u16) = n"
  by (simp add: unat_of_nat take_bit_nat_eq_self)

lemma unat_u16_less: "unat (w :: u16) < 65536"
proof -
  have "unat w < 2 ^ LENGTH(16)" by (rule unsigned_less)
  then show ?thesis by simp
qed

lemma unat_u32_less: "unat (w :: u32) < 4294967296"
proof -
  have "unat w < 2 ^ LENGTH(32)" by (rule unsigned_less)
  then show ?thesis by simp
qed

lemma unat_u8_less: "unat (w :: u8) < 256"
proof -
  have "unat w < 2 ^ LENGTH(8)" by (rule unsigned_less)
  then show ?thesis by simp
qed

section \<open>Panics\<close>

datatype panic =
    AssertFailed      \<comment> \<open>\<^verbatim>\<open>assert!\<close>, \<^verbatim>\<open>assert_eq!\<close>, \<^verbatim>\<open>debug_assert!\<close>\<close>
  | ExpectFailed      \<comment> \<open>\<^verbatim>\<open>expect\<close> or \<^verbatim>\<open>unwrap\<close> on \<^verbatim>\<open>None\<close> or \<^verbatim>\<open>Err\<close>\<close>
  | OutOfBounds       \<comment> \<open>slice index or \<^verbatim>\<open>copy_from_slice\<close> length mismatch\<close>
  | DivideByZero
  | SubOverflow       \<comment> \<open>unsigned subtraction below zero\<close>
  | ArithOverflow     \<comment> \<open>a checked sum or product beyond its type\<close>
  | Unreachable       \<comment> \<open>\<^verbatim>\<open>unreachable!\<close>\<close>
  | ExplicitPanic     \<comment> \<open>\<^verbatim>\<open>panic!\<close>\<close>

datatype 'a outcome = Panic panic | Done 'a

primrec obind :: "'a outcome \<Rightarrow> ('a \<Rightarrow> 'b outcome) \<Rightarrow> 'b outcome" where
  "obind (Panic p) f = Panic p"
| "obind (Done x) f = f x"

definition guard_panic :: "bool \<Rightarrow> panic \<Rightarrow> unit outcome" where
  "guard_panic b p = (if b then Done () else Panic p)"

definition expect :: "'a option \<Rightarrow> 'a outcome" where
  "expect x = (case x of None \<Rightarrow> Panic ExpectFailed | Some y \<Rightarrow> Done y)"

primrec expect_ok :: "'e + 'a \<Rightarrow> 'a outcome" where
  "expect_ok (Inl e) = Panic ExpectFailed"
| "expect_ok (Inr x) = Done x"

definition checked_add32 :: "u32 \<Rightarrow> u32 \<Rightarrow> u32 outcome" where
  "checked_add32 a b = (if unat a + unat b < 2 ^ 32 then Done (a + b) else Panic ArithOverflow)"

definition checked_mul32 :: "u32 \<Rightarrow> u32 \<Rightarrow> u32 outcome" where
  "checked_mul32 a b = (if unat a * unat b < 2 ^ 32 then Done (a * b) else Panic ArithOverflow)"

declare obind.simps [outcome_simps]

lemma guard_panic_simps [simp, outcome_simps]:
  "guard_panic True p = Done ()"
  "guard_panic False p = Panic p"
  by (simp_all add: guard_panic_def)

lemma expect_simps [simp, outcome_simps]:
  "expect None = Panic ExpectFailed"
  "expect (Some x) = Done x"
  by (simp_all add: expect_def)

lemma obind_Done_iff [outcome_simps]:
  "obind m f = Done y \<longleftrightarrow> (\<exists>x. m = Done x \<and> f x = Done y)"
  by (cases m) auto

lemma guard_panic_Done_iff [outcome_simps]: "guard_panic b p = Done u \<longleftrightarrow> b"
  by (simp add: guard_panic_def)

lemma expect_Done_iff [outcome_simps]: "expect x = Done y \<longleftrightarrow> x = Some y"
  by (cases x) auto

lemma checked_add32_Done: "checked_add32 a b = Done c \<Longrightarrow> c = a + b \<and> unat c = unat a + unat b"
  by (auto simp: checked_add32_def unat_word_ariths split: if_splits)

lemma expect_ok_Done_iff [outcome_simps]: "expect_ok r = Done y \<longleftrightarrow> r = Inr y"
  by (cases r) auto

section \<open>Running a fallible step over a sequence of inputs\<close>

text \<open>
  \<open>run_steps f s xs\<close> feeds the inputs to \<open>f\<close> one after the other and collects what
  each of them returned; a panic ends the run.
\<close>

fun run_steps :: "('s \<Rightarrow> 'i \<Rightarrow> ('s \<times> 'o) outcome) \<Rightarrow> 's \<Rightarrow> 'i list \<Rightarrow> ('s \<times> 'o list) outcome" where
  "run_steps f s [] = Done (s, [])"
| "run_steps f s (x # xs) =
     obind (f s x) (\<lambda>(s', y).
     obind (run_steps f s' xs) (\<lambda>(s'', ys). Done (s'', y # ys)))"

lemma run_steps_invariant:
  assumes "\<And>s x s' y. I s \<Longrightarrow> f s x = Done (s', y) \<Longrightarrow> I s'"
    and "I s" and "run_steps f s xs = Done (s', ys)"
  shows "I s'"
  using assms(2,3)
proof (induction xs arbitrary: s s' ys)
  case Nil
  then show ?case by simp
next
  case (Cons x xs)
  then show ?case by (auto simp: obind_Done_iff split: prod.splits dest: assms(1))
qed

lemma run_steps_length: "run_steps f s xs = Done (s', ys) \<Longrightarrow> length ys = length xs"
  by (induction xs arbitrary: s s' ys) (auto simp: obind_Done_iff split: prod.splits)

section \<open>Fixed-width byte encodings\<close>

fun be_bytes :: "nat \<Rightarrow> nat \<Rightarrow> bytes" where
  "be_bytes 0 x = []"
| "be_bytes (Suc n) x = be_bytes n (x div 256) @ [of_nat x]"

definition be_val :: "bytes \<Rightarrow> nat" where
  "be_val bs = foldl (\<lambda>a b. a * 256 + unat b) 0 bs"

definition le_bytes :: "nat \<Rightarrow> nat \<Rightarrow> bytes" where
  "le_bytes n x = rev (be_bytes n x)"

lemma length_be_bytes [simp, wire_simps]: "length (be_bytes n x) = n"
  by (induction n arbitrary: x) auto

lemma length_le_bytes [simp, wire_simps]: "length (le_bytes n x) = n"
  by (simp add: le_bytes_def)

lemma be_val_Nil [simp]: "be_val [] = 0"
  by (simp add: be_val_def)

lemma be_val_snoc [simp]: "be_val (bs @ [b]) = be_val bs * 256 + unat b"
  by (simp add: be_val_def)

lemma unat_of_nat_u8: "unat (of_nat x :: u8) = x mod 256"
  by (simp add: unat_of_nat)

lemma be_val_be_bytes [simp, wire_simps]: "be_val (be_bytes n x) = x mod 256 ^ n"
proof (induction n arbitrary: x)
  case 0
  then show ?case by simp
next
  case (Suc n)
  have "be_val (be_bytes (Suc n) x) = (x div 256) mod 256 ^ n * 256 + x mod 256"
    by (simp only: be_bytes.simps be_val_snoc Suc.IH unat_of_nat_u8)
  also have "\<dots> = x mod (256 * 256 ^ n)"
    by (simp add: mod_mult2_eq)
  finally show ?case by simp
qed

lemma be_val_less: "be_val bs < 256 ^ length bs"
proof (induction bs rule: rev_induct)
  case Nil
  then show ?case by simp
next
  case (snoc b bs)
  have "be_val bs * 256 + unat b < Suc (be_val bs) * 256"
    using unat_u8_less [of b] by simp
  also have "\<dots> \<le> 256 ^ length bs * 256"
    using snoc by (intro mult_le_mono1) simp
  finally show ?case by simp
qed

lemma be_bytes_be_val [simp, wire_simps]: "be_bytes (length bs) (be_val bs) = bs"
proof (induction bs rule: rev_induct)
  case Nil
  then show ?case by simp
next
  case (snoc b bs)
  have "(be_val bs * 256 + unat b) div 256 = be_val bs"
    using unat_u8_less [of b] by simp
  moreover have "(of_nat (be_val bs * 256 + unat b) :: u8) = b"
    by (rule word_unat_eq_iff [THEN iffD2])
       (use unat_u8_less [of b] in \<open>simp only: unat_of_nat_u8, simp\<close>)
  ultimately show ?case using snoc by (simp only: length_append length_Cons list.size
      be_bytes.simps be_val_snoc add_Suc_right add_0_right)
qed

lemma be_bytes_inj:
  assumes "be_bytes n x = be_bytes n y" and "x < 256 ^ n" and "y < 256 ^ n"
  shows "x = y"
proof -
  have "be_val (be_bytes n x) = be_val (be_bytes n y)" using assms(1) by simp
  with assms(2,3) show ?thesis by simp
qed

definition u16_to_be :: "u16 \<Rightarrow> bytes" where
  "u16_to_be w = be_bytes 2 (unat w)"

definition u32_to_be :: "u32 \<Rightarrow> bytes" where
  "u32_to_be w = be_bytes 4 (unat w)"

definition u16_from_be :: "bytes \<Rightarrow> u16" where
  "u16_from_be bs = of_nat (be_val bs)"

definition u32_from_be :: "bytes \<Rightarrow> u32" where
  "u32_from_be bs = of_nat (be_val bs)"

lemma length_u16_to_be [simp, wire_simps]: "length (u16_to_be w) = 2"
  by (simp add: u16_to_be_def)

lemma length_u32_to_be [simp, wire_simps]: "length (u32_to_be w) = 4"
  by (simp add: u32_to_be_def)

lemma u16_from_to_be [simp, wire_simps]: "u16_from_be (u16_to_be w) = w"
  using unat_u16_less [of w] by (simp add: u16_from_be_def u16_to_be_def)

lemma u32_from_to_be [simp, wire_simps]: "u32_from_be (u32_to_be w) = w"
  using unat_u32_less [of w] by (simp add: u32_from_be_def u32_to_be_def)

lemma u16_to_from_be: "length bs = 2 \<Longrightarrow> u16_to_be (u16_from_be bs) = bs"
  using be_val_less [of bs] be_bytes_be_val [of bs]
  by (simp add: u16_to_be_def u16_from_be_def unat_of_nat_u16)

lemma u32_to_from_be: "length bs = 4 \<Longrightarrow> u32_to_be (u32_from_be bs) = bs"
  using be_val_less [of bs] be_bytes_be_val [of bs]
  by (simp add: u32_to_be_def u32_from_be_def unat_of_nat_u32)

lemma u32_to_be_inj [simp]: "u32_to_be a = u32_to_be b \<longleftrightarrow> a = b"
  by (metis u32_from_to_be)

section \<open>Slices\<close>

definition segment :: "nat \<Rightarrow> nat \<Rightarrow> 'a list \<Rightarrow> 'a list" where
  "segment i n xs = take n (drop i xs)"

lemma length_segment [simp]: "length (segment i n xs) = min n (length xs - i)"
  by (simp add: segment_def)

lemma segment_append_left: "i + n \<le> length xs \<Longrightarrow> segment i n (xs @ ys) = segment i n xs"
  by (simp add: segment_def)

lemma segment_append_right: "length xs \<le> i \<Longrightarrow> segment i n (xs @ ys) = segment (i - length xs) n ys"
  by (simp add: segment_def)

lemma segment_all [simp]: "length xs \<le> n \<Longrightarrow> segment 0 n xs = xs"
  by (simp add: segment_def)

lemmas segment_simps [wire_simps] = segment_append_left segment_append_right segment_all

section \<open>Wire formats\<close>

text \<open>
  The contract of a wire format, as the sender's encoder and the receiver's decoder share it:
  what was written is read back. \<open>wf\<close> says which values the encoder represents exactly.
\<close>

locale wire_codec =
  fixes enc :: "'a \<Rightarrow> bytes"
    and dec :: "bytes \<Rightarrow> 'a option"
    and wf :: "'a \<Rightarrow> bool"
  assumes dec_enc: "wf x \<Longrightarrow> dec (enc x) = Some x"
begin

lemma enc_injective: "wf x \<Longrightarrow> wf y \<Longrightarrow> enc x = enc y \<longleftrightarrow> x = y"
  by (metis dec_enc option.inject)

lemma dec_all: "\<forall>x\<in>set xs. wf x \<Longrightarrow> those (map (\<lambda>x. dec (enc x)) xs) = Some xs"
  by (induction xs) (auto simp: dec_enc)

end

end
