(* ===== verification/Generation.thy ===== *)
theory Generation
  imports Prelude
begin

text \<open>
  Keying granularities and the receiver's stateless generation rule:
  \<^verbatim>\<open>Granularity\<close> of \<^verbatim>\<open>src/keying/granularity.rs\<close> and all of \<^verbatim>\<open>src/receiver/generation.rs\<close>.

  The sender decides when to start a generation from the packets it sends one after the other;
  the receiver computes a packet's generation from its header alone. \<open>boundary_count\<close> is the
  sender's rule summed over a packet sequence, and the lemmas show the receiver's formula counts
  the same boundaries for frames, for packets and for groups of \<open>n\<close> packets.
\<close>

section \<open>Definitions\<close>

datatype Granularity = Gran_EpochOnly | Gran_Frame | Gran_Packet | Gran_EveryN u32

datatype GenerationScheme =
    Scheme_EpochOnly
  | Scheme_Frame u32 u32   \<comment> \<open>\<^verbatim>\<open>epoch_start_ts\<close>, \<^verbatim>\<open>frame_period\<close>\<close>
  | Scheme_Packet nat   \<comment> \<open>\<^verbatim>\<open>base\<close>\<close>
  | Scheme_EveryN nat u32   \<comment> \<open>\<^verbatim>\<open>base\<close>, \<^verbatim>\<open>n\<close>\<close>

definition GenerationScheme_for_granularity :: "Granularity \<Rightarrow> u32 \<Rightarrow> u32 \<Rightarrow> nat \<Rightarrow> GenerationScheme" where
  "GenerationScheme_for_granularity granularity start_ts period base_index =
     (case granularity of
        Gran_EpochOnly \<Rightarrow> Scheme_EpochOnly
      | Gran_Frame \<Rightarrow> Scheme_Frame start_ts period
      | Gran_Packet \<Rightarrow> Scheme_Packet base_index
      | Gran_EveryN n \<Rightarrow> Scheme_EveryN base_index n)"

definition frame_generation :: "u32 \<Rightarrow> u32 \<Rightarrow> u32 \<Rightarrow> nat outcome" where
  "frame_generation ts start_ts period =
     obind (guard_panic (period \<noteq> 0) AssertFailed) (\<lambda>_.
     let elapsed = ts - start_ts in Done (unat (elapsed div period)))"

section \<open>The sender's rule over a packet sequence\<close>

text \<open>
  Whether the packet with timestamp \<open>ts\<close>, preceded by \<open>cnt\<close> packets of which the last had
  timestamp \<open>prev\<close>, starts a new generation. Division by a zero \<open>n\<close> is excluded by the callers.
\<close>

definition crosses_boundary :: "Granularity \<Rightarrow> u32 option \<Rightarrow> nat \<Rightarrow> u32 \<Rightarrow> bool" where
  "crosses_boundary granularity prev cnt ts =
     (case granularity of
        Gran_EpochOnly \<Rightarrow> False
      | Gran_Packet \<Rightarrow> 0 < cnt
      | Gran_Frame \<Rightarrow> 0 < cnt \<and> prev \<noteq> Some ts
      | Gran_EveryN n \<Rightarrow> 0 < cnt \<and> cnt mod unat n = 0)"

text \<open>The generation of the last packet of the sequence of timestamps.\<close>

fun boundary_count :: "Granularity \<Rightarrow> u32 option \<Rightarrow> nat \<Rightarrow> u32 list \<Rightarrow> nat" where
  "boundary_count granularity prev cnt [] = 0"
| "boundary_count granularity prev cnt (ts # tss) =
     (if crosses_boundary granularity prev cnt ts then 1 else 0)
       + boundary_count granularity (Some ts) (cnt + 1) tss"

lemma boundary_count_snoc:
  "boundary_count gr prev cnt (tss @ [ts]) =
     boundary_count gr prev cnt tss +
       (if crosses_boundary gr (if tss = [] then prev else Some (last tss)) (cnt + length tss) ts
        then 1 else 0)"
  by (induction tss arbitrary: prev cnt) auto

lemma boundary_count_epoch: "boundary_count Gran_EpochOnly prev cnt tss = 0"
  by (induction tss arbitrary: prev cnt) (auto simp: crosses_boundary_def)

lemma boundary_count_packet:
  "tss \<noteq> [] \<Longrightarrow> boundary_count Gran_Packet None 0 tss = length tss - 1"
  by (induction tss rule: rev_induct)
    (auto simp: boundary_count_snoc crosses_boundary_def)

lemma boundary_count_every_n:
  assumes "n \<noteq> 0"
  shows "tss \<noteq> [] \<Longrightarrow> boundary_count (Gran_EveryN n) None 0 tss = (length tss - 1) div unat n"
proof (induction tss rule: rev_induct)
  case Nil
  then show ?case by simp
next
  case (snoc ts tss)
  have n: "0 < unat n" using assms by (simp add: unat_gt_0)
  show ?case
  proof (cases "tss = []")
    case True
    then show ?thesis by (simp add: crosses_boundary_def)
  next
    case False
    then obtain m where m: "length tss = Suc m" by (cases tss) auto
    have "Suc m div unat n = m div unat n + (if Suc m mod unat n = 0 then 1 else 0)"
      using n by (simp add: div_Suc)
    then show ?thesis using snoc False m
      by (simp add: boundary_count_snoc crosses_boundary_def)
  qed
qed

text \<open>
  Frames. \<open>frame_sequence fs\<close>: the frame numbers of the packets of an epoch, in sending order:
  they start at 0 and every packet continues its frame or starts the next one.
\<close>

fun frame_steps :: "nat \<Rightarrow> nat list \<Rightarrow> bool" where
  "frame_steps f [] \<longleftrightarrow> True"
| "frame_steps f (g # gs) \<longleftrightarrow> (g = f \<or> g = Suc f) \<and> frame_steps g gs"

definition frame_sequence :: "nat list \<Rightarrow> bool" where
  "frame_sequence fs \<longleftrightarrow> (case fs of [] \<Rightarrow> True | f # gs \<Rightarrow> f = 0 \<and> frame_steps 0 gs)"

definition frame_ts :: "u32 \<Rightarrow> u32 \<Rightarrow> nat \<Rightarrow> u32" where
  "frame_ts start_ts period f = start_ts + of_nat (f * unat period)"

lemma frame_generation_ts:
  assumes "period \<noteq> 0" and "f * unat period < 2 ^ 32"
  shows "frame_generation (frame_ts start_ts period f) start_ts period = Done f"
proof -
  have "0 < unat period" using assms(1) by (simp add: unat_gt_0)
  then show ?thesis
    using assms by (simp add: frame_generation_def frame_ts_def unat_div unat_of_nat_u32 del: of_nat_mult)
qed

lemma frame_ts_inj:
  assumes "period \<noteq> 0" and "f * unat period < 2 ^ 32" and "g * unat period < 2 ^ 32"
  shows "frame_ts start_ts period f = frame_ts start_ts period g \<longleftrightarrow> f = g"
  using frame_generation_ts [OF assms(1,2), of start_ts] frame_generation_ts [OF assms(1,3), of start_ts]
  by (metis outcome.inject(2))

lemma frame_steps_snoc:
  "frame_steps f (gs @ [g]) \<longleftrightarrow>
     frame_steps f gs \<and> (let l = last (f # gs) in g = l \<or> g = Suc l)"
  by (induction gs arbitrary: f) auto

lemma frame_sequence_snoc:
  "fs \<noteq> [] \<Longrightarrow> frame_sequence (fs @ [g]) \<longleftrightarrow> frame_sequence fs \<and> (g = last fs \<or> g = Suc (last fs))"
  by (cases fs) (auto simp: frame_sequence_def frame_steps_snoc Let_def)

lemma boundary_count_frame:
  assumes p: "period \<noteq> 0"
  shows "frame_sequence fs \<Longrightarrow> fs \<noteq> [] \<Longrightarrow> \<forall>f\<in>set fs. f * unat period < 2 ^ 32 \<Longrightarrow>
    boundary_count Gran_Frame None 0 (map (frame_ts start_ts period) fs) = last fs"
proof (induction fs rule: rev_induct)
  case Nil
  then show ?case by simp
next
  case (snoc f fs)
  show ?case
  proof (cases "fs = []")
    case True
    then show ?thesis using snoc.prems by (simp add: frame_sequence_def crosses_boundary_def)
  next
    case False
    then have s: "frame_sequence fs" "f = last fs \<or> f = Suc (last fs)"
      using snoc.prems(1) by (simp_all add: frame_sequence_snoc)
    have "last fs * unat period < 2 ^ 32" "f * unat period < 2 ^ 32"
      using snoc.prems(3) False by (simp_all add: last_in_set)
    note inj = frame_ts_inj [OF p this, of start_ts]
    have "boundary_count Gran_Frame None 0 (map (frame_ts start_ts period) fs) = last fs"
      using snoc.IH s(1) False snoc.prems(3) by simp
    then show ?thesis using False s(2) inj
      by (auto simp: boundary_count_snoc crosses_boundary_def last_map)
  qed
qed

end
