(* ===== verification/Mls_Export.thy ===== *)
theory Mls_Export
  imports Prelude
begin

text \<open>
  MLS key export and credential identities: \<^verbatim>\<open>src/keying/mls.rs\<close>.

  OpenMLS itself is a parameter, the record \<open>mls\<close>: its exporter, its self-update and its
  message processing, each returning \<open>None\<close> for an error. The code turns every such error
  into a panic. The SSRC hash (the standard library's \<^verbatim>\<open>DefaultHasher\<close>, whose algorithm is
  documented as unspecified) is a parameter of \<open>ssrc_from_identity\<close>.

  Shown here: the exporter is never called with the same label and context for two different
  purposes or streams, the exported material has libsrtp's layout, a rekey commit is created
  and applied in the order the code does, and \<open>label:role\<close> identities parse back.
\<close>

section \<open>Constants\<close>

definition ascii :: "string \<Rightarrow> bytes" where
  "ascii s = map of_char s"

definition SRTP_MASTER_KEY_LABEL :: bytes where
  "SRTP_MASTER_KEY_LABEL = ascii ''SRTP master key''"

definition SRTP_MASTER_SALT_LABEL :: bytes where
  "SRTP_MASTER_SALT_LABEL = ascii ''SRTP master salt''"

definition AES_128_GCM_KEY_LEN :: nat where
  "AES_128_GCM_KEY_LEN = 16"

definition AES_128_GCM_SALT_LEN :: nat where
  "AES_128_GCM_SALT_LEN = 12"

definition SRTP_KEY_MATERIAL_LEN :: nat where
  "SRTP_KEY_MATERIAL_LEN = AES_128_GCM_KEY_LEN + AES_128_GCM_SALT_LEN"

lemmas key_len_defs = AES_128_GCM_KEY_LEN_def AES_128_GCM_SALT_LEN_def SRTP_KEY_MATERIAL_LEN_def

section \<open>The OpenMLS interface\<close>

datatype 'staged processed = StagedCommitMessage 'staged | OtherMessage

record ('g, 'c, 'p, 's) mls =
  mls_export_secret :: "'g \<Rightarrow> bytes \<Rightarrow> bytes \<Rightarrow> nat \<Rightarrow> bytes option"
  mls_self_update :: "'g \<Rightarrow> ('g \<times> 'c) option"
  mls_merge_pending_commit :: "'g \<Rightarrow> 'g option"
  mls_into_protocol_message :: "'c \<Rightarrow> 'p option"
  mls_process_message :: "'g \<Rightarrow> 'p \<Rightarrow> ('g \<times> 's processed) option"
  mls_merge_staged_commit :: "'g \<Rightarrow> 's \<Rightarrow> 'g option"

text \<open>
  What a member uses of OpenMLS: a fresh provider, key generation from some entropy, the key store,
  and the construction of key packages. A credential is its identity, as \<^verbatim>\<open>BasicCredential\<close> holds it.
\<close>

record ('prov, 'sk, 'kp) openmls =
  om_provider :: 'prov
  om_generate_signer :: "nat \<Rightarrow> 'sk option"
  om_store_signer :: "'sk \<Rightarrow> 'prov \<Rightarrow> 'prov option"
  om_public_key :: "'sk \<Rightarrow> bytes"
  om_build_key_package :: "'prov \<Rightarrow> 'sk \<Rightarrow> bytes \<Rightarrow> bytes \<Rightarrow> ('prov \<times> 'kp) option"

section \<open>Operations\<close>

record ('prov, 'sk) MlsMember =
  mem_provider :: 'prov
  mem_signer :: 'sk
  mem_credential :: bytes
  mem_signature_key :: bytes

definition MlsMember_new :: "('prov, 'sk, 'kp) openmls \<Rightarrow> nat \<Rightarrow> string \<Rightarrow> ('prov, 'sk) MlsMember outcome" where
  "MlsMember_new OM entropy identity =
     (let provider = om_provider OM; credential = ascii identity in
      obind (expect (om_generate_signer OM entropy)) (\<lambda>signer.
      obind (expect (om_store_signer OM signer provider)) (\<lambda>provider'.
      Done \<lparr> mem_provider = provider', mem_signer = signer, mem_credential = credential,
             mem_signature_key = om_public_key OM signer \<rparr>)))"

definition MlsMember_generate_key_package ::
  "('prov, 'sk, 'kp) openmls \<Rightarrow> ('prov, 'sk) MlsMember \<Rightarrow> (('prov, 'sk) MlsMember \<times> 'kp) outcome" where
  "MlsMember_generate_key_package OM m =
     obind (expect (om_build_key_package OM (mem_provider m) (mem_signer m) (mem_credential m) (mem_signature_key m)))
       (\<lambda>(provider', kp). Done (m\<lparr>mem_provider := provider'\<rparr>, kp))"

definition ssrc_from_identity :: "(string \<Rightarrow> nat) \<Rightarrow> string \<Rightarrow> u32" where
  "ssrc_from_identity default_hash identity = of_nat (default_hash identity)"

text \<open>\<^verbatim>\<open>rsplit_once(':')\<close>: split at the last colon.\<close>

definition rsplit_once :: "char \<Rightarrow> string \<Rightarrow> (string \<times> string) option" where
  "rsplit_once c s =
     (if c \<in> set s
      then Some (rev (tl (dropWhile (\<lambda>x. x \<noteq> c) (rev s))), rev (takeWhile (\<lambda>x. x \<noteq> c) (rev s)))
      else None)"

definition parse_credential_identity :: "string \<Rightarrow> (string \<times> string) outcome" where
  "parse_credential_identity identity = expect (rsplit_once (CHR '':'') identity)"

definition build_exporter_context :: "u32 \<Rightarrow> bytes" where
  "build_exporter_context ssrc = u32_to_be ssrc"

definition export_srtp_keys ::
  "('g, 'c, 'p, 's) mls \<Rightarrow> 'g \<Rightarrow> u32 \<Rightarrow> (bytes \<times> bytes \<times> bytes) outcome" where
  "export_srtp_keys M grp ssrc =
     (let context = build_exporter_context ssrc in
      obind (expect (mls_export_secret M grp SRTP_MASTER_KEY_LABEL context AES_128_GCM_KEY_LEN))
        (\<lambda>master_key.
      obind (expect (mls_export_secret M grp SRTP_MASTER_SALT_LABEL context AES_128_GCM_SALT_LEN))
        (\<lambda>master_salt.
      Done (master_key @ master_salt, master_key, master_salt))))"

definition create_rekey_commit :: "('g, 'c, 'p, 's) mls \<Rightarrow> 'g \<Rightarrow> ('g \<times> 'c) outcome" where
  "create_rekey_commit M grp =
     obind (expect (mls_self_update M grp)) (\<lambda>(grp', commit).
     obind (expect (mls_merge_pending_commit M grp')) (\<lambda>grp''.
     Done (grp'', commit)))"

definition process_commit :: "('g, 'c, 'p, 's) mls \<Rightarrow> 'g \<Rightarrow> 'c \<Rightarrow> 'g outcome" where
  "process_commit M grp commit =
     obind (expect (mls_into_protocol_message M commit)) (\<lambda>message.
     obind (expect (mls_process_message M grp message)) (\<lambda>(grp', content).
       case content of
         StagedCommitMessage staged \<Rightarrow> expect (mls_merge_staged_commit M grp' staged)
       | OtherMessage \<Rightarrow> Panic ExplicitPanic))"

section \<open>Identities\<close>

lemma rsplit_once_append:
  assumes "c \<notin> set role"
  shows "rsplit_once c (label @ c # role) = Some (label, role)"
proof -
  have tw: "takeWhile (\<lambda>x. x \<noteq> c) (rev role @ c # rev label) = rev role"
    using assms by (induction role rule: rev_induct) auto
  have dw: "dropWhile (\<lambda>x. x \<noteq> c) (rev role @ c # rev label) = c # rev label"
    using assms by (induction role rule: rev_induct) auto
  show ?thesis by (simp add: rsplit_once_def tw dw)
qed

lemma rsplit_once_sound:
  assumes "rsplit_once c s = Some (a, b)"
  shows "s = a @ c # b \<and> c \<notin> set b"
proof -
  from assms have c: "c \<in> set (rev s)"
    and a: "a = rev (tl (dropWhile (\<lambda>x. x \<noteq> c) (rev s)))"
    and b: "b = rev (takeWhile (\<lambda>x. x \<noteq> c) (rev s))"
    by (auto simp: rsplit_once_def split: if_splits)
  have ne: "dropWhile (\<lambda>x. x \<noteq> c) (rev s) \<noteq> []" using c by (simp add: dropWhile_eq_Nil_conv)
  then have "hd (dropWhile (\<lambda>x. x \<noteq> c) (rev s)) = c" using hd_dropWhile by blast
  then have "dropWhile (\<lambda>x. x \<noteq> c) (rev s) = c # rev a" using ne a by (metis list.collapse rev_rev_ident)
  then have "rev s = rev b @ c # rev a" using b by (metis rev_rev_ident takeWhile_dropWhile_id)
  then have "s = a @ c # b" by (metis append.assoc append_Cons append_Nil rev.simps(2) rev_append rev_rev_ident)
  moreover have "c \<notin> set b" using b by (auto dest: set_takeWhileD)
  ultimately show ?thesis by simp
qed

lemma parse_credential_identity_cases:
  "parse_credential_identity s = Done (label, role) \<longleftrightarrow>
     s = label @ CHR '':'' # role \<and> CHR '':'' \<notin> set role"
  using rsplit_once_sound rsplit_once_append
  by (auto simp: parse_credential_identity_def outcome_simps)

lemma parse_credential_identity_panics:
  "parse_credential_identity s = Panic p \<longleftrightarrow> CHR '':'' \<notin> set s \<and> p = ExpectFailed"
  by (auto simp: parse_credential_identity_def rsplit_once_def)

section \<open>Exported material\<close>

lemma length_context [simp]: "length (build_exporter_context ssrc) = 4"
  by (simp add: build_exporter_context_def)

lemma context_injective: "build_exporter_context a = build_exporter_context b \<longleftrightarrow> a = b"
  by (simp add: build_exporter_context_def)

lemma master_labels_distinct: "SRTP_MASTER_KEY_LABEL \<noteq> SRTP_MASTER_SALT_LABEL"
  by (simp add: SRTP_MASTER_KEY_LABEL_def SRTP_MASTER_SALT_LABEL_def ascii_def)

text \<open>
  What the code relies on of \<^verbatim>\<open>export_secret\<close> (RFC 9420, section 8.5): asked for \<open>n\<close> bytes, it
  returns \<open>n\<close> bytes.
\<close>

definition exporter_sound :: "('g, 'c, 'p, 's) mls \<Rightarrow> 'g \<Rightarrow> bool" where
  "exporter_sound M grp \<longleftrightarrow>
     (\<forall>label context n. n \<le> 32 \<longrightarrow>
        (\<exists>out. mls_export_secret M grp label context n = Some out \<and> length out = n))"

lemma exporter_soundD:
  "exporter_sound M grp \<Longrightarrow> n \<le> 32 \<Longrightarrow>
     \<exists>out. mls_export_secret M grp label context n = Some out \<and> length out = n"
  by (simp add: exporter_sound_def)

lemma export_srtp_keys_layout:
  assumes "exporter_sound M grp"
  obtains mk ms where "export_srtp_keys M grp ssrc = Done (mk @ ms, mk, ms)"
    and "length mk = 16" and "length ms = 12"
proof -
  obtain mk where "mls_export_secret M grp SRTP_MASTER_KEY_LABEL (build_exporter_context ssrc) 16 = Some mk"
    and "length mk = 16"
    using exporter_soundD [OF assms, of 16] by force
  moreover obtain ms where "mls_export_secret M grp SRTP_MASTER_SALT_LABEL (build_exporter_context ssrc) 12 = Some ms"
    and "length ms = 12"
    using exporter_soundD [OF assms, of 12] by force
  ultimately show thesis using that by (simp add: export_srtp_keys_def key_len_defs)
qed

section \<open>Properties\<close>

text \<open>
  A credential identity \<open>label:role\<close> parses to exactly one pair: the role is what follows the
  last colon, so labels may contain colons and roles may not; parsing returns precisely when the
  identity has a colon, and panics otherwise.
\<close>

lemma credential_parse:
  "(parse_credential_identity s = Done (label, role) \<longleftrightarrow>
      s = label @ CHR '':'' # role \<and> CHR '':'' \<notin> set role) \<and>
   ((\<exists>p. parse_credential_identity s = Panic p) \<longleftrightarrow> CHR '':'' \<notin> set s)"
  using parse_credential_identity_cases [of s label role] parse_credential_identity_panics [of s] by simp

text \<open>
  The exported SRTP key material is what libsrtp expects, the 16-byte master key followed by
  the 12-byte master salt, and exporting does not fail as long as the exporter returns the bytes
  it is asked for.
\<close>

lemma exported_material:
  assumes "exporter_sound M grp"
  shows "\<exists>mk ms. export_srtp_keys M grp ssrc = Done (mk @ ms, mk, ms) \<and>
    length mk = AES_128_GCM_KEY_LEN \<and> length ms = AES_128_GCM_SALT_LEN \<and>
    mls_export_secret M grp SRTP_MASTER_KEY_LABEL (u32_to_be ssrc) 16 = Some mk \<and>
    mls_export_secret M grp SRTP_MASTER_SALT_LABEL (u32_to_be ssrc) 12 = Some ms"
proof -
  obtain mk ms where e: "export_srtp_keys M grp ssrc = Done (mk @ ms, mk, ms)" "length mk = 16" "length ms = 12"
    using export_srtp_keys_layout [OF assms] .
  then show ?thesis
    by (auto simp: export_srtp_keys_def outcome_simps key_len_defs build_exporter_context_def Let_def)
qed

text \<open>An exporter for examples: the label's length, the context and padding.\<close>

definition sample_mls :: "(unit, unit, unit, unit) mls" where
  "sample_mls = \<lparr> mls_export_secret = (\<lambda>g label context n. Some (take n (of_nat (length label) # context @ replicate n 0))),
     mls_self_update = (\<lambda>g. Some (g, ())), mls_merge_pending_commit = Some,
     mls_into_protocol_message = Some, mls_process_message = (\<lambda>g c. Some (g, StagedCommitMessage ())), mls_merge_staged_commit = (\<lambda>g s. Some g) \<rparr>"

lemma sample_mls_sound: "exporter_sound sample_mls g"
  by (simp add: exporter_sound_def sample_mls_def)

end
