(* ===== verification/Ratchet.thy ===== *)
theory Ratchet
  imports Mls_Export
begin

text \<open>
  The per-stream key ratchet: \<^verbatim>\<open>src/keying/ratchet.rs\<close>. HKDF-Expand (RFC 5869, implemented by
  the crypto provider) is the parameter \<open>hkdf\<close> of every operation; \<open>None\<close> is its error, which
  the code turns into a panic.

  The contract a forward ratchet gives its users is the locale \<open>key_ratchet\<close>: from the state
  of generation \<open>n\<close> the driver returns generation \<open>n\<close>'s key and the state of generation
  \<open>n + 1\<close>. Everything the sender and the receiver know about keys follows from it.
\<close>

section \<open>Definitions\<close>

type_synonym hkdf = "bytes \<Rightarrow> bytes \<Rightarrow> nat \<Rightarrow> bytes option"
type_synonym KeySalt = bytes

definition CHAIN_LABEL :: bytes where
  "CHAIN_LABEL = ascii ''next generation''"

definition KEY_MATERIAL_LABEL :: bytes where
  "KEY_MATERIAL_LABEL = ascii ''srtp key material''"

definition CHAIN_SECRET_LEN :: nat where
  "CHAIN_SECRET_LEN = 32"

definition SRTP_RATCHET_SEED_LABEL :: bytes where
  "SRTP_RATCHET_SEED_LABEL = ascii ''SRTP ratchet seed''"

record StreamRatchet =
  sr_chain_secret :: bytes
  sr_generation :: nat

definition StreamRatchet_from_seed :: "bytes \<Rightarrow> StreamRatchet outcome" where
  "StreamRatchet_from_seed seed =
     obind (guard_panic (length seed = CHAIN_SECRET_LEN) AssertFailed) (\<lambda>_.
     Done \<lparr> sr_chain_secret = seed, sr_generation = 0 \<rparr>)"

definition StreamRatchet_seed_from_exporter ::
  "('g, 'c, 'p, 's) mls \<Rightarrow> 'g \<Rightarrow> u32 \<Rightarrow> StreamRatchet outcome" where
  "StreamRatchet_seed_from_exporter M grp ssrc =
     (let context = build_exporter_context ssrc in
      obind (expect (mls_export_secret M grp SRTP_RATCHET_SEED_LABEL context CHAIN_SECRET_LEN))
        StreamRatchet_from_seed)"

definition StreamRatchet_derive_key_salt :: "hkdf \<Rightarrow> StreamRatchet \<Rightarrow> KeySalt outcome" where
  "StreamRatchet_derive_key_salt H r =
     obind (expect (H (sr_chain_secret r) KEY_MATERIAL_LABEL SRTP_KEY_MATERIAL_LEN)) (\<lambda>out.
     obind (guard_panic (length out = SRTP_KEY_MATERIAL_LEN) OutOfBounds) (\<lambda>_.
     Done out))"

definition StreamRatchet_advance :: "hkdf \<Rightarrow> StreamRatchet \<Rightarrow> StreamRatchet outcome" where
  "StreamRatchet_advance H r =
     obind (expect (H (sr_chain_secret r) CHAIN_LABEL CHAIN_SECRET_LEN)) (\<lambda>next_secret.
     Done (r\<lparr>sr_chain_secret := next_secret, sr_generation := sr_generation r + 1\<rparr>))"

definition StreamRatchet_next_key_salt ::
  "hkdf \<Rightarrow> StreamRatchet \<Rightarrow> (nat \<times> KeySalt \<times> StreamRatchet) outcome" where
  "StreamRatchet_next_key_salt H r =
     (let g = sr_generation r in
      obind (StreamRatchet_derive_key_salt H r) (\<lambda>key_salt.
      obind (StreamRatchet_advance H r) (\<lambda>r'.
      Done (g, key_salt, r'))))"

definition split_key_salt :: "KeySalt \<Rightarrow> bytes \<times> bytes" where
  "split_key_salt key_salt = (take AES_128_GCM_KEY_LEN key_salt, drop AES_128_GCM_KEY_LEN key_salt)"

section \<open>The ratchet contract\<close>

fun derive_n :: "('r \<Rightarrow> (nat \<times> 'k \<times> 'r) outcome) \<Rightarrow> nat \<Rightarrow> 'r \<Rightarrow> ((nat \<times> 'k) list \<times> 'r) outcome" where
  "derive_n nxt 0 r = Done ([], r)"
| "derive_n nxt (Suc n) r =
     obind (nxt r) (\<lambda>(g, k, r').
     obind (derive_n nxt n r') (\<lambda>(ks, r''). Done ((g, k) # ks, r'')))"

locale key_ratchet =
  fixes state_at :: "'s \<Rightarrow> nat \<Rightarrow> 'r"
    and key_at :: "'s \<Rightarrow> nat \<Rightarrow> 'k"
    and gen :: "'r \<Rightarrow> nat"
    and nxt :: "'r \<Rightarrow> (nat \<times> 'k \<times> 'r) outcome"
    and ok :: "'s \<Rightarrow> bool"
  assumes gen_at: "gen (state_at s n) = n"
    and nxt_at: "ok s \<Longrightarrow> nxt (state_at s n) = Done (n, key_at s n, state_at s (Suc n))"
begin

lemma derive_n_at:
  assumes "ok s"
  shows "derive_n nxt m (state_at s n) =
    Done (map (\<lambda>g. (g, key_at s g)) [n..<n + m], state_at s (n + m))"
proof (induction m arbitrary: n)
  case 0
  then show ?case by simp
next
  case (Suc m)
  have "[n..<n + Suc m] = n # [Suc n..<Suc n + m]" by (simp add: upt_rec)
  then show ?case using Suc.IH [of "Suc n"] by (simp add: nxt_at [OF assms])
qed

lemma gen_after: "ok s \<Longrightarrow> nxt (state_at s n) = Done (g, k, r) \<Longrightarrow> gen r = Suc g"
  by (simp add: nxt_at) (auto simp: gen_at)

end

section \<open>\<open>StreamRatchet\<close> meets the contract\<close>

text \<open>What the code relies on of HKDF-Expand over SHA-256 (RFC 5869, section 2.3).\<close>

definition hkdf_sound :: "hkdf \<Rightarrow> bool" where
  "hkdf_sound H \<longleftrightarrow>
     (\<forall>prk info n. 32 \<le> length prk \<longrightarrow> n \<le> 255 * 32 \<longrightarrow>
        (\<exists>out. H prk info n = Some out \<and> length out = n))"

definition hkdf_out :: "hkdf \<Rightarrow> bytes \<Rightarrow> bytes \<Rightarrow> nat \<Rightarrow> bytes" where
  "hkdf_out H prk info n = (case H prk info n of None \<Rightarrow> [] | Some out \<Rightarrow> out)"

fun chain_secret_at :: "hkdf \<Rightarrow> bytes \<Rightarrow> nat \<Rightarrow> bytes" where
  "chain_secret_at H seed 0 = seed"
| "chain_secret_at H seed (Suc n) = hkdf_out H (chain_secret_at H seed n) CHAIN_LABEL 32"

definition key_salt_at :: "hkdf \<Rightarrow> bytes \<Rightarrow> nat \<Rightarrow> KeySalt" where
  "key_salt_at H seed n = hkdf_out H (chain_secret_at H seed n) KEY_MATERIAL_LABEL 28"

definition ratchet_at :: "hkdf \<Rightarrow> bytes \<Rightarrow> nat \<Rightarrow> StreamRatchet" where
  "ratchet_at H seed n = \<lparr> sr_chain_secret = chain_secret_at H seed n, sr_generation = n \<rparr>"

definition ratchet_ok :: "hkdf \<Rightarrow> bytes \<Rightarrow> bool" where
  "ratchet_ok H seed \<longleftrightarrow> hkdf_sound H \<and> length seed = 32"

lemma hkdf_sound_out:
  assumes "hkdf_sound H" and "32 \<le> length prk" and "n \<le> 255 * 32"
  shows "H prk info n = Some (hkdf_out H prk info n)" and "length (hkdf_out H prk info n) = n"
proof -
  obtain out where "H prk info n = Some out" and "length out = n"
    using assms unfolding hkdf_sound_def by blast
  then show "H prk info n = Some (hkdf_out H prk info n)"
    and "length (hkdf_out H prk info n) = n" by (simp_all add: hkdf_out_def)
qed

lemma length_chain_secret_at: "ratchet_ok H seed \<Longrightarrow> length (chain_secret_at H seed n) = 32"
  by (induction n) (auto simp: ratchet_ok_def hkdf_sound_out(2))

lemma length_key_salt_at: "ratchet_ok H seed \<Longrightarrow> length (key_salt_at H seed n) = 28"
  using length_chain_secret_at [of H seed n]
  by (simp add: key_salt_at_def ratchet_ok_def hkdf_sound_out(2))

lemma next_key_salt_at:
  assumes "ratchet_ok H seed"
  shows "StreamRatchet_next_key_salt H (ratchet_at H seed n) =
    Done (n, key_salt_at H seed n, ratchet_at H seed (Suc n))"
proof -
  define S where "S = chain_secret_at H seed n"
  have S: "length S = 32" and H: "hkdf_sound H"
    using length_chain_secret_at [OF assms] assms by (simp_all add: S_def ratchet_ok_def)
  have "H S KEY_MATERIAL_LABEL 28 = Some (key_salt_at H seed n)"
    using hkdf_sound_out(1) [OF H, of S] S by (simp add: key_salt_at_def S_def)
  moreover have "H S CHAIN_LABEL 32 = Some (chain_secret_at H seed (Suc n))"
    using hkdf_sound_out(1) [OF H, of S] S by (simp add: S_def)
  ultimately show ?thesis
    using length_key_salt_at [OF assms, of n]
    by (simp add: StreamRatchet_next_key_salt_def StreamRatchet_derive_key_salt_def
        StreamRatchet_advance_def ratchet_at_def key_len_defs CHAIN_SECRET_LEN_def
        flip: S_def del: chain_secret_at.simps)
qed

interpretation stream_ratchet: key_ratchet "ratchet_at H" "key_salt_at H" sr_generation
  "StreamRatchet_next_key_salt H" "ratchet_ok H" for H
  by unfold_locales (simp add: ratchet_at_def, rule next_key_salt_at)

lemma from_seed_at:
  "StreamRatchet_from_seed seed =
     (if length seed = 32 then Done (ratchet_at H seed 0) else Panic AssertFailed)"
  by (simp add: StreamRatchet_from_seed_def CHAIN_SECRET_LEN_def ratchet_at_def)

lemma next_key_salt_generation:
  "StreamRatchet_next_key_salt H r = Done (g, k, r') \<Longrightarrow>
     g = sr_generation r \<and> sr_generation r' = Suc g \<and> length k = 28"
  by (auto simp: StreamRatchet_next_key_salt_def StreamRatchet_derive_key_salt_def
      StreamRatchet_advance_def outcome_simps key_len_defs Let_def)

lemma split_key_salt_lengths:
  "length ks = 28 \<Longrightarrow> split_key_salt ks = (key, salt) \<Longrightarrow>
     length key = 16 \<and> length salt = 12 \<and> key @ salt = ks"
  by (auto simp: split_key_salt_def AES_128_GCM_KEY_LEN_def)

lemma ratchet_labels_distinct: "CHAIN_LABEL \<noteq> KEY_MATERIAL_LABEL"
  by (simp add: CHAIN_LABEL_def KEY_MATERIAL_LABEL_def ascii_def)

section \<open>Properties\<close>

text \<open>
  C36. Lockstep: a ratchet started from a 32-byte seed yields, step after step, the generations
  \<open>0, 1, 2, ...\<close> in order, and generation \<open>g\<close>'s key material is the 28 bytes HKDF derives from the
  \<open>g\<close>-th chain secret. It depends on the seed and \<open>g\<close> only, so a sender and a receiver seeded alike
  agree on every key, and no step panics.
\<close>

theorem ratchet_lockstep:
  assumes "hkdf_sound H" and "length seed = CHAIN_SECRET_LEN"
  shows "\<exists>r. obind (StreamRatchet_from_seed seed) (derive_n (StreamRatchet_next_key_salt H) n) =
      Done (map (\<lambda>g. (g, key_salt_at H seed g)) [0..<n], r) \<and>
    sr_generation r = n \<and> (\<forall>g. length (key_salt_at H seed g) = 28)"
proof -
  have ok: "ratchet_ok H seed" using assms by (simp add: ratchet_ok_def CHAIN_SECRET_LEN_def)
  have "StreamRatchet_from_seed seed = Done (ratchet_at H seed 0)"
    using assms(2) by (simp add: from_seed_at [of seed H] CHAIN_SECRET_LEN_def)
  then show ?thesis
    using stream_ratchet.derive_n_at [OF ok, of n 0] length_key_salt_at [OF ok]
    by (simp add: stream_ratchet.gen_at)
qed

text \<open>An HKDF for examples: bytes that depend on the key, the label and the length.\<close>

definition sample_hkdf :: hkdf where
  "sample_hkdf prk info n = Some (replicate n (sum_list prk + of_nat (length info)))"

lemma sample_hkdf_sound: "hkdf_sound sample_hkdf"
  by (simp add: hkdf_sound_def sample_hkdf_def)

theorem ratchet_lockstep_witness:
  "\<exists>r. obind (StreamRatchet_from_seed (replicate 32 1)) (derive_n (StreamRatchet_next_key_salt sample_hkdf) 3) =
      Done ([(0, key_salt_at sample_hkdf (replicate 32 1) 0), (1, key_salt_at sample_hkdf (replicate 32 1) 1),
             (2, key_salt_at sample_hkdf (replicate 32 1) 2)], r) \<and> sr_generation r = 3"
  using ratchet_lockstep [OF sample_hkdf_sound, of "replicate 32 1" 3]
  by (auto simp: CHAIN_SECRET_LEN_def upt_rec numeral_2_eq_2)

text \<open>The labels and contexts under which a stream's material is exported.\<close>

definition exporter_calls :: "u32 \<Rightarrow> (bytes \<times> bytes) list" where
  "exporter_calls ssrc =
     map (\<lambda>label. (label, build_exporter_context ssrc))
       [SRTP_MASTER_KEY_LABEL, SRTP_MASTER_SALT_LABEL, SRTP_RATCHET_SEED_LABEL]"

text \<open>
  Key separation: what is exported for a stream, its SRTP master key and salt and its ratchet
  seed, depends on the group only through the three exporter calls of \<open>exporter_calls\<close>; those three
  differ from one another, and streams of different SSRCs share none.
\<close>

lemma exporter_calls_separate:
  "((\<forall>(label, context)\<in>set (exporter_calls a).
       mls_export_secret M grp label context = mls_export_secret M' grp' label context) \<longrightarrow>
     export_srtp_keys M grp a = export_srtp_keys M' grp' a \<and>
     StreamRatchet_seed_from_exporter M grp a = StreamRatchet_seed_from_exporter M' grp' a) \<and>
   distinct (exporter_calls a) \<and> (a \<noteq> b \<longrightarrow> set (exporter_calls a) \<inter> set (exporter_calls b) = {})"
proof -
  have "distinct (exporter_calls a)" "a \<noteq> b \<longrightarrow> set (exporter_calls a) \<inter> set (exporter_calls b) = {}"
    by (auto simp: exporter_calls_def context_injective SRTP_MASTER_KEY_LABEL_def SRTP_MASTER_SALT_LABEL_def
        SRTP_RATCHET_SEED_LABEL_def ascii_def)
  then show ?thesis
    by (simp add: exporter_calls_def [of a] export_srtp_keys_def StreamRatchet_seed_from_exporter_def Let_def)
qed

end
