(* ===== verification/Rtp.thy ===== *)
theory Rtp
  imports Prelude
begin

unbundle bit_operations_syntax

text \<open>
  The minimal RTP packet of \<^verbatim>\<open>src/transport/rtp.rs\<close>: a fixed 12-byte header with no
  CSRC list and no extension, followed by the payload. The lemmas are the round trip between
  the struct and its wire form in both directions, and what each header field reads from a
  serialised packet.
\<close>

section \<open>Definitions\<close>

definition RTP_HEADER_LEN :: nat where
  "RTP_HEADER_LEN = 12"

record RtpPacket =
  rtp_payload_type :: u8
  rtp_sequence_number :: u16
  rtp_timestamp :: u32
  rtp_ssrc :: u32
  rtp_payload :: bytes

definition RtpPacket_to_bytes :: "RtpPacket \<Rightarrow> bytes" where
  "RtpPacket_to_bytes p =
     [0x80] @ [rtp_payload_type p AND 0x7F]
       @ u16_to_be (rtp_sequence_number p)
       @ u32_to_be (rtp_timestamp p)
       @ u32_to_be (rtp_ssrc p)
       @ rtp_payload p"

definition RtpPacket_from_bytes :: "bytes \<Rightarrow> RtpPacket option" where
  "RtpPacket_from_bytes data =
     (if length data < RTP_HEADER_LEN then None
      else Some \<lparr> rtp_payload_type = data ! 1 AND 0x7F,
                  rtp_sequence_number = u16_from_be [data ! 2, data ! 3],
                  rtp_timestamp = u32_from_be [data ! 4, data ! 5, data ! 6, data ! 7],
                  rtp_ssrc = u32_from_be [data ! 8, data ! 9, data ! 10, data ! 11],
                  rtp_payload = drop RTP_HEADER_LEN data \<rparr>)"

text \<open>The header fields the keying layers read from a packet without parsing it.\<close>

definition header_seq :: "bytes \<Rightarrow> u16" where
  "header_seq buf = u16_from_be [buf ! 2, buf ! 3]"

definition header_timestamp :: "bytes \<Rightarrow> u32" where
  "header_timestamp buf = u32_from_be [buf ! 4, buf ! 5, buf ! 6, buf ! 7]"

definition header_ssrc :: "bytes \<Rightarrow> u32" where
  "header_ssrc buf = u32_from_be [buf ! 8, buf ! 9, buf ! 10, buf ! 11]"

text \<open>A 12-byte header with the given fields in front of a body.\<close>

definition rtp_header :: "u8 \<Rightarrow> u8 \<Rightarrow> u16 \<Rightarrow> u32 \<Rightarrow> u32 \<Rightarrow> bytes" where
  "rtp_header b0 b1 seq ts ssrc = [b0] @ [b1] @ u16_to_be seq @ u32_to_be ts @ u32_to_be ssrc"

section \<open>Reading a header back\<close>

lemma list2_nth: "length xs = 2 \<Longrightarrow> [xs ! 0, xs ! 1] = xs"
  by (cases xs; cases "tl xs") auto

lemma list4_nth: "length xs = 4 \<Longrightarrow> [xs ! 0, xs ! 1, xs ! 2, xs ! 3] = xs"
  by (auto simp: length_Suc_conv numeral_eq_Suc)

lemma length_rtp_header [simp, wire_simps]: "length (rtp_header b0 b1 seq ts ssrc) = 12"
  by (simp add: rtp_header_def)

lemma rtp_header_fields [wire_simps]:
  "header_seq (rtp_header b0 b1 seq ts ssrc @ body) = seq"
  "header_timestamp (rtp_header b0 b1 seq ts ssrc @ body) = ts"
  "header_ssrc (rtp_header b0 b1 seq ts ssrc @ body) = ssrc"
  "(rtp_header b0 b1 seq ts ssrc @ body) ! 0 = b0"
  "(rtp_header b0 b1 seq ts ssrc @ body) ! Suc 0 = b1"
proof -
  define a b c where "a = u16_to_be seq" and "b = u32_to_be ts" and "c = u32_to_be ssrc"
  then have len: "length a = 2" "length b = 4" "length c = 4" by simp_all
  have a: "[a ! 0, a ! 1] = a" and b: "[b ! 0, b ! 1, b ! 2, b ! 3] = b"
    and c: "[c ! 0, c ! 1, c ! 2, c ! 3] = c"
    using len by (simp_all only: list2_nth list4_nth)
  have h: "rtp_header b0 b1 seq ts ssrc = [b0, b1] @ a @ b @ c"
    by (simp add: rtp_header_def a_def b_def c_def)
  show "header_seq (rtp_header b0 b1 seq ts ssrc @ body) = seq"
    using a len by (simp add: header_seq_def h nth_append numeral_2_eq_2 numeral_3_eq_3 a_def)
  show "header_timestamp (rtp_header b0 b1 seq ts ssrc @ body) = ts"
    using b len by (simp add: header_timestamp_def h nth_append nth_Cons' b_def)
  show "header_ssrc (rtp_header b0 b1 seq ts ssrc @ body) = ssrc"
    using c len by (simp add: header_ssrc_def h nth_append nth_Cons' c_def)
  show "(rtp_header b0 b1 seq ts ssrc @ body) ! 0 = b0"
    "(rtp_header b0 b1 seq ts ssrc @ body) ! Suc 0 = b1"
    by (simp_all add: h)
qed

lemma header_split:
  assumes "12 \<le> length buf"
  shows "buf = rtp_header (buf ! 0) (buf ! 1) (header_seq buf) (header_timestamp buf)
           (header_ssrc buf) @ drop 12 buf"
proof -
  have "take 12 buf = [buf ! 0, buf ! 1] @ [buf ! 2, buf ! 3]
      @ [buf ! 4, buf ! 5, buf ! 6, buf ! 7] @ [buf ! 8, buf ! 9, buf ! 10, buf ! 11]"
    using assms by (intro nth_equalityI) (auto simp: less_Suc_eq numeral_eq_Suc)
  then have "take 12 buf = rtp_header (buf ! 0) (buf ! 1) (header_seq buf)
      (header_timestamp buf) (header_ssrc buf)"
    by (simp add: rtp_header_def header_seq_def header_timestamp_def header_ssrc_def
        u16_to_from_be u32_to_from_be)
  then show ?thesis by (metis append_take_drop_id)
qed

lemma to_bytes_header:
  "RtpPacket_to_bytes p =
     rtp_header 0x80 (rtp_payload_type p AND 0x7F) (rtp_sequence_number p) (rtp_timestamp p)
       (rtp_ssrc p) @ rtp_payload p"
  by (simp add: RtpPacket_to_bytes_def rtp_header_def)

lemma from_bytes_header:
  "RtpPacket_from_bytes (rtp_header b0 b1 seq ts ssrc @ body) =
     Some \<lparr> rtp_payload_type = b1 AND 0x7F, rtp_sequence_number = seq,
            rtp_timestamp = ts, rtp_ssrc = ssrc, rtp_payload = body \<rparr>"
  using rtp_header_fields [of b0 b1 seq ts ssrc body]
  by (simp add: RtpPacket_from_bytes_def RTP_HEADER_LEN_def header_seq_def
      header_timestamp_def header_ssrc_def)

lemma mask_7F_idem: "(b AND 0x7F) AND 0x7F = (b AND 0x7F :: u8)"
  by (simp add: and.assoc)

lemma length_to_bytes [simp]: "length (RtpPacket_to_bytes p) = 12 + length (rtp_payload p)"
  by (simp add: to_bytes_header)

section \<open>Round trips\<close>

text \<open>The packets the wire format represents exactly: the payload type fits its 7 bits.\<close>

definition rtp_representable :: "RtpPacket \<Rightarrow> bool" where
  "rtp_representable p \<longleftrightarrow> rtp_payload_type p AND 0x7F = rtp_payload_type p"

lemma from_to_bytes:
  "RtpPacket_from_bytes (RtpPacket_to_bytes p) = Some (p\<lparr>rtp_payload_type := rtp_payload_type p AND 0x7F\<rparr>)"
  by (simp add: to_bytes_header from_bytes_header mask_7F_idem)

interpretation rtp_wire: wire_codec RtpPacket_to_bytes RtpPacket_from_bytes rtp_representable
  by unfold_locales (simp add: from_to_bytes rtp_representable_def)

lemma to_from_bytes:
  assumes "RtpPacket_from_bytes data = Some p"
  shows "RtpPacket_to_bytes p = data[0 := 0x80, 1 := data ! 1 AND 0x7F]" and "rtp_representable p"
proof -
  from assms have len: "12 \<le> length data"
    by (auto simp: RtpPacket_from_bytes_def RTP_HEADER_LEN_def split: if_splits)
  note h = header_split [OF len]
  obtain b0 b1 seq ts ssrc body where d: "data = rtp_header b0 b1 seq ts ssrc @ body"
    using h by blast
  with assms have p: "p = \<lparr> rtp_payload_type = b1 AND 0x7F, rtp_sequence_number = seq,
            rtp_timestamp = ts, rtp_ssrc = ssrc, rtp_payload = body \<rparr>"
    by (simp add: from_bytes_header)
  show "RtpPacket_to_bytes p = data[0 := 0x80, 1 := data ! 1 AND 0x7F]"
    by (simp add: p d to_bytes_header mask_7F_idem) (simp add: rtp_header_def)
  show "rtp_representable p"
    by (simp add: p rtp_representable_def mask_7F_idem)
qed

section \<open>Properties\<close>

text \<open>
  Round trip from the wire: any datagram of at least 12 bytes parses, and writing the parsed
  packet back gives the datagram with its first byte replaced by 0x80 (version 2, no padding,
  extension or CSRC bits) and the marker bit cleared; every other byte is kept. Shorter input is
  rejected.
\<close>

lemma rtp_parse_print:
  "(RtpPacket_from_bytes data = None \<longleftrightarrow> length data < 12) \<and>
   (\<forall>p. RtpPacket_from_bytes data = Some p \<longrightarrow>
      RtpPacket_to_bytes p = data[0 := 0x80, 1 := data ! 1 AND 0x7F])"
  using to_from_bytes(1) [of data] by (auto simp: RtpPacket_from_bytes_def RTP_HEADER_LEN_def)

text \<open>
  Round trip from the struct: parsing what \<open>to_bytes\<close> wrote returns the packet with its
  payload type cut to 7 bits, for every packet; so two packets whose payload types fit 7 bits and
  that serialise alike are equal.
\<close>

lemma rtp_print_parse:
  "RtpPacket_from_bytes (RtpPacket_to_bytes p) =
     Some (p\<lparr>rtp_payload_type := rtp_payload_type p AND 0x7F\<rparr>) \<and>
   (rtp_representable p \<longrightarrow> rtp_representable q \<longrightarrow> RtpPacket_to_bytes p = RtpPacket_to_bytes q \<longrightarrow> p = q)"
  using from_to_bytes rtp_wire.enc_injective by blast

end
