(* ===== verification/Index_Recovery.thy ===== *)
theory Index_Recovery
  imports Prelude
begin

text \<open>
  Sequence-number unwrapping: \<^verbatim>\<open>src/receiver/index_recovery.rs\<close>. A 16-bit sequence number is
  turned back into the packet's position in the stream by choosing, among the positions with
  that low half, the one closest to the highest authenticated position.

  The theory also states the contract of such an estimator as a locale, \<open>index_estimator\<close>,
  and proves once that any implementation tracks a whole stream whose reordering stays below
  half the sequence space. \<open>IndexRecovery\<close> provides the contract here; libsrtp's own
  estimator provides it in theory \<open>Replay\<close>.
\<close>

section \<open>Definitions\<close>

record IndexRecovery =
  ir_highest :: "nat option"

definition IndexRecovery_default :: IndexRecovery where
  "IndexRecovery_default = \<lparr> ir_highest = None \<rparr>"

definition IndexRecovery_recover :: "IndexRecovery \<Rightarrow> u16 \<Rightarrow> nat" where
  "IndexRecovery_recover r seq =
     (case ir_highest r of
        None \<Rightarrow> unat seq
      | Some highest \<Rightarrow>
          (let roc = highest div 65536;
               s_l = int (highest mod 65536);
               seq_i = int (unat seq);
               v = (if s_l < 32768
                    then (if seq_i - s_l > 32768 then sat_sub64 roc 1 else roc)
                    else if s_l - 32768 > seq_i then roc + 1
                    else roc)
           in wrap64 (v * 65536) + unat seq))"

definition IndexRecovery_update :: "IndexRecovery \<Rightarrow> nat \<Rightarrow> IndexRecovery" where
  "IndexRecovery_update r index =
     (case ir_highest r of
        None \<Rightarrow> r\<lparr>ir_highest := Some index\<rparr>
      | Some h \<Rightarrow> if index > h then r\<lparr>ir_highest := Some index\<rparr> else r)"

section \<open>The estimator contract\<close>

text \<open>
  \<open>near h i\<close>: position \<open>i\<close> is close enough to the reference \<open>h\<close> to be identified by its low
  16 bits. In the first half rollover nothing can lie before it, so every first-rollover
  position qualifies.
\<close>

definition near :: "nat \<Rightarrow> nat \<Rightarrow> bool" where
  "near h i \<longleftrightarrow> \<bar>int i - int h\<bar> < 32768 \<or> (h \<le> 32768 \<and> i < 65536)"

fun near_run :: "nat option \<Rightarrow> nat list \<Rightarrow> bool" where
  "near_run h [] \<longleftrightarrow> True"
| "near_run None (i # is) \<longleftrightarrow> i < 65536 \<and> near_run (Some i) is"
| "near_run (Some h) (i # is) \<longleftrightarrow> near h i \<and> near_run (Some (max h i)) is"

text \<open>Every packet of a run is estimated from its sequence number and then recorded.\<close>

fun est_run :: "('st \<Rightarrow> u16 \<Rightarrow> nat) \<Rightarrow> ('st \<Rightarrow> nat \<Rightarrow> 'st) \<Rightarrow> 'st \<Rightarrow> nat list \<Rightarrow> nat list" where
  "est_run est upd st [] = []"
| "est_run est upd st (i # is) =
     (let j = est st (of_nat i) in j # est_run est upd (upd st j) is)"

locale index_estimator =
  fixes est :: "'st \<Rightarrow> u16 \<Rightarrow> nat"
    and upd :: "'st \<Rightarrow> nat \<Rightarrow> 'st"
    and ref :: "'st \<Rightarrow> nat option"
    and bound :: nat
  assumes est_first: "ref st = None \<Longrightarrow> est st seq = unat seq"
    and est_near: "ref st = Some h \<Longrightarrow> h < bound \<Longrightarrow> i < bound \<Longrightarrow> near h i \<Longrightarrow>
      est st (of_nat i) = i"
    and ref_first: "ref st = None \<Longrightarrow> ref (upd st i) = Some i"
    and ref_upd: "ref st = Some h \<Longrightarrow> near h i \<Longrightarrow> h < bound \<Longrightarrow> i < bound \<Longrightarrow>
      ref (upd st i) = Some (max h i)"
begin

lemma est_run_exact:
  assumes "near_run (ref st) is" and "\<forall>i\<in>set is. i < bound"
    and "\<And>h. ref st = Some h \<Longrightarrow> h < bound"
  shows "est_run est upd st is = is"
  using assms
proof (induction "is" arbitrary: st)
  case Nil
  then show ?case by simp
next
  case (Cons i "is")
  show ?case
  proof (cases "ref st")
    case None
    with Cons.prems have i: "i < 65536" and run: "near_run (Some i) is" by auto
    have "est st (of_nat i) = i" using est_first [OF None] i by (simp add: unat_of_nat_u16)
    moreover have "est_run est upd (upd st i) is = is"
      by (rule Cons.IH) (use run Cons.prems(2) in \<open>simp_all add: ref_first [OF None]\<close>)
    ultimately show ?thesis by simp
  next
    case (Some h)
    with Cons.prems have n: "near h i" and run: "near_run (Some (max h i)) is" by auto
    have b: "h < bound" "i < bound" using Cons.prems Some by auto
    have "est st (of_nat i) = i" by (rule est_near [OF Some b n])
    moreover have "est_run est upd (upd st i) is = is"
      by (rule Cons.IH) (use run b Cons.prems(2) in \<open>simp_all add: ref_upd [OF Some n b]\<close>)
    ultimately show ?thesis by simp
  qed
qed

end

section \<open>\<open>IndexRecovery\<close> meets the contract\<close>

lemma recover_first: "ir_highest r = None \<Longrightarrow> IndexRecovery_recover r seq = unat seq"
  by (simp add: IndexRecovery_recover_def)

lemma update_highest:
  "ir_highest (IndexRecovery_update r i) =
     (case ir_highest r of None \<Rightarrow> Some i | Some h \<Rightarrow> Some (max h i))"
  by (auto simp: IndexRecovery_update_def split: option.splits)

text \<open>The rollover count \<open>recover\<close> settles on, as a function of the reference's two halves.\<close>

definition rollover :: "nat \<Rightarrow> nat \<Rightarrow> nat" where
  "rollover h q =
     (if h mod 65536 < 32768
      then (if q > h mod 65536 + 32768 then h div 65536 - 1 else h div 65536)
      else if h mod 65536 > q + 32768 then h div 65536 + 1
      else h div 65536)"

lemma recover_rollover:
  assumes "ir_highest r = Some h"
  shows "IndexRecovery_recover r seq = wrap64 (rollover h (unat seq) * 65536) + unat seq"
proof -
  define q s where "q = unat seq" and "s = h mod 65536"
  have "int q - int s > 32768 \<longleftrightarrow> q > s + 32768" "int s - 32768 > int q \<longleftrightarrow> s > q + 32768"
    by linarith+
  then show ?thesis
    unfolding IndexRecovery_recover_def rollover_def Let_def assms option.case
      q_def [symmetric] s_def [symmetric]
    by (simp add: sat_sub64_def)
qed

lemma near_rollover:
  assumes "near h i"
  shows "rollover h (i mod 65536) = i div 65536"
proof -
  obtain k q where i: "i = 65536 * k + q" and q: "q < 65536"
    by (metis mod_less_divisor mult_div_mod_eq zero_less_numeral)
  obtain r s where h: "h = 65536 * r + s" and s: "s < 65536"
    by (metis mod_less_divisor mult_div_mod_eq zero_less_numeral)
  have "h div 65536 = r" "h mod 65536 = s" "i div 65536 = k" "i mod 65536 = q"
    using h s i q by simp_all
  then show ?thesis using q s assms unfolding rollover_def near_def i h
    by (cases "k < r"; cases "k = r") auto
qed

lemma recover_near:
  assumes "ir_highest r = Some h" and "i < 2 ^ 64" and "near h i"
  shows "IndexRecovery_recover r (of_nat i) = i"
proof -
  have q: "unat (of_nat i :: u16) = i mod 65536" by (simp add: unat_of_nat)
  have "rollover h (i mod 65536) * 65536 + i mod 65536 = i"
    using near_rollover [OF assms(3)] by simp
  moreover have "rollover h (i mod 65536) * 65536 < 2 ^ 64"
    using near_rollover [OF assms(3)] assms(2) by simp
  ultimately show ?thesis by (simp add: recover_rollover [OF assms(1)] q)
qed

interpretation rust_recovery: index_estimator IndexRecovery_recover IndexRecovery_update ir_highest "2 ^ 64"
  by unfold_locales (auto simp: recover_first recover_near update_highest)

lemma rollover_nearest:
  assumes "c mod 65536 = q"
  shows "\<bar>int (rollover h q * 65536 + q) - int h\<bar> \<le> \<bar>int c - int h\<bar>"
proof -
  obtain k where c: "c = 65536 * k + q" using assms by (metis mult_div_mod_eq)
  have q: "q < 65536" using assms by auto
  obtain r s where h: "h = 65536 * r + s" and s: "s < 65536"
    by (metis mod_less_divisor mult_div_mod_eq zero_less_numeral)
  have "h div 65536 = r" "h mod 65536 = s" using h s by simp_all
  then show ?thesis using q s unfolding c h rollover_def
    by (cases "k < r"; cases "k = r") auto
qed

section \<open>Properties\<close>

text \<open>
  C33. A whole run is recovered exactly: if the true positions of the packets start in the first
  65536 and every position is less than 32768 away from the highest one before it (in either
  direction; in the first half rollover, anywhere in the first 65536), then recovering each
  position from its 16-bit sequence number and recording it returns exactly the true positions,
  across any number of wrap-arounds below 2^64.
\<close>

theorem index_recovery_exact:
  assumes "near_run None is" and "\<forall>i\<in>set is. i < 2 ^ 64"
  shows "est_run IndexRecovery_recover IndexRecovery_update IndexRecovery_default is = is"
  by (rule rust_recovery.est_run_exact) (use assms in \<open>simp_all add: IndexRecovery_default_def\<close>)

theorem index_recovery_exact_witness:
  "est_run IndexRecovery_recover IndexRecovery_update IndexRecovery_default
     [40000, 65530, 65540, 65534, 90000, 120000, 131080] = [40000, 65530, 65540, 65534, 90000, 120000, 131080]"
  by (rule index_recovery_exact) (simp_all add: near_def)

text \<open>
  Reference definition of recovery: the recovered index has the packet's sequence number as
  its low half, and among all indices with that low half none is closer to the highest
  authenticated index.
\<close>

lemma index_recovery_nearest:
  assumes "ir_highest r = Some h" and "h < 2 ^ 63"
  shows "IndexRecovery_recover r seq mod 65536 = unat seq \<and>
    (\<forall>c. c mod 65536 = unat seq \<longrightarrow> \<bar>int (IndexRecovery_recover r seq) - int h\<bar> \<le> \<bar>int c - int h\<bar>)"
proof -
  have "rollover h (unat seq) \<le> h div 65536 + 1" unfolding rollover_def by auto
  also have "h div 65536 < 2 ^ 47" using assms(2) by (simp add: less_mult_imp_div_less)
  finally have "rollover h (unat seq) * 65536 < 2 ^ 64" by simp
  then have e: "IndexRecovery_recover r seq = rollover h (unat seq) * 65536 + unat seq"
    by (simp add: recover_rollover [OF assms(1)])
  have "\<bar>int (rollover h (unat seq) * 65536 + unat seq) - int h\<bar> \<le> \<bar>int c - int h\<bar>"
    if "c mod 65536 = unat seq" for c
    using rollover_nearest [OF that, of h] by simp
  then show ?thesis unfolding e using unat_u16_less [of seq] by simp
qed

end
