(* ===== verification/Replay.thy ===== *)
theory Replay
  imports Index_Recovery
begin

text \<open>
  libsrtp's extended replay database, \<^verbatim>\<open>third_party/srtp2-sys/libsrtp/crypto/replay/rdbx.c\<close>: a
  64-bit packet index (the highest one accepted) and a bit mask of the recent ones, the highest
  bit standing for the index itself. Every SRTP session the sender and the receiver open holds
  one; an in-place rekey leaves it untouched.

  Shown here: the estimator of the replay database meets the same contract as the receiver's
  \<open>IndexRecovery\<close> and gives the same answer, and the check-then-add discipline of the library
  never admits a position twice (locale \<open>replay_db\<close>, interpreted on the functions below).
\<close>

section \<open>Definitions\<close>

datatype rdbx_status = rdbx_ok | rdbx_replay_old | rdbx_replay_fail

record rdbx =
  rdbx_index :: nat
  rdbx_bits :: "bool list"

text \<open>The window is rounded up to whole 32-bit words (\<^verbatim>\<open>bitvector_alloc\<close>).\<close>

definition srtp_rdbx_init :: "nat \<Rightarrow> rdbx" where
  "srtp_rdbx_init ws = \<lparr> rdbx_index = 0, rdbx_bits = replicate ((ws + 31) div 32 * 32) False \<rparr>"

text \<open>The estimate and its signed distance from the stored index.\<close>

definition srtp_index_guess :: "nat \<Rightarrow> u16 \<Rightarrow> nat \<times> int" where
  "srtp_index_guess local s =
     (let local_roc = (of_nat (local div 65536) :: u32);
          local_seq = int (local mod 65536);
          si = int (unat s);
          (guess_roc, difference) =
            (if local_seq < 32768
             then (if si - local_seq > 32768
                   then (local_roc - 1, si - local_seq - 65536)
                   else (local_roc, si - local_seq))
             else (if local_seq - 32768 > si
                   then (local_roc + 1, si - local_seq + 65536)
                   else (local_roc, si - local_seq)))
      in (unat guess_roc * 65536 + unat s, difference))"

definition srtp_rdbx_estimate_index :: "rdbx \<Rightarrow> u16 \<Rightarrow> nat \<times> int" where
  "srtp_rdbx_estimate_index r s =
     (if rdbx_index r > 32768 then srtp_index_guess (rdbx_index r) s
      else (unat s, int (unat s) - int (rdbx_index r)))"

definition srtp_rdbx_check :: "rdbx \<Rightarrow> int \<Rightarrow> rdbx_status" where
  "srtp_rdbx_check r delta =
     (if delta > 0 then rdbx_ok
      else if int (length (rdbx_bits r)) - 1 + delta < 0 then rdbx_replay_old
      else if rdbx_bits r ! nat (int (length (rdbx_bits r)) - 1 + delta) then rdbx_replay_fail
      else rdbx_ok)"

definition bitvector_left_shift :: "bool list \<Rightarrow> nat \<Rightarrow> bool list" where
  "bitvector_left_shift bs shift =
     (if shift \<ge> length bs then replicate (length bs) False
      else drop shift bs @ replicate shift False)"

definition srtp_rdbx_add_index :: "rdbx \<Rightarrow> int \<Rightarrow> rdbx" where
  "srtp_rdbx_add_index r delta =
     (let n = length (rdbx_bits r) in
      if delta > 0
      then r\<lparr> rdbx_index := rdbx_index r + nat (delta mod 65536),
              rdbx_bits := (bitvector_left_shift (rdbx_bits r) (nat delta))[n - 1 := True] \<rparr>
      else r\<lparr> rdbx_bits := (rdbx_bits r)[nat (int n - 1 + delta) := True] \<rparr>)"

section \<open>Estimating an index\<close>

lemma rdbx_estimate_eq:
  assumes "srtp_rdbx_estimate_index r s = (guess, delta)"
  shows "int (rollover (rdbx_index r) (unat s) * 65536 + unat s) = int (rdbx_index r) + delta"
    and "rollover (rdbx_index r) (unat s) < 2 ^ 32 \<Longrightarrow> rdbx_index r < 2 ^ 48 \<Longrightarrow>
      guess = rollover (rdbx_index r) (unat s) * 65536 + unat s"
    and "delta < 65536"
proof -
  define h q where "h = rdbx_index r" and "q = unat s"
  obtain k l where h: "h = 65536 * k + l" and l: "l < 65536"
    by (metis mod_less_divisor mult_div_mod_eq zero_less_numeral)
  have hd: "h div 65536 = k" "h mod 65536 = l" using h l by simp_all
  have q: "q < 65536" unfolding q_def by (rule unat_u16_less)
  show "int (rollover (rdbx_index r) (unat s) * 65536 + unat s) = int (rdbx_index r) + delta"
    using assms q l h unfolding srtp_rdbx_estimate_index_def srtp_index_guess_def rollover_def
      h_def [symmetric] q_def [symmetric] Let_def hd
    by (auto split: if_splits)
  show "delta < 65536"
    using assms q l h unfolding srtp_rdbx_estimate_index_def srtp_index_guess_def
      h_def [symmetric] q_def [symmetric] Let_def hd
    by (auto split: if_splits)
  assume b: "rollover (rdbx_index r) (unat s) < 2 ^ 32" and "rdbx_index r < 2 ^ 48"
  then have k: "k < 2 ^ 32" using h by (simp flip: h_def)
  have pred: "unat ((of_nat k :: u32) - 1) = k - 1" if "0 < k"
    using that k by (simp add: unat_sub_if_size unat_of_nat_u32 word_size)
  have succ: "unat ((of_nat k :: u32) + 1) = k + 1" if "k + 1 < 2 ^ 32"
    using that k by (simp add: unat_word_ariths unat_of_nat_u32)
  show "guess = rollover (rdbx_index r) (unat s) * 65536 + unat s"
    using assms q l h k b pred succ
    unfolding srtp_rdbx_estimate_index_def srtp_index_guess_def rollover_def
      h_def [symmetric] q_def [symmetric] Let_def hd
    by (auto split: if_splits simp: unat_of_nat_u32)
qed

lemma rdbx_estimate_near:
  assumes "near (rdbx_index r) i" and "i < 2 ^ 48" and "rdbx_index r < 2 ^ 48"
  shows "fst (srtp_rdbx_estimate_index r (of_nat i)) = i"
proof -
  obtain guess delta where e: "srtp_rdbx_estimate_index r (of_nat i) = (guess, delta)"
    by (cases "srtp_rdbx_estimate_index r (of_nat i)")
  have q: "unat (of_nat i :: u16) = i mod 65536" by (simp add: unat_of_nat)
  have v: "rollover (rdbx_index r) (i mod 65536) = i div 65536"
    by (rule near_rollover [OF assms(1)])
  have "i div 65536 < 2 ^ 32" using assms(2) by simp
  then show ?thesis using rdbx_estimate_eq(2) [OF e] assms(3) by (simp add: e q v)
qed

lemma add_index_top:
  assumes "delta < 65536"
  shows "rdbx_index (srtp_rdbx_add_index r delta) = rdbx_index r + nat delta"
  using assms by (auto simp: srtp_rdbx_add_index_def Let_def)

interpretation libsrtp_estimate: index_estimator "\<lambda>r s. fst (srtp_rdbx_estimate_index r s)"
  "\<lambda>r i. srtp_rdbx_add_index r (int i - int (rdbx_index r))" "\<lambda>r. Some (rdbx_index r)" "2 ^ 48"
proof (unfold_locales, goal_cases)
  case (4 r h i)
  then have "int i - int h < 65536" by (auto simp: near_def)
  with 4 show ?case by (auto simp: add_index_top max_def)
qed (simp_all add: rdbx_estimate_near)

text \<open>
  With the same reference, the receiver's \<open>recover\<close> and libsrtp's estimator agree on every
  sequence number.
\<close>

lemma recover_eq_estimate:
  assumes "ir_highest rec = Some (rdbx_index r)" and "rdbx_index r < 2 ^ 48 - 65536"
  shows "IndexRecovery_recover rec s = fst (srtp_rdbx_estimate_index r s)"
proof -
  obtain guess delta where e: "srtp_rdbx_estimate_index r s = (guess, delta)"
    by (cases "srtp_rdbx_estimate_index r s")
  have "rdbx_index r div 65536 < 2 ^ 32 - 1" using assms(2) by simp
  then have v: "rollover (rdbx_index r) (unat s) < 2 ^ 32" by (auto simp: rollover_def)
  then have "rollover (rdbx_index r) (unat s) * 65536 < 2 ^ 64" by simp
  then show ?thesis
    using rdbx_estimate_eq(2) [OF e v] assms(2) recover_rollover [OF assms(1), of s]
    by (simp add: e)
qed

section \<open>No position is admitted twice\<close>

text \<open>
  The contract of a replay database towards a session that checks a position, authenticates the
  packet and then records it. \<open>blocked\<close> positions are those the check refuses.
\<close>

fun accept_run ::
  "('r \<Rightarrow> 'q \<Rightarrow> nat) \<Rightarrow> ('r \<Rightarrow> nat \<Rightarrow> bool) \<Rightarrow> ('r \<Rightarrow> nat \<Rightarrow> 'r) \<Rightarrow> 'r \<Rightarrow> 'q list \<Rightarrow> nat list" where
  "accept_run pos blocked add r [] = []"
| "accept_run pos blocked add r (q # qs) =
     (let j = pos r q in
      if blocked r j then accept_run pos blocked add r qs
      else j # accept_run pos blocked add (add r j) qs)"

locale replay_db =
  fixes pos :: "'r \<Rightarrow> 'q \<Rightarrow> nat"
    and blocked :: "'r \<Rightarrow> nat \<Rightarrow> bool"
    and add :: "'r \<Rightarrow> nat \<Rightarrow> 'r"
    and inv :: "'r \<Rightarrow> bool"
  assumes inv_add: "inv r \<Longrightarrow> \<not> blocked r (pos r q) \<Longrightarrow> inv (add r (pos r q))"
    and blocked_add: "inv r \<Longrightarrow> \<not> blocked r (pos r q) \<Longrightarrow> blocked (add r (pos r q)) (pos r q)"
    and blocked_mono: "inv r \<Longrightarrow> \<not> blocked r (pos r q) \<Longrightarrow> blocked r j \<Longrightarrow>
      blocked (add r (pos r q)) j"
begin

lemma accept_run_fresh:
  "inv r \<Longrightarrow> distinct (accept_run pos blocked add r qs) \<and>
     (\<forall>j \<in> set (accept_run pos blocked add r qs). \<not> blocked r j)"
proof (induction qs arbitrary: r)
  case Nil
  then show ?case by simp
next
  case (Cons q qs)
  show ?case
  proof (cases "blocked r (pos r q)")
    case True
    with Cons show ?thesis by simp
  next
    case False
    have i: "inv (add r (pos r q))" by (rule inv_add [OF Cons.prems False])
    have "blocked (add r (pos r q)) (pos r q)" by (rule blocked_add [OF Cons.prems False])
    with Cons.IH [OF i] False blocked_mono [OF Cons.prems False] show ?thesis
      by (auto simp: Let_def)
  qed
qed

end

definition rdbx_pos :: "rdbx \<Rightarrow> u16 \<Rightarrow> nat" where
  "rdbx_pos r s = nat (int (rdbx_index r) + snd (srtp_rdbx_estimate_index r s))"

definition rdbx_blocked :: "rdbx \<Rightarrow> nat \<Rightarrow> bool" where
  "rdbx_blocked r j \<longleftrightarrow> srtp_rdbx_check r (int j - int (rdbx_index r)) \<noteq> rdbx_ok"

definition rdbx_add :: "rdbx \<Rightarrow> nat \<Rightarrow> rdbx" where
  "rdbx_add r j = srtp_rdbx_add_index r (int j - int (rdbx_index r))"

definition rdbx_wf :: "rdbx \<Rightarrow> bool" where
  "rdbx_wf r \<longleftrightarrow> rdbx_bits r \<noteq> []"

lemma rdbx_pos_eq: "rdbx_pos r s = rollover (rdbx_index r) (unat s) * 65536 + unat s"
proof -
  obtain guess delta where e: "srtp_rdbx_estimate_index r s = (guess, delta)"
    by (cases "srtp_rdbx_estimate_index r s")
  show ?thesis
    unfolding rdbx_pos_def e snd_conv rdbx_estimate_eq(1) [OF e, symmetric] by (rule nat_int)
qed

lemma rdbx_pos_less: "rdbx_pos r s < rdbx_index r + 65536"
proof -
  obtain guess delta where e: "srtp_rdbx_estimate_index r s = (guess, delta)"
    by (cases "srtp_rdbx_estimate_index r s")
  show ?thesis using rdbx_estimate_eq(3) [OF e] by (simp add: rdbx_pos_def e)
qed

lemma rdbx_blocked_iff:
  "rdbx_blocked r j \<longleftrightarrow> j \<le> rdbx_index r \<and>
     (length (rdbx_bits r) \<le> rdbx_index r - j \<or>
      rdbx_bits r ! (length (rdbx_bits r) - 1 - (rdbx_index r - j)))"
proof (cases "j \<le> rdbx_index r")
  case False
  then show ?thesis by (simp add: rdbx_blocked_def srtp_rdbx_check_def)
next
  case True
  define n d where "n = length (rdbx_bits r)" and "d = rdbx_index r - j"
  have delta: "int j - int (rdbx_index r) = - int d" using True by (simp add: d_def)
  have neg: "int n - 1 - int d < 0 \<longleftrightarrow> n \<le> d" by linarith
  have idx: "nat (int n - 1 - int d) = n - 1 - d" by linarith
  have "srtp_rdbx_check r (int j - int (rdbx_index r)) =
      (if n \<le> d then rdbx_replay_old
       else if rdbx_bits r ! (n - 1 - d) then rdbx_replay_fail else rdbx_ok)"
    unfolding delta srtp_rdbx_check_def n_def [symmetric] using neg idx by simp
  then show ?thesis using True by (auto simp: rdbx_blocked_def n_def d_def split: if_splits)
qed

lemma rdbx_add_ahead:
  assumes "rdbx_index r < j" and "j < rdbx_index r + 65536"
  shows "rdbx_add r j = r\<lparr> rdbx_index := j, rdbx_bits :=
    (bitvector_left_shift (rdbx_bits r) (j - rdbx_index r))[length (rdbx_bits r) - 1 := True] \<rparr>"
proof -
  have "nat ((int j - int (rdbx_index r)) mod 65536) = j - rdbx_index r"
    using assms by (simp add: nat_diff_distrib)
  then show ?thesis using assms
    by (simp add: rdbx_add_def srtp_rdbx_add_index_def Let_def nat_diff_distrib)
qed

lemma rdbx_add_behind:
  assumes "j \<le> rdbx_index r" and "rdbx_index r - j < length (rdbx_bits r)"
  shows "rdbx_add r j = r\<lparr> rdbx_bits :=
    (rdbx_bits r)[length (rdbx_bits r) - 1 - (rdbx_index r - j) := True] \<rparr>"
proof -
  have "nat (int (length (rdbx_bits r)) - 1 + (int j - int (rdbx_index r))) =
      length (rdbx_bits r) - 1 - (rdbx_index r - j)"
    using assms by linarith
  then show ?thesis using assms by (simp add: rdbx_add_def srtp_rdbx_add_index_def Let_def)
qed

lemma length_left_shift [simp]: "length (bitvector_left_shift bs n) = length bs"
  by (simp add: bitvector_left_shift_def)

lemma nth_left_shift: "i < length bs \<Longrightarrow>
   bitvector_left_shift bs n ! i = (i + n < length bs \<and> bs ! (i + n))"
  by (auto simp: bitvector_left_shift_def nth_append add.commute)

lemma rdbx_add_wf:
  assumes "rdbx_wf r" and "j < rdbx_index r + 65536" and "\<not> rdbx_blocked r j"
  shows "rdbx_wf (rdbx_add r j)" "length (rdbx_bits (rdbx_add r j)) = length (rdbx_bits r)"
    "rdbx_index (rdbx_add r j) = max (rdbx_index r) j"
proof -
  show len: "length (rdbx_bits (rdbx_add r j)) = length (rdbx_bits r)"
    by (cases "rdbx_index r < j")
      (use assms in \<open>simp_all add: rdbx_add_ahead rdbx_add_behind rdbx_blocked_iff\<close>)
  show "rdbx_index (rdbx_add r j) = max (rdbx_index r) j"
    by (cases "rdbx_index r < j")
      (use assms in \<open>simp_all add: rdbx_add_ahead rdbx_add_behind rdbx_blocked_iff\<close>)
  show "rdbx_wf (rdbx_add r j)" using len assms(1) by (auto simp: rdbx_wf_def)
qed

lemma rdbx_blocked_add:
  assumes "rdbx_wf r" and "j < rdbx_index r + 65536" and "\<not> rdbx_blocked r j"
  shows "rdbx_blocked (rdbx_add r j) i \<longleftrightarrow> i = j \<or> rdbx_blocked r i \<or>
    (i \<le> max (rdbx_index r) j \<and> length (rdbx_bits r) \<le> max (rdbx_index r) j - i)"
proof (cases "rdbx_index r < j")
  case True
  define n where "n = length (rdbx_bits r)"
  have n: "0 < n" using assms(1) by (simp add: n_def rdbx_wf_def)
  have bits: "rdbx_bits (rdbx_add r j) ! k = (k = n - 1 \<or>
      (k + (j - rdbx_index r) < n \<and> rdbx_bits r ! (k + (j - rdbx_index r))))" if "k < n" for k
    using that True assms(2) n
    by (auto simp: rdbx_add_ahead nth_list_update nth_left_shift n_def)
  show ?thesis
  proof (cases "i \<le> j \<and> j - i < n")
    case in_window: True
    then have "rdbx_blocked (rdbx_add r j) i \<longleftrightarrow> rdbx_bits (rdbx_add r j) ! (n - 1 - (j - i))"
      using True assms by (simp add: rdbx_blocked_iff rdbx_add_wf n_def)
    also have "\<dots> \<longleftrightarrow> i = j \<or> (i \<le> rdbx_index r \<and> rdbx_bits r ! (n - 1 - (rdbx_index r - i)))"
    proof (cases "i = j")
      case True
      then show ?thesis using bits [of "n - 1"] n by simp
    next
      case ne: False
      have k: "n - 1 - (j - i) < n" "n - 1 - (j - i) \<noteq> n - 1" using in_window ne n by linarith+
      show ?thesis
      proof (cases "i \<le> rdbx_index r")
        case le: True
        then have "n - 1 - (j - i) + (j - rdbx_index r) = n - 1 - (rdbx_index r - i)"
          using in_window True by linarith
        moreover have "n - 1 - (rdbx_index r - i) < n" using n by linarith
        ultimately show ?thesis unfolding bits [OF k(1)] using k le ne by metis
      next
        case gt: False
        then have "\<not> n - 1 - (j - i) + (j - rdbx_index r) < n"
          using in_window True by linarith
        then show ?thesis using bits [OF k(1)] k gt ne by simp
      qed
    qed
    finally show ?thesis using in_window True
      by (auto simp: rdbx_blocked_iff n_def)
  next
    case False
    then show ?thesis using True assms by (auto simp: rdbx_blocked_iff rdbx_add_wf n_def)
  qed
next
  case False
  then have j: "j \<le> rdbx_index r" "rdbx_index r - j < length (rdbx_bits r)"
    using assms(3) by (auto simp: rdbx_blocked_iff)
  then show ?thesis
    by (auto simp: rdbx_blocked_iff rdbx_add_behind nth_list_update)
qed

interpretation libsrtp_replay: replay_db rdbx_pos rdbx_blocked rdbx_add rdbx_wf
  by unfold_locales (auto simp: rdbx_add_wf rdbx_blocked_add rdbx_pos_less)

lemma rdbx_init_wf: "0 < ws \<Longrightarrow> rdbx_wf (srtp_rdbx_init ws)"
  by (simp add: srtp_rdbx_init_def rdbx_wf_def)

section \<open>Properties\<close>



end
