(* ===== verification/Srtp_Session.thy ===== *)
theory Srtp_Session
  imports Rtp Mls_Export Replay "HOL-Library.AList"
begin

unbundle bit_operations_syntax

text \<open>
  SRTP sessions: the \<^verbatim>\<open>srtp\<close> crate (\<^verbatim>\<open>third_party/srtp/src/session.rs\<close>), the AES-128-GCM path of
  the vendored libsrtp below it (\<^verbatim>\<open>srtp.c\<close>), and the session constructors of
  \<^verbatim>\<open>src/transport/srtp_session.rs\<close>.

  The cipher and the master-to-session key derivation are implemented by OpenSSL and libsrtp's
  crypto kernel; they are the fields of the parameter \<open>srtp_crypto\<close>. A sealed payload is the
  ciphertext followed by the 16-byte tag.

  A stream made from the session's template shares the template's cipher object, so the model
  keeps the key of such a stream in the template (\<open>st_shared\<close>). The RTCP half of a session is in
  the theories \<open>Srtcp\<close> and \<open>Session_Api\<close>. Not modelled: master key identifiers, header-extension encryption, a manually set rollover counter, the user-data
  callbacks (the code sets none of these) and the usage limit of 2^48 packets per key.
\<close>

section \<open>Errors\<close>

datatype srtp_error =
    FAIL | BAD_PARAM | ALLOC_FAIL | DEALLOC_FAIL | INIT_FAIL | TERMINUS | AUTH_FAIL | CIPHER_FAIL
  | REPLAY_FAIL | REPLAY_OLD | ALGO_FAIL | NO_SUCH_OP | NO_CTX | CANT_CHECK | KEY_EXPIRED
  | SOCKET_ERR | SIGNAL_ERR | NONCE_BAD | READ_FAIL | WRITE_FAIL | PARSE_ERR | ENCODE_ERR
  | SEMAPHORE_ERR | PFKEY_ERR | BAD_MKI | PKT_IDX_OLD | PKT_IDX_ADV

section \<open>State\<close>

record srtp_crypto =
  gcm_seal :: "bytes \<Rightarrow> bytes \<Rightarrow> bytes \<Rightarrow> bytes \<Rightarrow> bytes"
  gcm_open :: "bytes \<Rightarrow> bytes \<Rightarrow> bytes \<Rightarrow> bytes \<Rightarrow> bytes option"
  srtp_kdf :: "bytes \<Rightarrow> bytes \<times> bytes"

datatype direction = dir_unknown | dir_srtp_sender | dir_srtp_receiver

record srtp_stream =
  st_key :: bytes
  st_salt :: bytes
  st_rdbx :: rdbx
  st_direction :: direction
  st_allow_repeat_tx :: bool
  st_shared :: bool

record srtp_session =
  ss_streams :: "(u32 \<times> srtp_stream) list"
  ss_template :: "srtp_stream option"

record StreamPolicy =
  sp_key :: bytes
  sp_window_size :: nat
  sp_allow_repeat_tx :: bool

section \<open>RTP headers as libsrtp reads them\<close>

definition srtp_get_rtp_hdr_len :: "bytes \<Rightarrow> nat" where
  "srtp_get_rtp_hdr_len pkt = 12 + 4 * unat (pkt ! 0 AND 0x0F)"

definition hdr_x :: "bytes \<Rightarrow> bool" where
  "hdr_x pkt \<longleftrightarrow> pkt ! 0 AND 0x10 \<noteq> 0"

definition srtp_get_rtp_hdr_xtnd_len :: "bytes \<Rightarrow> nat" where
  "srtp_get_rtp_hdr_xtnd_len pkt =
     (let h = srtp_get_rtp_hdr_len pkt in (unat (u16_from_be [pkt ! (h + 2), pkt ! (h + 3)]) + 1) * 4)"

definition srtp_validate_rtp_header :: "bytes \<Rightarrow> srtp_error option" where
  "srtp_validate_rtp_header pkt =
     (if length pkt < 12 then Some BAD_PARAM
      else if length pkt < srtp_get_rtp_hdr_len pkt then Some BAD_PARAM
      else if hdr_x pkt then
        (if length pkt < srtp_get_rtp_hdr_len pkt + 4 then Some BAD_PARAM
         else if length pkt < srtp_get_rtp_hdr_len pkt + srtp_get_rtp_hdr_xtnd_len pkt
         then Some BAD_PARAM else None)
      else None)"

text \<open>Where encryption starts: after the CSRC list and the header extension, if any.\<close>

definition enc_start :: "bytes \<Rightarrow> nat" where
  "enc_start pkt =
     srtp_get_rtp_hdr_len pkt + (if hdr_x pkt then srtp_get_rtp_hdr_xtnd_len pkt else 0)"

definition srtp_calc_aead_iv :: "bytes \<Rightarrow> u32 \<Rightarrow> nat \<Rightarrow> bytes" where
  "srtp_calc_aead_iv salt ssrc est =
     map2 (XOR)
       ([0, 0] @ u32_to_be ssrc @ u32_to_be (of_nat (est div 65536)) @ u16_to_be (of_nat est)) salt"

section \<open>Streams\<close>

definition stream_key :: "srtp_session \<Rightarrow> srtp_stream \<Rightarrow> bytes" where
  "stream_key s st =
     (if st_shared st then (case ss_template s of Some t \<Rightarrow> st_key t | None \<Rightarrow> st_key st)
      else st_key st)"

definition srtp_get_stream :: "srtp_session \<Rightarrow> u32 \<Rightarrow> srtp_stream option" where
  "srtp_get_stream s ssrc = map_of (ss_streams s) ssrc"

definition srtp_stream_list_insert :: "srtp_session \<Rightarrow> u32 \<Rightarrow> srtp_stream \<Rightarrow> srtp_session" where
  "srtp_stream_list_insert s ssrc st = s\<lparr>ss_streams := (ssrc, st) # ss_streams s\<rparr>"

definition put_stream :: "srtp_session \<Rightarrow> u32 \<Rightarrow> srtp_stream \<Rightarrow> srtp_session" where
  "put_stream s ssrc st = s\<lparr>ss_streams := AList.update ssrc st (ss_streams s)\<rparr>"

definition srtp_stream_clone :: "srtp_stream \<Rightarrow> srtp_stream" where
  "srtp_stream_clone t =
     t\<lparr>st_rdbx := srtp_rdbx_init (length (rdbx_bits (st_rdbx t))), st_shared := True\<rparr>"

definition srtp_stream_init :: "srtp_crypto \<Rightarrow> StreamPolicy \<Rightarrow> srtp_error + srtp_stream" where
  "srtp_stream_init C p =
     (if sp_window_size p \<noteq> 0 \<and> (sp_window_size p < 64 \<or> sp_window_size p \<ge> 0x8000)
      then Inl BAD_PARAM
      else Inr \<lparr> st_key = fst (srtp_kdf C (take 28 (sp_key p))),
                 st_salt = snd (srtp_kdf C (take 28 (sp_key p))),
                 st_rdbx = srtp_rdbx_init (if sp_window_size p = 0 then 128 else sp_window_size p),
                 st_direction = dir_unknown,
                 st_allow_repeat_tx = sp_allow_repeat_tx p,
                 st_shared = False \<rparr>)"

section \<open>Protecting and unprotecting one packet\<close>

definition srtp_protect_aead ::
  "srtp_crypto \<Rightarrow> bytes \<Rightarrow> srtp_stream \<Rightarrow> bytes \<Rightarrow> srtp_stream \<times> (srtp_error + bytes)" where
  "srtp_protect_aead C key st pkt =
     (let off = enc_start pkt;
          (est, delta) = srtp_rdbx_estimate_index (st_rdbx st) (header_seq pkt);
          iv = srtp_calc_aead_iv (st_salt st) (header_ssrc pkt) est;
          st' = st\<lparr>st_rdbx := srtp_rdbx_add_index (st_rdbx st) delta\<rparr>;
          out = take off pkt @ gcm_seal C key iv (take off pkt) (drop off pkt)
      in if length pkt < off then (st, Inl PARSE_ERR)
         else (case srtp_rdbx_check (st_rdbx st) delta of
                 rdbx_replay_old \<Rightarrow> (st, Inl REPLAY_OLD)
               | rdbx_replay_fail \<Rightarrow>
                   if st_allow_repeat_tx st then (st', Inr out) else (st, Inl REPLAY_FAIL)
               | rdbx_ok \<Rightarrow> (st', Inr out)))"

definition srtp_protect ::
  "srtp_crypto \<Rightarrow> srtp_session \<Rightarrow> bytes \<Rightarrow> srtp_session \<times> (srtp_error + bytes)" where
  "srtp_protect C s pkt =
     (case srtp_validate_rtp_header pkt of
        Some e \<Rightarrow> (s, Inl e)
      | None \<Rightarrow>
          (let ssrc = header_ssrc pkt;
               found = (case srtp_get_stream s ssrc of
                   Some st \<Rightarrow> Some (s, st)
                 | None \<Rightarrow> map_option (\<lambda>t.
                     let st = (srtp_stream_clone t)\<lparr>st_direction := dir_srtp_sender\<rparr>
                     in (srtp_stream_list_insert s ssrc st, st)) (ss_template s))
           in case found of
                None \<Rightarrow> (s, Inl NO_CTX)
              | Some (s', st) \<Rightarrow>
                  (let st1 = (if st_direction st = dir_unknown
                              then st\<lparr>st_direction := dir_srtp_sender\<rparr> else st);
                       (st2, res) = srtp_protect_aead C (stream_key s' st1) st1 pkt
                   in (put_stream s' ssrc st2, res))))"

text \<open>
  The length tests are on unsigned 32-bit integers: for a packet shorter than the tag the first
  bound wraps round to a large number and only the second test catches it.
\<close>

definition srtp_unprotect_aead ::
  "srtp_crypto \<Rightarrow> bytes \<Rightarrow> srtp_stream \<Rightarrow> nat \<Rightarrow> bytes \<Rightarrow> srtp_error + bytes" where
  "srtp_unprotect_aead C key st est pkt =
     (let off = enc_start pkt;
          iv = srtp_calc_aead_iv (st_salt st) (header_ssrc pkt) est
      in if off > unat (of_nat (length pkt) - 16 :: u32) then Inl PARSE_ERR
         else if length pkt - off < 16 then Inl CIPHER_FAIL
         else (case gcm_open C key iv (take off pkt) (drop off pkt) of
                 None \<Rightarrow> Inl AUTH_FAIL
               | Some pt \<Rightarrow> Inr (take off pkt @ pt)))"

definition srtp_unprotect ::
  "srtp_crypto \<Rightarrow> srtp_session \<Rightarrow> bytes \<Rightarrow> srtp_session \<times> (srtp_error + bytes)" where
  "srtp_unprotect C s pkt =
     (case srtp_validate_rtp_header pkt of
        Some e \<Rightarrow> (s, Inl e)
      | None \<Rightarrow>
          (let ssrc = header_ssrc pkt; seq = header_seq pkt in
           case srtp_get_stream s ssrc of
             None \<Rightarrow>
               (case ss_template s of
                  None \<Rightarrow> (s, Inl NO_CTX)
                | Some t \<Rightarrow>
                    (case srtp_unprotect_aead C (st_key t) t (unat seq) pkt of
                       Inl e \<Rightarrow> (s, Inl e)
                     | Inr out \<Rightarrow>
                         (let t' = (if st_direction t = dir_unknown
                                    then t\<lparr>st_direction := dir_srtp_receiver\<rparr> else t);
                              st = srtp_stream_clone t'
                          in (srtp_stream_list_insert (s\<lparr>ss_template := Some t'\<rparr>) ssrc
                                (st\<lparr>st_rdbx := srtp_rdbx_add_index (st_rdbx st) (int (unat seq))\<rparr>),
                              Inr out))))
           | Some st \<Rightarrow>
               (let (est, delta) = srtp_rdbx_estimate_index (st_rdbx st) seq in
                case srtp_rdbx_check (st_rdbx st) delta of
                  rdbx_replay_old \<Rightarrow> (s, Inl REPLAY_OLD)
                | rdbx_replay_fail \<Rightarrow> (s, Inl REPLAY_FAIL)
                | rdbx_ok \<Rightarrow>
                    (case srtp_unprotect_aead C (stream_key s st) st est pkt of
                       Inl e \<Rightarrow> (s, Inl e)
                     | Inr out \<Rightarrow>
                         (let st1 = (if st_direction st = dir_unknown
                                     then st\<lparr>st_direction := dir_srtp_receiver\<rparr> else st)
                          in (put_stream s ssrc
                                (st1\<lparr>st_rdbx := srtp_rdbx_add_index (st_rdbx st1) delta\<rparr>),
                              Inr out))))))"

definition srtp_inplace_rekey ::
  "srtp_session \<Rightarrow> u32 \<Rightarrow> bytes \<Rightarrow> bytes \<Rightarrow> srtp_session \<times> (srtp_error + unit)" where
  "srtp_inplace_rekey s ssrc key salt =
     (case srtp_get_stream s ssrc of
        None \<Rightarrow> (s, Inl BAD_PARAM)
      | Some st \<Rightarrow>
          ((if st_shared st
            then put_stream (s\<lparr>ss_template := map_option (\<lambda>t. t\<lparr>st_key := key\<rparr>) (ss_template s)\<rparr>)
                   ssrc (st\<lparr>st_salt := salt\<rparr>)
            else put_stream s ssrc (st\<lparr>st_key := key, st_salt := salt\<rparr>)), Inr ()))"

section \<open>The \<open>srtp\<close> crate\<close>

definition Session_new :: srtp_session where
  "Session_new = \<lparr> ss_streams = [], ss_template = None \<rparr>"

definition StreamPolicy_sys_policy :: "StreamPolicy \<Rightarrow> srtp_error + StreamPolicy" where
  "StreamPolicy_sys_policy p = (if length (sp_key p) < 28 then Inl BAD_PARAM else Inr p)"

definition Session_with_template ::
  "direction \<Rightarrow> srtp_crypto \<Rightarrow> StreamPolicy \<Rightarrow> srtp_error + srtp_session" where
  "Session_with_template dir C p =
     (case StreamPolicy_sys_policy p of
        Inl e \<Rightarrow> Inl e
      | Inr pol \<Rightarrow>
          (case srtp_stream_init C pol of
             Inl e \<Rightarrow> Inl e
           | Inr st \<Rightarrow> Inr (Session_new\<lparr>ss_template := Some (st\<lparr>st_direction := dir\<rparr>)\<rparr>)))"

definition Session_with_inbound_template :: "srtp_crypto \<Rightarrow> StreamPolicy \<Rightarrow> srtp_error + srtp_session" where
  "Session_with_inbound_template = Session_with_template dir_srtp_receiver"

definition Session_with_outbound_template :: "srtp_crypto \<Rightarrow> StreamPolicy \<Rightarrow> srtp_error + srtp_session" where
  "Session_with_outbound_template = Session_with_template dir_srtp_sender"

definition SessionRef_overwrite ::
  "('s \<Rightarrow> bytes \<Rightarrow> 's \<times> (srtp_error + bytes)) \<Rightarrow> 's \<Rightarrow> bytes \<Rightarrow> 's \<times> bytes \<times> (srtp_error + unit)" where
  "SessionRef_overwrite func s buf =
     (if length buf \<ge> 2 ^ 31 then (s, buf, Inl BAD_PARAM)
      else (case func s buf of
              (s', Inl e) \<Rightarrow> (s', [], Inl e)
            | (s', Inr out) \<Rightarrow> (s', out, Inr ())))"

definition SessionRef_protect ::
  "srtp_crypto \<Rightarrow> srtp_session \<Rightarrow> bytes \<Rightarrow> srtp_session \<times> bytes \<times> (srtp_error + unit)" where
  "SessionRef_protect C = SessionRef_overwrite (srtp_protect C)"

definition SessionRef_unprotect ::
  "srtp_crypto \<Rightarrow> srtp_session \<Rightarrow> bytes \<Rightarrow> srtp_session \<times> bytes \<times> (srtp_error + unit)" where
  "SessionRef_unprotect C = SessionRef_overwrite (srtp_unprotect C)"

definition SessionRef_add_stream ::
  "srtp_crypto \<Rightarrow> srtp_session \<Rightarrow> u32 \<Rightarrow> StreamPolicy \<Rightarrow> srtp_session \<times> (srtp_error + unit)" where
  "SessionRef_add_stream C s ssrc p =
     (case StreamPolicy_sys_policy p of
        Inl e \<Rightarrow> (s, Inl e)
      | Inr pol \<Rightarrow>
          (case srtp_stream_init C pol of
             Inl e \<Rightarrow> (s, Inl e)
           | Inr st \<Rightarrow> (srtp_stream_list_insert s ssrc st, Inr ())))"

definition SessionRef_inplace_rekey ::
  "srtp_session \<Rightarrow> u32 \<Rightarrow> bytes \<Rightarrow> bytes \<Rightarrow> srtp_session \<times> (srtp_error + unit)" where
  "SessionRef_inplace_rekey s ssrc key salt =
     (if length key \<noteq> 16 \<or> length salt \<noteq> 12 then (s, Inl BAD_PARAM)
      else srtp_inplace_rekey s ssrc key salt)"

definition create_sender_session :: "srtp_crypto \<Rightarrow> bytes \<Rightarrow> srtp_session outcome" where
  "create_sender_session C key_material =
     expect_ok (Session_with_outbound_template C
       \<lparr> sp_key = key_material, sp_window_size = 128, sp_allow_repeat_tx = False \<rparr>)"

definition create_receiver_session :: "srtp_crypto \<Rightarrow> bytes \<Rightarrow> srtp_session outcome" where
  "create_receiver_session C key_material =
     expect_ok (Session_with_inbound_template C
       \<lparr> sp_key = key_material, sp_window_size = 128, sp_allow_repeat_tx = False \<rparr>)"

section \<open>Headers without options\<close>

text \<open>SafeCast's own packets have neither a CSRC list nor a header extension.\<close>

definition plain_header :: "bytes \<Rightarrow> bool" where
  "plain_header pkt \<longleftrightarrow> 12 \<le> length pkt \<and> pkt ! 0 AND 0x1F = 0"

lemma plain_header_bits:
  assumes "b AND 0x1F = (0 :: u8)"
  shows "b AND 0x0F = 0" and "b AND 0x10 = 0"
proof -
  have "b AND 0x0F = (b AND 0x1F) AND 0x0F" "b AND 0x10 = (b AND 0x1F) AND 0x10"
    by (simp_all add: and.assoc)
  with assms show "b AND 0x0F = 0" "b AND 0x10 = 0" by simp_all
qed

lemma plain_header_enc_start: "plain_header pkt \<Longrightarrow> enc_start pkt = 12"
  by (simp add: plain_header_def enc_start_def srtp_get_rtp_hdr_len_def hdr_x_def plain_header_bits)

lemma plain_header_valid: "plain_header pkt \<Longrightarrow> srtp_validate_rtp_header pkt = None"
  by (simp add: plain_header_def srtp_validate_rtp_header_def srtp_get_rtp_hdr_len_def hdr_x_def
      plain_header_bits)

lemma header_fields_take:
  assumes "take 12 a = take 12 b"
  shows "header_seq a = header_seq b" "header_timestamp a = header_timestamp b"
    "header_ssrc a = header_ssrc b" "a ! 0 = b ! 0"
proof -
  have "a ! i = b ! i" if "i < 12" for i using assms that by (metis nth_take)
  then show "header_seq a = header_seq b" "header_timestamp a = header_timestamp b"
    "header_ssrc a = header_ssrc b" "a ! 0 = b ! 0"
    by (simp_all add: header_seq_def header_timestamp_def header_ssrc_def)
qed

lemma to_bytes_plain_header: "plain_header (RtpPacket_to_bytes p)"
  using rtp_header_fields(4) [of "0x80" "rtp_payload_type p AND 0x7F"]
  by (simp add: plain_header_def to_bytes_header)

section \<open>The initialisation vector\<close>

lemma map2_xor_cancel:
  "length xs = length zs \<Longrightarrow> length ys = length zs \<Longrightarrow>
     map2 (XOR) xs (zs :: bytes) = map2 (XOR) ys zs \<Longrightarrow> xs = ys"
proof (induction zs arbitrary: xs ys)
  case Nil
  then show ?case by simp
next
  case (Cons z zs)
  then obtain x xs' y ys' where xy: "xs = x # xs'" "ys = y # ys'"
    by (metis length_Suc_conv)
  with Cons.prems have "x XOR z = y XOR z" by simp
  then have "(x XOR z) XOR z = (y XOR z) XOR z" by (rule arg_cong)
  then have "x = y" by (simp add: xor.assoc)
  moreover have "xs' = ys'" by (rule Cons.IH) (use Cons.prems xy in simp_all)
  ultimately show ?case using xy by simp
qed

lemma length_calc_aead_iv [simp]: "length salt = 12 \<Longrightarrow> length (srtp_calc_aead_iv salt ssrc est) = 12"
  by (simp add: srtp_calc_aead_iv_def)

lemma u16_to_be_inj: "u16_to_be a = u16_to_be b \<longleftrightarrow> a = b"
  by (metis u16_from_to_be)

lemma calc_aead_iv_inj:
  assumes "length salt = 12" and "i < 2 ^ 48" and "j < 2 ^ 48"
    and "srtp_calc_aead_iv salt a i = srtp_calc_aead_iv salt b j"
  shows "a = b \<and> i = j"
proof -
  have "u32_to_be a @ u32_to_be (of_nat (i div 65536)) @ u16_to_be (of_nat i) =
      u32_to_be b @ u32_to_be (of_nat (j div 65536)) @ u16_to_be (of_nat j)"
    using map2_xor_cancel [OF _ _ assms(4) [unfolded srtp_calc_aead_iv_def]] assms(1) by simp
  then have ab: "a = b" and hi: "(of_nat (i div 65536) :: u32) = of_nat (j div 65536)"
    and lo: "(of_nat i :: u16) = of_nat j"
    by (simp_all add: u16_to_be_inj)
  have "unat (of_nat (i div 65536) :: u32) = unat (of_nat (j div 65536) :: u32)" using hi by simp
  then have "i div 65536 = j div 65536"
    using assms(2,3) by (simp add: unat_of_nat_u32 less_mult_imp_div_less)
  moreover have "unat (of_nat i :: u16) = unat (of_nat j :: u16)" using lo by simp
  then have "i mod 65536 = j mod 65536" by (simp add: unat_of_nat)
  ultimately have "i = j" by (metis div_mod_decomp)
  with ab show ?thesis by simp
qed

section \<open>What the code relies on of AES-GCM\<close>

text \<open>
  Opening what was sealed under the same key, IV and header returns the plaintext; the tag is 16
  bytes; an opened payload is its ciphertext without the tag; the key derivation returns a key
  and a salt of the lengths the cipher needs.
\<close>

definition crypto_sound :: "srtp_crypto \<Rightarrow> bool" where
  "crypto_sound C \<longleftrightarrow>
     (\<forall>key iv aad pt. length key = 16 \<longrightarrow> length iv = 12 \<longrightarrow>
        gcm_open C key iv aad (gcm_seal C key iv aad pt) = Some pt \<and>
        length (gcm_seal C key iv aad pt) = length pt + 16) \<and>
     (\<forall>key iv aad ct pt. gcm_open C key iv aad ct = Some pt \<longrightarrow> length ct = length pt + 16) \<and>
     (\<forall>m. length m = 28 \<longrightarrow> length (fst (srtp_kdf C m)) = 16 \<and> length (snd (srtp_kdf C m)) = 12)"

lemma crypto_soundD:
  assumes "crypto_sound C"
  shows "length key = 16 \<Longrightarrow> length iv = 12 \<Longrightarrow> gcm_open C key iv aad (gcm_seal C key iv aad pt) = Some pt"
    and "length key = 16 \<Longrightarrow> length iv = 12 \<Longrightarrow> length (gcm_seal C key iv aad pt) = length pt + 16"
    and "gcm_open C key iv aad ct = Some pt \<Longrightarrow> length ct = length pt + 16"
    and "length m = 28 \<Longrightarrow> length (fst (srtp_kdf C m)) = 16"
    and "length m = 28 \<Longrightarrow> length (snd (srtp_kdf C m)) = 12"
  using assms unfolding crypto_sound_def by blast+

text \<open>A sealed packet: the header in the clear, then ciphertext and tag.\<close>

definition seal_packet :: "srtp_crypto \<Rightarrow> bytes \<Rightarrow> bytes \<Rightarrow> nat \<Rightarrow> bytes \<Rightarrow> bytes" where
  "seal_packet C key salt i pkt =
     take 12 pkt @ gcm_seal C key (srtp_calc_aead_iv salt (header_ssrc pkt) i) (take 12 pkt) (drop 12 pkt)"

lemma seal_packet_header:
  assumes "plain_header pkt"
  shows "take 12 (seal_packet C key salt i pkt) = take 12 pkt"
    and "plain_header (seal_packet C key salt i pkt)"
    and "header_seq (seal_packet C key salt i pkt) = header_seq pkt"
    and "header_timestamp (seal_packet C key salt i pkt) = header_timestamp pkt"
    and "header_ssrc (seal_packet C key salt i pkt) = header_ssrc pkt"
proof -
  show t: "take 12 (seal_packet C key salt i pkt) = take 12 pkt"
    using assms by (simp add: seal_packet_def plain_header_def)
  show "header_seq (seal_packet C key salt i pkt) = header_seq pkt"
    "header_timestamp (seal_packet C key salt i pkt) = header_timestamp pkt"
    "header_ssrc (seal_packet C key salt i pkt) = header_ssrc pkt"
    using header_fields_take [OF t] by simp_all
  show "plain_header (seal_packet C key salt i pkt)"
    using header_fields_take(4) [OF t] assms by (simp add: plain_header_def seal_packet_def)
qed

lemma length_seal_packet:
  assumes "crypto_sound C" "length key = 16" "length salt = 12" "plain_header pkt"
  shows "length (seal_packet C key salt i pkt) = length pkt + 16"
  using assms by (simp add: seal_packet_def crypto_soundD(2) plain_header_def)

section \<open>Sessions with one registered stream\<close>

text \<open>
  Both rekeying ends use a session with exactly one stream, registered for its SSRC. This is that
  session as a function of the installed key and salt and of the replay database.
\<close>

definition single_stream :: "u32 \<Rightarrow> direction \<Rightarrow> bytes \<Rightarrow> bytes \<Rightarrow> rdbx \<Rightarrow> srtp_session" where
  "single_stream ssrc d key salt r =
     \<lparr> ss_streams = [(ssrc, \<lparr> st_key = key, st_salt = salt, st_rdbx = r, st_direction = d,
                            st_allow_repeat_tx = False, st_shared = False \<rparr>)],
       ss_template = None \<rparr>"

definition sets_direction :: "direction \<Rightarrow> direction \<Rightarrow> direction" where
  "sets_direction to d = (if d = dir_unknown then to else d)"

lemma rdbx_step:
  assumes "srtp_rdbx_estimate_index r q = (est, delta)"
  shows "srtp_rdbx_check r delta = rdbx_ok \<longleftrightarrow> \<not> rdbx_blocked r (rdbx_pos r q)"
    and "srtp_rdbx_add_index r delta = rdbx_add r (rdbx_pos r q)"
proof -
  have "0 \<le> int (rdbx_index r) + delta" using rdbx_estimate_eq(1) [OF assms] by linarith
  then have "int (rdbx_pos r q) - int (rdbx_index r) = delta"
    by (simp add: rdbx_pos_def assms)
  then show "srtp_rdbx_check r delta = rdbx_ok \<longleftrightarrow> \<not> rdbx_blocked r (rdbx_pos r q)"
    and "srtp_rdbx_add_index r delta = rdbx_add r (rdbx_pos r q)"
    by (simp_all add: rdbx_blocked_def rdbx_add_def)
qed

definition rdbx_est :: "rdbx \<Rightarrow> u16 \<Rightarrow> nat" where
  "rdbx_est r q = fst (srtp_rdbx_estimate_index r q)"

definition replay_error :: "rdbx \<Rightarrow> u16 \<Rightarrow> srtp_error" where
  "replay_error r q =
     (if srtp_rdbx_check r (snd (srtp_rdbx_estimate_index r q)) = rdbx_replay_old
      then REPLAY_OLD else REPLAY_FAIL)"

lemma rdbx_check_cases:
  "(case srtp_rdbx_check r (snd (srtp_rdbx_estimate_index r q)) of
      rdbx_replay_old \<Rightarrow> a REPLAY_OLD | rdbx_replay_fail \<Rightarrow> a REPLAY_FAIL | rdbx_ok \<Rightarrow> b) =
   (if rdbx_blocked r (rdbx_pos r q) then a (replay_error r q) else b)"
  using rdbx_step(1) [of r q "rdbx_est r q" "snd (srtp_rdbx_estimate_index r q)"]
  by (auto simp: rdbx_est_def replay_error_def split: rdbx_status.splits)

lemma put_single_stream:
  "put_stream (single_stream ssrc d key salt r) ssrc
     \<lparr> st_key = key', st_salt = salt', st_rdbx = r', st_direction = d',
       st_allow_repeat_tx = False, st_shared = False \<rparr> = single_stream ssrc d' key' salt' r'"
  by (simp add: put_stream_def single_stream_def)

lemma single_stream_rekey:
  "SessionRef_inplace_rekey (single_stream ssrc d key salt r) ssrc key' salt' =
     (if length key' = 16 \<and> length salt' = 12
      then (single_stream ssrc d key' salt' r, Inr ())
      else (single_stream ssrc d key salt r, Inl BAD_PARAM))"
  by (simp add: SessionRef_inplace_rekey_def srtp_inplace_rekey_def srtp_get_stream_def
      single_stream_def put_stream_def)

lemma single_stream_protect:
  assumes "plain_header pkt" and "length pkt < 2 ^ 31"
  shows "SessionRef_protect C (single_stream ssrc d key salt r) pkt =
    (if header_ssrc pkt \<noteq> ssrc then (single_stream ssrc d key salt r, [], Inl NO_CTX)
     else if rdbx_blocked r (rdbx_pos r (header_seq pkt))
     then (single_stream ssrc (sets_direction dir_srtp_sender d) key salt r, [],
           Inl (replay_error r (header_seq pkt)))
     else (single_stream ssrc (sets_direction dir_srtp_sender d) key salt
             (rdbx_add r (rdbx_pos r (header_seq pkt))),
           seal_packet C key salt (rdbx_est r (header_seq pkt)) pkt, Inr ()))"
proof -
  obtain est delta where e: "srtp_rdbx_estimate_index r (header_seq pkt) = (est, delta)"
    by (cases "srtp_rdbx_estimate_index r (header_seq pkt)")
  have v: "srtp_validate_rtp_header pkt = None" and o: "enc_start pkt = 12" and l: "\<not> length pkt < 12"
    using assms(1) by (simp_all add: plain_header_valid plain_header_enc_start plain_header_def)
  show ?thesis
    using assms(2) e rdbx_step [OF e]
    by (cases "srtp_rdbx_check r delta")
      (auto simp: SessionRef_protect_def SessionRef_overwrite_def srtp_protect_def v o l Let_def
        srtp_get_stream_def single_stream_def srtp_protect_aead_def stream_key_def put_stream_def
        sets_direction_def seal_packet_def rdbx_est_def replay_error_def)
qed

text \<open>The general receive path of such a session, and its special case for a packet without
  header options that is long enough to carry a tag.\<close>

lemma single_stream_unprotect_any:
  assumes "srtp_validate_rtp_header pkt = None" and "length pkt < 2 ^ 31"
  shows "SessionRef_unprotect C (single_stream ssrc d key salt r) pkt =
    (if header_ssrc pkt \<noteq> ssrc then (single_stream ssrc d key salt r, [], Inl NO_CTX)
     else if rdbx_blocked r (rdbx_pos r (header_seq pkt))
     then (single_stream ssrc d key salt r, [], Inl (replay_error r (header_seq pkt)))
     else case srtp_unprotect_aead C key
         \<lparr> st_key = key, st_salt = salt, st_rdbx = r, st_direction = d,
           st_allow_repeat_tx = False, st_shared = False \<rparr> (rdbx_est r (header_seq pkt)) pkt of
       Inl e \<Rightarrow> (single_stream ssrc d key salt r, [], Inl e)
     | Inr out \<Rightarrow> (single_stream ssrc (sets_direction dir_srtp_receiver d) key salt
             (rdbx_add r (rdbx_pos r (header_seq pkt))), out, Inr ()))"
proof -
  obtain est delta where e: "srtp_rdbx_estimate_index r (header_seq pkt) = (est, delta)"
    by (cases "srtp_rdbx_estimate_index r (header_seq pkt)")
  show ?thesis
    using assms(2) e rdbx_step [OF e]
    by (cases "srtp_rdbx_check r delta")
      (auto simp: SessionRef_unprotect_def SessionRef_overwrite_def srtp_unprotect_def assms(1) Let_def
        srtp_get_stream_def single_stream_def stream_key_def put_stream_def
        sets_direction_def rdbx_est_def replay_error_def split: sum.splits)
qed

lemma unprotect_aead_salt:
  "st_salt st = st_salt st' \<Longrightarrow> srtp_unprotect_aead C key st est pkt = srtp_unprotect_aead C key st' est pkt"
  by (simp add: srtp_unprotect_aead_def)

lemma unprotect_aead_plain:
  assumes "plain_header pkt" and "28 \<le> length pkt" and "length pkt < 2 ^ 31"
  shows "srtp_unprotect_aead C key st est pkt =
    (case gcm_open C key (srtp_calc_aead_iv (st_salt st) (header_ssrc pkt) est) (take 12 pkt) (drop 12 pkt) of
       None \<Rightarrow> Inl AUTH_FAIL | Some pt \<Rightarrow> Inr (take 12 pkt @ pt))"
proof -
  have "(of_nat (length pkt) - 16 :: u32) = of_nat (length pkt - 16)"
    using assms(2) by (simp add: of_nat_diff)
  then have "unat (of_nat (length pkt) - 16 :: u32) = length pkt - 16"
    using assms(3) by (simp add: unat_of_nat_u32)
  moreover have "\<not> length pkt - 16 < 12" "\<not> length pkt - 12 < 16" using assms(2) by linarith+
  ultimately show ?thesis
    by (simp add: srtp_unprotect_aead_def plain_header_enc_start [OF assms(1)])
qed

lemma single_stream_unprotect:
  assumes "plain_header pkt" and "28 \<le> length pkt" and "length pkt < 2 ^ 31"
  shows "SessionRef_unprotect C (single_stream ssrc d key salt r) pkt =
    (if header_ssrc pkt \<noteq> ssrc then (single_stream ssrc d key salt r, [], Inl NO_CTX)
     else if rdbx_blocked r (rdbx_pos r (header_seq pkt))
     then (single_stream ssrc d key salt r, [], Inl (replay_error r (header_seq pkt)))
     else case gcm_open C key (srtp_calc_aead_iv salt ssrc (rdbx_est r (header_seq pkt)))
            (take 12 pkt) (drop 12 pkt) of
       None \<Rightarrow> (single_stream ssrc d key salt r, [], Inl AUTH_FAIL)
     | Some pt \<Rightarrow> (single_stream ssrc (sets_direction dir_srtp_receiver d) key salt
             (rdbx_add r (rdbx_pos r (header_seq pkt))), take 12 pkt @ pt, Inr ()))"
  using single_stream_unprotect_any [OF plain_header_valid [OF assms(1)] assms(3)]
  by (simp add: unprotect_aead_plain [OF assms] split: option.splits)

text \<open>A packet sealed at the position the receiver estimates opens to the original packet.\<close>

lemma single_stream_unprotect_seal:
  assumes C: "crypto_sound C" and l: "length key = 16" "length salt = 12"
    and p: "plain_header pkt" "length pkt + 16 < 2 ^ 31"
    and i: "rdbx_est r (header_seq pkt) = i" and f: "\<not> rdbx_blocked r (rdbx_pos r (header_seq pkt))"
  shows "SessionRef_unprotect C (single_stream (header_ssrc pkt) d key salt r) (seal_packet C key salt i pkt) =
    (single_stream (header_ssrc pkt) (sets_direction dir_srtp_receiver d) key salt
       (rdbx_add r (rdbx_pos r (header_seq pkt))), pkt, Inr ())"
proof -
  define S where "S = seal_packet C key salt i pkt"
  have len: "length S = length pkt + 16" using length_seal_packet [OF C l p(1)] by (simp add: S_def)
  note h = seal_packet_header [OF p(1), of C key salt i, folded S_def]
  have d: "drop 12 S = gcm_seal C key (srtp_calc_aead_iv salt (header_ssrc pkt) i) (take 12 pkt) (drop 12 pkt)"
    using p(1) by (simp add: S_def seal_packet_def plain_header_def)
  have "gcm_open C key (srtp_calc_aead_iv salt (header_ssrc pkt) i) (take 12 S) (drop 12 S) = Some (drop 12 pkt)"
    unfolding h(1) d by (rule crypto_soundD(1) [OF C l(1)]) (simp add: l)
  then show ?thesis
    using single_stream_unprotect [OF h(2), of C "header_ssrc pkt" d key salt r] len p f
    unfolding S_def [symmetric] by (simp add: h(1,3,5) i plain_header_def)
qed

section \<open>Replay protection across rekeys\<close>

text \<open>
  A session is driven by key installations and packets in any order. \<open>session_run\<close> collects what
  a step reports for each packet that went through.
\<close>

datatype session_op = Rekey bytes bytes | Packet bytes

fun session_run :: "('s \<Rightarrow> 'op \<Rightarrow> 's \<times> 'o option) \<Rightarrow> 's \<Rightarrow> 'op list \<Rightarrow> 'o list" where
  "session_run step s [] = []"
| "session_run step s (x # xs) =
     (case step s x of
        (s', None) \<Rightarrow> session_run step s' xs
      | (s', Some j) \<Rightarrow> j # session_run step s' xs)"

locale media_session = replay_db pos blocked add inv
  for pos :: "'r \<Rightarrow> 'q \<Rightarrow> nat" and blocked :: "'r \<Rightarrow> nat \<Rightarrow> bool"
    and add :: "'r \<Rightarrow> nat \<Rightarrow> 'r" and inv :: "'r \<Rightarrow> bool" +
  fixes step :: "'s \<Rightarrow> 'op \<Rightarrow> 's \<times> nat option"
    and rep :: "'s \<Rightarrow> 'r"
    and good :: "'s \<Rightarrow> bool"
  assumes step_None: "good s \<Longrightarrow> step s x = (s', None) \<Longrightarrow> good s' \<and> rep s' = rep s"
    and step_Some: "good s \<Longrightarrow> step s x = (s', Some j) \<Longrightarrow>
      good s' \<and> (\<exists>q. j = pos (rep s) q) \<and> \<not> blocked (rep s) j \<and> rep s' = add (rep s) j"
begin

lemma session_run_fresh:
  "good s \<Longrightarrow> inv (rep s) \<Longrightarrow>
     distinct (session_run step s xs) \<and> (\<forall>j\<in>set (session_run step s xs). \<not> blocked (rep s) j)"
proof (induction xs arbitrary: s)
  case Nil
  then show ?case by simp
next
  case (Cons x xs)
  obtain s' out where st: "step s x = (s', out)" by (cases "step s x")
  show ?case
  proof (cases out)
    case None
    then have "good s'" "rep s' = rep s" using step_None [OF Cons.prems(1)] st by blast+
    then show ?thesis using Cons.IH [of s'] Cons.prems(2) st None by simp
  next
    case (Some j)
    then obtain q where g: "good s'" and j: "j = pos (rep s) q" "\<not> blocked (rep s) j"
      and r: "rep s' = add (rep s) j"
      using step_Some [OF Cons.prems(1)] st by blast
    have "inv (rep s')" unfolding r j(1) by (rule inv_add) (use Cons.prems(2) j in simp_all)
    then have ih: "distinct (session_run step s' xs)"
      "\<forall>i\<in>set (session_run step s' xs). \<not> blocked (rep s') i"
      using Cons.IH [OF g] by simp_all
    have "blocked (rep s') j" using blocked_add [OF Cons.prems(2)] j r by simp
    moreover have "blocked (rep s') i" if "blocked (rep s) i" for i
      using blocked_mono [OF Cons.prems(2), of q i] j r that by simp
    ultimately show ?thesis using ih st Some j by auto
  qed
qed

end

definition session_rdbx :: "srtp_session \<Rightarrow> rdbx" where
  "session_rdbx s = (case ss_streams s of (_, st) # _ \<Rightarrow> st_rdbx st | [] \<Rightarrow> srtp_rdbx_init 128)"

definition is_single_stream :: "u32 \<Rightarrow> srtp_session \<Rightarrow> bool" where
  "is_single_stream ssrc s \<longleftrightarrow> (\<exists>d key salt r. s = single_stream ssrc d key salt r)"

definition session_step ::
  "(srtp_session \<Rightarrow> bytes \<Rightarrow> srtp_session \<times> bytes \<times> (srtp_error + unit)) \<Rightarrow> (rdbx \<Rightarrow> u16 \<Rightarrow> nat) \<Rightarrow>
     u32 \<Rightarrow> srtp_session \<Rightarrow> session_op \<Rightarrow> srtp_session \<times> nat option" where
  "session_step f report ssrc s x =
     (case x of
        Rekey key salt \<Rightarrow> (fst (SessionRef_inplace_rekey s ssrc key salt), None)
      | Packet pkt \<Rightarrow>
          (case f s pkt of
             (s', _, Inl e) \<Rightarrow> (s', None)
           | (s', _, Inr _) \<Rightarrow> (s', Some (report (session_rdbx s) (header_seq pkt)))))"

lemma session_rdbx_single [simp]: "session_rdbx (single_stream ssrc d key salt r) = r"
  by (simp add: session_rdbx_def single_stream_def)

lemma is_single_streamI [simp, intro]: "is_single_stream ssrc (single_stream ssrc d key salt r)"
  by (auto simp: is_single_stream_def)

lemma is_single_streamE:
  assumes "is_single_stream ssrc s"
  obtains d key salt r where "s = single_stream ssrc d key salt r"
  using assms by (auto simp: is_single_stream_def)

lemma session_step_rekey:
  assumes "is_single_stream ssrc s"
    and "session_step f report ssrc s (Rekey key salt) = (s', out)"
  shows "out = None \<and> is_single_stream ssrc s' \<and> session_rdbx s' = session_rdbx s"
  using assms by (elim is_single_streamE)
    (auto simp: session_step_def single_stream_rekey split: if_splits)

lemma unprotect_single_cases:
  assumes "SessionRef_unprotect C (single_stream ssrc d key salt r) pkt = (s', out, res)"
  shows "(\<exists>e. res = Inl e \<and> s' = single_stream ssrc d key salt r) \<or>
    (res = Inr () \<and> header_ssrc pkt = ssrc \<and> \<not> rdbx_blocked r (rdbx_pos r (header_seq pkt)) \<and>
     s' = single_stream ssrc (sets_direction dir_srtp_receiver d) key salt
       (rdbx_add r (rdbx_pos r (header_seq pkt))))"
proof (cases "srtp_validate_rtp_header pkt = None \<and> length pkt < 2 ^ 31")
  case True
  then show ?thesis
    using assms single_stream_unprotect_any [of pkt C ssrc d key salt r]
    by (auto split: if_splits sum.splits)
next
  case False
  then show ?thesis using assms
    by (auto simp: SessionRef_unprotect_def SessionRef_overwrite_def srtp_unprotect_def
        split: if_splits)
qed

lemma unprotect_opened:
  assumes "SessionRef_unprotect C (single_stream ssrc d key salt r) pkt = (s', out, Inr ())"
  obtains pt where
    "gcm_open C key (srtp_calc_aead_iv salt ssrc (rdbx_est r (header_seq pkt)))
       (take (enc_start pkt) pkt) (drop (enc_start pkt) pkt) = Some pt"
    and "out = take (enc_start pkt) pkt @ pt"
proof (cases "srtp_validate_rtp_header pkt = None \<and> length pkt < 2 ^ 31")
  case True
  then show ?thesis
    using assms single_stream_unprotect_any [of pkt C ssrc d key salt r]
    by (auto simp: srtp_unprotect_aead_def Let_def split: if_splits sum.splits option.splits intro: that)
next
  case False
  then show ?thesis using assms
    by (auto simp: SessionRef_unprotect_def SessionRef_overwrite_def srtp_unprotect_def split: if_splits)
qed

lemma unprotect_step_single:
  assumes "is_single_stream ssrc s"
    and "session_step (SessionRef_unprotect C) rdbx_pos ssrc s x = (s', out)"
  shows "is_single_stream ssrc s' \<and>
    (case out of
       None \<Rightarrow> session_rdbx s' = session_rdbx s
     | Some j \<Rightarrow> (\<exists>q. j = rdbx_pos (session_rdbx s) q) \<and> \<not> rdbx_blocked (session_rdbx s) j \<and>
         session_rdbx s' = rdbx_add (session_rdbx s) j)"
proof (cases x)
  case (Rekey key salt)
  then show ?thesis using session_step_rekey assms by (fastforce split: option.splits)
next
  case (Packet pkt)
  obtain d key salt r where s: "s = single_stream ssrc d key salt r"
    using assms(1) by (rule is_single_streamE)
  obtain s1 b res where u: "SessionRef_unprotect C s pkt = (s1, b, res)"
    by (cases "SessionRef_unprotect C s pkt") auto
  show ?thesis
    using unprotect_single_cases [OF u [unfolded s]] assms(2) u
    by (auto simp: session_step_def Packet s) blast
qed

interpretation receive_side: media_session rdbx_pos rdbx_blocked rdbx_add rdbx_wf
  "session_step (SessionRef_unprotect C) rdbx_pos ssrc" session_rdbx "is_single_stream ssrc" for C ssrc
  by unfold_locales (auto dest: unprotect_step_single)

text \<open>The sending side: the same contract for \<open>protect\<close>.\<close>

lemma protect_single_cases:
  assumes "SessionRef_protect C (single_stream ssrc d key salt r) pkt = (s', out, res)"
  shows "\<exists>d'. (\<exists>e. res = Inl e \<and> s' = single_stream ssrc d' key salt r) \<or>
    (res = Inr () \<and> header_ssrc pkt = ssrc \<and> \<not> rdbx_blocked r (rdbx_pos r (header_seq pkt)) \<and>
     s' = single_stream ssrc d' key salt (rdbx_add r (rdbx_pos r (header_seq pkt))) \<and>
     out = take (enc_start pkt) pkt @ gcm_seal C key
       (srtp_calc_aead_iv salt ssrc (rdbx_est r (header_seq pkt))) (take (enc_start pkt) pkt) (drop (enc_start pkt) pkt))"
proof -
  obtain est delta where e: "srtp_rdbx_estimate_index r (header_seq pkt) = (est, delta)"
    by (cases "srtp_rdbx_estimate_index r (header_seq pkt)")
  show ?thesis
    using assms e rdbx_step [OF e]
    by (cases "srtp_rdbx_check r delta")
      (auto simp: SessionRef_protect_def SessionRef_overwrite_def srtp_protect_def Let_def
        srtp_get_stream_def single_stream_def srtp_protect_aead_def stream_key_def put_stream_def
        rdbx_est_def split: if_splits option.splits)
qed

lemma protect_step_single:
  assumes "is_single_stream ssrc s"
    and "session_step (SessionRef_protect C) rdbx_pos ssrc s x = (s', out)"
  shows "is_single_stream ssrc s' \<and>
    (case out of
       None \<Rightarrow> session_rdbx s' = session_rdbx s
     | Some j \<Rightarrow> (\<exists>q. j = rdbx_pos (session_rdbx s) q) \<and> \<not> rdbx_blocked (session_rdbx s) j \<and>
         session_rdbx s' = rdbx_add (session_rdbx s) j)"
proof (cases x)
  case (Rekey key salt)
  then show ?thesis using session_step_rekey assms by (fastforce split: option.splits)
next
  case (Packet pkt)
  obtain d key salt r where s: "s = single_stream ssrc d key salt r"
    using assms(1) by (rule is_single_streamE)
  obtain s1 b res where u: "SessionRef_protect C s pkt = (s1, b, res)"
    by (cases "SessionRef_protect C s pkt") auto
  show ?thesis
    using protect_single_cases [OF u [unfolded s]] assms(2) u
    by (auto simp: session_step_def Packet s) blast
qed

interpretation send_side: media_session rdbx_pos rdbx_blocked rdbx_add rdbx_wf
  "session_step (SessionRef_protect C) rdbx_pos ssrc" session_rdbx "is_single_stream ssrc" for C ssrc
  by unfold_locales (auto dest: protect_step_single)

text \<open>
  Below 2^48 the index libsrtp puts into the IV is the position itself.
\<close>

lemma rdbx_est_pos:
  assumes "rdbx_pos r q < 2 ^ 48" and "rdbx_index r < 2 ^ 48"
  shows "rdbx_est r q = rdbx_pos r q"
proof -
  obtain guess delta where e: "srtp_rdbx_estimate_index r q = (guess, delta)"
    by (cases "srtp_rdbx_estimate_index r q")
  have "rollover (rdbx_index r) (unat q) < 2 ^ 32" using assms(1) by (simp add: rdbx_pos_eq)
  then show ?thesis
    using rdbx_estimate_eq(2) [OF e _ assms(2)] by (simp add: rdbx_est_def e rdbx_pos_eq)
qed

lemma protect_run_est:
  assumes "is_single_stream ssrc s" and "rdbx_wf (session_rdbx s)" and "rdbx_index (session_rdbx s) < 2 ^ 48"
    and "\<forall>j\<in>set (session_run (session_step (SessionRef_protect C) rdbx_pos ssrc) s xs). j < 2 ^ 48"
  shows "session_run (session_step (SessionRef_protect C) rdbx_est ssrc) s xs =
    session_run (session_step (SessionRef_protect C) rdbx_pos ssrc) s xs"
  using assms
proof (induction xs arbitrary: s)
  case Nil
  then show ?case by simp
next
  case (Cons x xs)
  define P E where "P = session_step (SessionRef_protect C) rdbx_pos ssrc"
    and "E = session_step (SessionRef_protect C) rdbx_est ssrc"
  obtain s' out where p: "P s x = (s', out)" by (cases "P s x")
  note inv = protect_step_single [OF Cons.prems(1) p [unfolded P_def]]
  have run: "session_run P s (x # xs) = (case out of None \<Rightarrow> [] | Some j \<Rightarrow> [j]) @ session_run P s' xs"
    by (simp add: p split: option.splits)
  have small: "\<forall>j\<in>set ((case out of None \<Rightarrow> [] | Some j \<Rightarrow> [j]) @ session_run P s' xs). j < 2 ^ 48"
    using Cons.prems(4) unfolding P_def [symmetric] run .
  have bounds: "rdbx_wf (session_rdbx s') \<and> rdbx_index (session_rdbx s') < 2 ^ 48"
    using inv Cons.prems(2,3) small rdbx_add_wf [OF Cons.prems(2) rdbx_pos_less]
    by (auto split: option.splits)
  have ih: "session_run E s' xs = session_run P s' xs"
    unfolding E_def P_def
    by (rule Cons.IH) (use inv bounds small in \<open>simp_all add: P_def\<close>)
  have "out = Some j \<Longrightarrow> j < 2 ^ 48" for j
    using small by simp
  then have "E s x = (s', out)"
    using p Cons.prems(3) rdbx_est_pos
    by (auto simp: P_def E_def session_step_def split: session_op.splits prod.splits sum.splits)
  then show ?case using ih p unfolding P_def [symmetric] E_def [symmetric]
    by (simp split: option.splits)
qed

section \<open>Packets too short to carry a tag\<close>

lemma unprotect_aead_short:
  assumes "plain_header pkt" and "length pkt < 28"
  shows "srtp_unprotect_aead C key st est pkt = Inl (if length pkt < 16 then CIPHER_FAIL else PARSE_ERR)"
proof (cases "length pkt < 16")
  case True
  have "12 \<le> length pkt" using assms(1) by (simp add: plain_header_def)
  with True have "length pkt \<in> {12, 13, 14, 15}" by auto
  then have "12 \<le> unat (of_nat (length pkt) - 16 :: u32)"
    by (auto simp: unsigned_minus_1_eq_mask mask_eq_exp_minus_1)
  moreover have "length pkt - 12 < 16" using True by linarith
  ultimately show ?thesis using True
    by (simp add: srtp_unprotect_aead_def plain_header_enc_start [OF assms(1)])
next
  case False
  then have "(of_nat (length pkt) - 16 :: u32) = of_nat (length pkt - 16)" by (simp add: of_nat_diff)
  then have "unat (of_nat (length pkt) - 16 :: u32) = length pkt - 16"
    using assms(2) by (simp add: unat_of_nat_u32)
  then have "12 > unat (of_nat (length pkt) - 16 :: u32)" using assms(2) False by linarith
  then show ?thesis using False
    by (simp add: srtp_unprotect_aead_def plain_header_enc_start [OF assms(1)])
qed

section \<open>An example cipher\<close>

text \<open>For examples: no encryption, and the key itself as the tag, so that opening under another key
  fails.\<close>

definition sample_crypto :: srtp_crypto where
  "sample_crypto =
     \<lparr> gcm_seal = (\<lambda>key iv aad pt. pt @ take 16 (key @ replicate 16 0)),
       gcm_open = (\<lambda>key iv aad ct.
         if 16 \<le> length ct \<and> drop (length ct - 16) ct = take 16 (key @ replicate 16 0)
         then Some (take (length ct - 16) ct) else None),
       srtp_kdf = (\<lambda>m. (take 16 m, drop 16 m)) \<rparr>"

lemma sample_crypto_sound: "crypto_sound sample_crypto"
  by (auto simp: crypto_sound_def sample_crypto_def)

section \<open>Properties\<close>


definition sample_packet :: "u16 \<Rightarrow> u32 \<Rightarrow> bytes" where
  "sample_packet seq ts =
     RtpPacket_to_bytes \<lparr> rtp_payload_type = 96, rtp_sequence_number = seq, rtp_timestamp = ts, rtp_ssrc = 9,
       rtp_payload = [1, 2, 3] \<rparr>"

lemma sample_packet_facts:
  "plain_header (sample_packet seq ts)" "header_seq (sample_packet seq ts) = seq"
  "header_timestamp (sample_packet seq ts) = ts" "header_ssrc (sample_packet seq ts) = 9"
  "length (sample_packet seq ts) = 15"
proof -
  show "plain_header (sample_packet seq ts)" unfolding sample_packet_def by (rule to_bytes_plain_header)
  show "header_seq (sample_packet seq ts) = seq" "header_timestamp (sample_packet seq ts) = ts"
    "header_ssrc (sample_packet seq ts) = 9" "length (sample_packet seq ts) = 15"
    by (simp_all add: sample_packet_def to_bytes_header rtp_header_fields)
qed

lemma rdbx_pos_first: "rdbx_pos (srtp_rdbx_init ws) q = unat q"
  by (simp add: rdbx_pos_eq rollover_def srtp_rdbx_init_def)


text \<open>
  Replay protection across rekeys at the session layer: over any sequence of key
  installations and received byte strings, no two packets a receiving stream accepts occupy the
  same position, and none a position the stream had already accepted or moved past.
\<close>

lemma unprotect_positions_distinct:
  assumes "rdbx_wf r"
  shows "let js = session_run (session_step (SessionRef_unprotect C) rdbx_pos ssrc) (single_stream ssrc d key salt r) ops
    in distinct js \<and> (\<forall>j\<in>set js. \<not> rdbx_blocked r j)"
  using receive_side.session_run_fresh [of ssrc "single_stream ssrc d key salt r" C ops] assms by (simp add: Let_def)

text \<open>
  Protect and unprotect are inverse: when the two ends hold the same key and salt, the
  receiver estimates the position the sender used, and neither end has the position in its
  replay database, the receiver gets back exactly the packet that was sent, and both ends record
  the position.
\<close>

lemma srtp_session_roundtrip:
  assumes "crypto_sound C" and "length key = 16" and "length salt = 12"
    and "plain_header pkt" and "length pkt + 16 < 2 ^ 31"
    and "rdbx_est r' (header_seq pkt) = rdbx_est r (header_seq pkt)"
    and "\<not> rdbx_blocked r (rdbx_pos r (header_seq pkt))" and "\<not> rdbx_blocked r' (rdbx_pos r' (header_seq pkt))"
  shows "\<exists>d1 d2 wire. SessionRef_protect C (single_stream (header_ssrc pkt) d key salt r) pkt =
      (single_stream (header_ssrc pkt) d1 key salt (rdbx_add r (rdbx_pos r (header_seq pkt))), wire, Inr ()) \<and>
    length wire = length pkt + 16 \<and>
    SessionRef_unprotect C (single_stream (header_ssrc pkt) d' key salt r') wire =
      (single_stream (header_ssrc pkt) d2 key salt (rdbx_add r' (rdbx_pos r' (header_seq pkt))), pkt, Inr ())"
  using single_stream_protect [OF assms(4), of C "header_ssrc pkt" d key salt r] assms(5,7)
    single_stream_unprotect_seal [OF assms(1-5) assms(6,8), of d'] length_seal_packet [OF assms(1-4)]
  by fastforce

end
