(* ===== verification/Rekeying.thy ===== *)
theory Rekeying
  imports Generation Ratchet Srtp_Session
begin

text \<open>
  The rekeying stream of \<^verbatim>\<open>src/keying/granularity.rs\<close>: an SRTP session with one stream, the key
  ratchet and the rule that decides when the next generation's key is installed. The crypto
  provider's HKDF is the parameter \<open>H\<close>, the SRTP cipher the parameter \<open>C\<close>.

  The invariant \<open>rekeying_inv\<close> ties the three together: the cipher holds the key of the installed
  generation and the ratchet stands one generation further. The main lemma computes what a
  sender emits for a whole packet sequence: every packet sealed under the key of the generation
  \<open>boundary_count\<close> assigns to it, at its own position in the stream.
\<close>

section \<open>Definitions\<close>

definition WINDOW_SIZE :: nat where
  "WINDOW_SIZE = 128"

record RekeyingStream =
  rs_session :: srtp_session
  rs_ratchet :: StreamRatchet
  rs_granularity :: Granularity
  rs_ssrc :: u32
  rs_installed_gen :: nat
  rs_last_ts :: "u32 option"
  rs_started :: bool
  rs_packet_count :: nat

definition RekeyingStream_install_next_generation ::
  "hkdf \<Rightarrow> RekeyingStream \<Rightarrow> RekeyingStream outcome" where
  "RekeyingStream_install_next_generation H st =
     obind (StreamRatchet_next_key_salt H (rs_ratchet st)) (\<lambda>(g, key_salt, ratchet).
     let (key, salt) = split_key_salt key_salt;
         (session, res) = SessionRef_inplace_rekey (rs_session st) (rs_ssrc st) key salt
     in obind (expect_ok res) (\<lambda>_.
        Done (st\<lparr>rs_session := session, rs_ratchet := ratchet, rs_installed_gen := g\<rparr>)))"

definition RekeyingStream_new ::
  "srtp_crypto \<Rightarrow> hkdf \<Rightarrow> Granularity \<Rightarrow> u32 \<Rightarrow> StreamRatchet \<Rightarrow> RekeyingStream outcome" where
  "RekeyingStream_new C H granularity ssrc ratchet =
     (let throwaway = replicate 28 0;
          policy = \<lparr> sp_key = throwaway, sp_window_size = WINDOW_SIZE, sp_allow_repeat_tx = False \<rparr>;
          (session, res) = SessionRef_add_stream C Session_new ssrc policy
      in obind (expect_ok res) (\<lambda>_.
         RekeyingStream_install_next_generation H
           \<lparr> rs_session = session, rs_ratchet = ratchet, rs_granularity = granularity,
             rs_ssrc = ssrc, rs_installed_gen = 0, rs_last_ts = None, rs_started = False,
             rs_packet_count = 0 \<rparr>))"

definition RekeyingStream_advance_for :: "hkdf \<Rightarrow> RekeyingStream \<Rightarrow> u32 \<Rightarrow> RekeyingStream outcome" where
  "RekeyingStream_advance_for H st ts =
     obind
       (case rs_granularity st of
          Gran_EpochOnly \<Rightarrow> Done False
        | Gran_Packet \<Rightarrow> Done (rs_started st)
        | Gran_Frame \<Rightarrow> Done (rs_started st \<and> rs_last_ts st \<noteq> Some ts)
        | Gran_EveryN n \<Rightarrow>
            if rs_started st
            then obind (guard_panic (n \<noteq> 0) DivideByZero) (\<lambda>_.
                 Done (rs_packet_count st mod unat n = 0))
            else Done False) (\<lambda>crossed_boundary.
     obind (if crossed_boundary then RekeyingStream_install_next_generation H st else Done st) (\<lambda>st'.
     Done (st'\<lparr>rs_last_ts := Some ts, rs_started := True, rs_packet_count := rs_packet_count st' + 1\<rparr>)))"

definition RekeyingStream_timestamp :: "bytes \<Rightarrow> u32 outcome" where
  "RekeyingStream_timestamp packet =
     obind (guard_panic (RTP_HEADER_LEN \<le> length packet) AssertFailed) (\<lambda>_.
     Done (header_timestamp packet))"

definition RekeyingStream_protect ::
  "srtp_crypto \<Rightarrow> hkdf \<Rightarrow> RekeyingStream \<Rightarrow> bytes \<Rightarrow> (RekeyingStream \<times> bytes \<times> (srtp_error + unit)) outcome" where
  "RekeyingStream_protect C H st buf =
     obind (RekeyingStream_timestamp buf) (\<lambda>ts.
     obind (RekeyingStream_advance_for H st ts) (\<lambda>st'.
     let (session, buf', res) = SessionRef_protect C (rs_session st') buf
     in Done (st'\<lparr>rs_session := session\<rparr>, buf', res)))"

definition RekeyingStream_unprotect ::
  "srtp_crypto \<Rightarrow> hkdf \<Rightarrow> RekeyingStream \<Rightarrow> bytes \<Rightarrow> (RekeyingStream \<times> bytes \<times> (srtp_error + unit)) outcome" where
  "RekeyingStream_unprotect C H st buf =
     obind (RekeyingStream_timestamp buf) (\<lambda>ts.
     obind (RekeyingStream_advance_for H st ts) (\<lambda>st'.
     let (session, buf', res) = SessionRef_unprotect C (rs_session st') buf
     in Done (st'\<lparr>rs_session := session\<rparr>, buf', res)))"

section \<open>Invariant\<close>

definition gen_key :: "hkdf \<Rightarrow> bytes \<Rightarrow> nat \<Rightarrow> bytes" where
  "gen_key H seed g = take 16 (key_salt_at H seed g)"

definition gen_salt :: "hkdf \<Rightarrow> bytes \<Rightarrow> nat \<Rightarrow> bytes" where
  "gen_salt H seed g = drop 16 (key_salt_at H seed g)"

lemma gen_key_salt_lengths:
  "ratchet_ok H seed \<Longrightarrow> length (gen_key H seed g) = 16 \<and> length (gen_salt H seed g) = 12"
  using length_key_salt_at [of H seed g] by (simp add: gen_key_def gen_salt_def)

lemma split_key_salt_at:
  "split_key_salt (key_salt_at H seed g) = (gen_key H seed g, gen_salt H seed g)"
  by (simp add: split_key_salt_def gen_key_def gen_salt_def key_len_defs)

text \<open>
  The state of a rekeying stream after \<open>tss\<close> have been processed: \<open>g\<close> is the installed generation,
  \<open>d\<close> and \<open>r\<close> the direction and replay database of the session.
\<close>

definition rekeying_state ::
  "hkdf \<Rightarrow> bytes \<Rightarrow> Granularity \<Rightarrow> u32 \<Rightarrow> u32 list \<Rightarrow> direction \<Rightarrow> rdbx \<Rightarrow> RekeyingStream" where
  "rekeying_state H seed gr ssrc tss d r =
     (let g = boundary_count gr None 0 tss in
      \<lparr> rs_session = single_stream ssrc d (gen_key H seed g) (gen_salt H seed g) r,
        rs_ratchet = ratchet_at H seed (Suc g), rs_granularity = gr, rs_ssrc = ssrc,
        rs_installed_gen = g, rs_last_ts = (if tss = [] then None else Some (last tss)),
        rs_started = (tss \<noteq> []), rs_packet_count = length tss \<rparr>)"

text \<open>Every-n keying with \<open>n = 0\<close> divides by zero at the second packet; all else is usable.\<close>

definition usable :: "Granularity \<Rightarrow> bool" where
  "usable gr \<longleftrightarrow> gr \<noteq> Gran_EveryN 0"

lemma install_next_generation_at:
  assumes ok: "ratchet_ok H seed"
    and st: "rs_ratchet st = ratchet_at H seed g" "rs_session st = single_stream (rs_ssrc st) d key salt r"
  shows "RekeyingStream_install_next_generation H st =
    Done (st\<lparr>rs_session := single_stream (rs_ssrc st) d (gen_key H seed g) (gen_salt H seed g) r,
             rs_ratchet := ratchet_at H seed (Suc g), rs_installed_gen := g\<rparr>)"
  using gen_key_salt_lengths [OF ok, of g]
  by (simp add: RekeyingStream_install_next_generation_def st stream_ratchet.nxt_at [OF ok]
      split_key_salt_at single_stream_rekey)

lemma new_state:
  assumes ok: "ratchet_ok H seed"
  shows "RekeyingStream_new C H gr ssrc (ratchet_at H seed 0) =
    Done (rekeying_state H seed gr ssrc [] dir_unknown (srtp_rdbx_init 128))"
proof -
  let ?s = "single_stream ssrc dir_unknown (fst (srtp_kdf C (replicate 28 0)))
    (snd (srtp_kdf C (replicate 28 0))) (srtp_rdbx_init 128)"
  have "SessionRef_add_stream C Session_new ssrc
      \<lparr> sp_key = replicate 28 0, sp_window_size = 128, sp_allow_repeat_tx = False \<rparr> = (?s, Inr ())"
    by (simp add: SessionRef_add_stream_def StreamPolicy_sys_policy_def srtp_stream_init_def
        srtp_stream_list_insert_def Session_new_def single_stream_def)
  then show ?thesis
    by (simp add: RekeyingStream_new_def WINDOW_SIZE_def install_next_generation_at [OF ok]
        rekeying_state_def)
qed

lemma advance_for_state:
  assumes ok: "ratchet_ok H seed" and u: "usable gr"
  shows "RekeyingStream_advance_for H (rekeying_state H seed gr ssrc tss d r) ts =
    Done (rekeying_state H seed gr ssrc (tss @ [ts]) d r)"
proof -
  define st where "st = rekeying_state H seed gr ssrc tss d r"
  define g where "g = boundary_count gr None 0 tss"
  define b where "b = crosses_boundary gr (if tss = [] then None else Some (last tss)) (length tss) ts"
  have g': "boundary_count gr None 0 (tss @ [ts]) = (if b then Suc g else g)"
    by (simp add: boundary_count_snoc g_def b_def)
  have i: "RekeyingStream_install_next_generation H st =
    Done (st\<lparr>rs_session := single_stream ssrc d (gen_key H seed (Suc g)) (gen_salt H seed (Suc g)) r,
             rs_ratchet := ratchet_at H seed (Suc (Suc g)), rs_installed_gen := Suc g\<rparr>)"
    using install_next_generation_at [OF ok, of st "Suc g" d]
    by (simp add: st_def rekeying_state_def g_def Let_def)
  have "(case rs_granularity st of
          Gran_EpochOnly \<Rightarrow> Done False
        | Gran_Packet \<Rightarrow> Done (rs_started st)
        | Gran_Frame \<Rightarrow> Done (rs_started st \<and> rs_last_ts st \<noteq> Some ts)
        | Gran_EveryN n \<Rightarrow>
            if rs_started st
            then obind (guard_panic (n \<noteq> 0) DivideByZero) (\<lambda>_.
                 Done (rs_packet_count st mod unat n = 0))
            else Done False) = Done b"
    using u by (auto simp: st_def rekeying_state_def Let_def b_def crosses_boundary_def usable_def
        split: Granularity.splits)
  then show ?thesis
    unfolding RekeyingStream_advance_for_def st_def [symmetric]
    by (simp add: i g' rekeying_state_def Let_def flip: g_def)
      (simp add: st_def rekeying_state_def Let_def flip: g_def)
qed

section \<open>What a sender emits\<close>

lemma rdbx_pos_near: "near (rdbx_index r) i \<Longrightarrow> rdbx_pos r (of_nat i) = i"
  by (simp add: rdbx_pos_eq unat_of_nat near_rollover)

text \<open>The replay database after protecting positions \<open>b, b + 1, ..., b + n - 1\<close>.\<close>

fun sent_rdbx :: "nat \<Rightarrow> nat \<Rightarrow> rdbx" where
  "sent_rdbx b 0 = srtp_rdbx_init 128"
| "sent_rdbx b (Suc n) = rdbx_add (sent_rdbx b n) (b + n)"

lemma sent_rdbx_next:
  assumes "b < 65536"
  shows "rdbx_wf (sent_rdbx b n)"
    and "rdbx_index (sent_rdbx b n) = (if n = 0 then 0 else b + n - 1)"
    and "rdbx_pos (sent_rdbx b n) (of_nat (b + n)) = b + n"
    and "\<not> rdbx_blocked (sent_rdbx b n) (b + n)"
proof -
  have "rdbx_wf (sent_rdbx b n) \<and> rdbx_index (sent_rdbx b n) = (if n = 0 then 0 else b + n - 1) \<and>
    rdbx_pos (sent_rdbx b n) (of_nat (b + n)) = b + n \<and> \<not> rdbx_blocked (sent_rdbx b n) (b + n)"
  proof (induction n)
    case 0
    have "near (rdbx_index (srtp_rdbx_init 128)) b"
      using assms by (simp add: near_def srtp_rdbx_init_def)
    from rdbx_pos_near [OF this] show ?case
      by (auto simp: rdbx_init_wf rdbx_blocked_iff) (auto simp: srtp_rdbx_init_def)
  next
    case (Suc n)
    define r where "r = sent_rdbx b n"
    have less: "b + n < rdbx_index r + 65536"
      using rdbx_pos_less [of r "of_nat (b + n)"] Suc by (simp add: r_def)
    note add = rdbx_add_wf [OF _ less, folded r_def]
    have r: "rdbx_wf r" "\<not> rdbx_blocked r (b + n)" "rdbx_index r \<le> b + n"
      using Suc by (auto simp: r_def)
    have i: "rdbx_index (rdbx_add r (b + n)) = b + n" using add(3) r by simp
    have "near (rdbx_index (rdbx_add r (b + n))) (b + Suc n)" unfolding i by (simp add: near_def)
    from rdbx_pos_near [OF this] show ?case
      using add(1) r i by (simp add: rdbx_blocked_iff flip: r_def)
  qed
  then show "rdbx_wf (sent_rdbx b n)"
    and "rdbx_index (sent_rdbx b n) = (if n = 0 then 0 else b + n - 1)"
    and "rdbx_pos (sent_rdbx b n) (of_nat (b + n)) = b + n"
    and "\<not> rdbx_blocked (sent_rdbx b n) (b + n)" by blast+
qed

text \<open>
  \<open>media_ok ssrc b pkts\<close>: the packets of one epoch of a stream, in sending order: sequence
  numbers count up from \<open>b\<close> (and wrap), and the packets have plain headers.
\<close>

definition media_ok :: "u32 \<Rightarrow> nat \<Rightarrow> bytes list \<Rightarrow> bool" where
  "media_ok ssrc b pkts \<longleftrightarrow> b < 65536 \<and> b + length pkts \<le> 2 ^ 48 \<and>
     (\<forall>i<length pkts. plain_header (pkts ! i) \<and> header_ssrc (pkts ! i) = ssrc \<and>
        header_seq (pkts ! i) = of_nat (b + i) \<and> length (pkts ! i) + 16 < 2 ^ 31)"

lemma media_okD:
  assumes "media_ok ssrc b pkts" and "i < length pkts"
  shows "plain_header (pkts ! i)" "header_ssrc (pkts ! i) = ssrc"
    "header_seq (pkts ! i) = of_nat (b + i)" "length (pkts ! i) + 16 < 2 ^ 31"
  using assms unfolding media_ok_def by blast+

definition packet_gen :: "Granularity \<Rightarrow> bytes list \<Rightarrow> nat \<Rightarrow> nat" where
  "packet_gen gr pkts i = boundary_count gr None 0 (map header_timestamp (take (Suc i) pkts))"

definition sent_packet ::
  "srtp_crypto \<Rightarrow> hkdf \<Rightarrow> bytes \<Rightarrow> Granularity \<Rightarrow> nat \<Rightarrow> bytes list \<Rightarrow> nat \<Rightarrow> bytes" where
  "sent_packet C H seed gr b pkts i =
     (let g = packet_gen gr pkts i in
      seal_packet C (gen_key H seed g) (gen_salt H seed g) (b + i) (pkts ! i))"

lemma sent_rdbx_est:
  assumes "b < 65536" and "b + n < 2 ^ 48"
  shows "rdbx_est (sent_rdbx b n) (of_nat (b + n)) = b + n"
proof -
  have "rdbx_index (sent_rdbx b n) < 2 ^ 48"
    unfolding sent_rdbx_next(2) [OF assms(1)] using assms by auto
  then show ?thesis
    using rdbx_est_pos [of "sent_rdbx b n" "of_nat (b + n)"] sent_rdbx_next(3) [OF assms(1), of n] assms(2)
    by simp
qed

lemma protect_state:
  assumes ok: "ratchet_ok H seed" and u: "usable gr" and m: "media_ok ssrc b (pkts @ [pkt])"
  shows "\<exists>d'. RekeyingStream_protect C H
      (rekeying_state H seed gr ssrc (map header_timestamp pkts) d (sent_rdbx b (length pkts))) pkt =
    Done (rekeying_state H seed gr ssrc (map header_timestamp (pkts @ [pkt])) d' (sent_rdbx b (Suc (length pkts))),
      sent_packet C H seed gr b (pkts @ [pkt]) (length pkts), Inr ())"
proof -
  let ?n = "length pkts"
  have p: "plain_header pkt" "header_ssrc pkt = ssrc" "header_seq pkt = of_nat (b + ?n)"
    "length pkt + 16 < 2 ^ 31"
    using media_okD [OF m, of ?n] by simp_all
  have b: "b < 65536" "b + ?n < 2 ^ 48" using m by (auto simp: media_ok_def)
  define tss where "tss = map header_timestamp (pkts @ [pkt])"
  define g where "g = boundary_count gr None 0 tss"
  have p': "SessionRef_protect C (single_stream ssrc d (gen_key H seed g) (gen_salt H seed g) (sent_rdbx b ?n)) pkt =
    (single_stream ssrc (sets_direction dir_srtp_sender d) (gen_key H seed g) (gen_salt H seed g)
       (sent_rdbx b (Suc ?n)), seal_packet C (gen_key H seed g) (gen_salt H seed g) (b + ?n) pkt, Inr ())"
    using single_stream_protect [OF p(1)] p(2-4) sent_rdbx_next(3,4) [OF b(1), of ?n] sent_rdbx_est [OF b]
    by simp
  have a: "RekeyingStream_advance_for H
      (rekeying_state H seed gr ssrc (map header_timestamp pkts) d (sent_rdbx b ?n)) (header_timestamp pkt) =
    Done (rekeying_state H seed gr ssrc tss d (sent_rdbx b ?n))"
    by (simp add: advance_for_state [OF ok u] tss_def)
  have t: "RekeyingStream_timestamp pkt = Done (header_timestamp pkt)"
    using p(1) by (simp add: RekeyingStream_timestamp_def plain_header_def RTP_HEADER_LEN_def)
  have s: "sent_packet C H seed gr b (pkts @ [pkt]) ?n =
      seal_packet C (gen_key H seed g) (gen_salt H seed g) (b + ?n) pkt"
    by (simp add: sent_packet_def packet_gen_def g_def tss_def Let_def)
  have "RekeyingStream_protect C H
      (rekeying_state H seed gr ssrc (map header_timestamp pkts) d (sent_rdbx b ?n)) pkt =
    Done (rekeying_state H seed gr ssrc tss (sets_direction dir_srtp_sender d) (sent_rdbx b (Suc ?n)),
      sent_packet C H seed gr b (pkts @ [pkt]) ?n, Inr ())"
    unfolding RekeyingStream_protect_def t a s obind.simps
    using p' by (simp add: rekeying_state_def Let_def flip: g_def)
  then show ?thesis unfolding tss_def by blast
qed

lemma media_ok_prefix:
  assumes "media_ok ssrc b (xs @ ys)"
  shows "media_ok ssrc b xs"
proof -
  have "plain_header (xs ! i) \<and> header_ssrc (xs ! i) = ssrc \<and>
      header_seq (xs ! i) = of_nat (b + i) \<and> length (xs ! i) + 16 < 2 ^ 31" if "i < length xs" for i
    using media_okD [OF assms, of i] that by (simp add: nth_append)
  then show ?thesis using assms by (simp add: media_ok_def)
qed

lemma sent_packet_prefix:
  "i < length xs \<Longrightarrow> sent_packet C H seed gr b (xs @ ys) i = sent_packet C H seed gr b xs i"
  by (simp add: sent_packet_def packet_gen_def nth_append)

lemma protect_run_state:
  assumes ok: "ratchet_ok H seed" and u: "usable gr" and m: "media_ok ssrc b (pkts @ rest)"
  shows "\<exists>d'. run_steps (RekeyingStream_protect C H)
      (rekeying_state H seed gr ssrc (map header_timestamp pkts) d (sent_rdbx b (length pkts))) rest =
    Done (rekeying_state H seed gr ssrc (map header_timestamp (pkts @ rest)) d' (sent_rdbx b (length (pkts @ rest))),
      map (\<lambda>i. (sent_packet C H seed gr b (pkts @ rest) i, Inr ())) [length pkts..<length (pkts @ rest)])"
  using m
proof (induction rest arbitrary: pkts d)
  case Nil
  then show ?case by auto
next
  case (Cons x rest)
  have m': "media_ok ssrc b (pkts @ [x])" using media_ok_prefix [of ssrc b "pkts @ [x]" rest] Cons.prems by simp
  obtain d1 where st: "RekeyingStream_protect C H
      (rekeying_state H seed gr ssrc (map header_timestamp pkts) d (sent_rdbx b (length pkts))) x =
    Done (rekeying_state H seed gr ssrc (map header_timestamp (pkts @ [x])) d1 (sent_rdbx b (Suc (length pkts))),
      sent_packet C H seed gr b (pkts @ [x]) (length pkts), Inr ())"
    using protect_state [OF ok u m'] by blast
  have l: "[length pkts..<length (pkts @ x # rest)] = length pkts # [Suc (length pkts)..<length (pkts @ x # rest)]"
    by (simp add: upt_rec)
  have x: "sent_packet C H seed gr b (pkts @ x # rest) (length pkts) =
      sent_packet C H seed gr b (pkts @ [x]) (length pkts)"
    using sent_packet_prefix [of "length pkts" "pkts @ [x]" C H seed gr b rest] by simp
  obtain d2 where ih: "run_steps (RekeyingStream_protect C H)
      (rekeying_state H seed gr ssrc (map header_timestamp (pkts @ [x])) d1 (sent_rdbx b (Suc (length pkts)))) rest =
    Done (rekeying_state H seed gr ssrc (map header_timestamp (pkts @ x # rest)) d2 (sent_rdbx b (length (pkts @ x # rest))),
      map (\<lambda>i. (sent_packet C H seed gr b (pkts @ x # rest) i, Inr ())) [Suc (length pkts)..<length (pkts @ x # rest)])"
    using Cons.IH [of "pkts @ [x]" d1] Cons.prems
    by (simp only: append_assoc append_Cons append_Nil length_append list.size add_0_left add_Suc_right
        add_0_right) blast
  show ?case unfolding run_steps.simps st ih obind.simps prod.case l list.map x by blast
qed

lemma protect_run:
  assumes "ratchet_ok H seed" and "usable gr" and "media_ok ssrc b pkts"
  shows "\<exists>st. run_steps (RekeyingStream_protect C H)
      (rekeying_state H seed gr ssrc [] dir_unknown (srtp_rdbx_init 128)) pkts =
    Done (st, map (\<lambda>i. (sent_packet C H seed gr b pkts i, Inr ())) [0..<length pkts])"
  using protect_run_state [OF assms(1,2), of ssrc b "[]" pkts C dir_unknown] assms(3) by auto

section \<open>A rekeying stream on the receiving side\<close>

text \<open>
  Used for receiving, the stream follows the same boundary rule packet by packet, so it serves
  packets that arrive complete and in order.
\<close>

lemma sent_packet_header:
  assumes "media_ok ssrc b pkts" and "i < length pkts"
  shows "plain_header (sent_packet C H seed gr b pkts i)"
    "header_timestamp (sent_packet C H seed gr b pkts i) = header_timestamp (pkts ! i)"
  using seal_packet_header [OF media_okD(1) [OF assms]] by (simp_all add: sent_packet_def Let_def)

lemma unprotect_state:
  assumes ok: "ratchet_ok H seed" and u: "usable gr" and C: "crypto_sound C" and m: "media_ok ssrc b (pkts @ [pkt])"
  shows "\<exists>d'. RekeyingStream_unprotect C H
      (rekeying_state H seed gr ssrc (map header_timestamp pkts) d (sent_rdbx b (length pkts)))
      (sent_packet C H seed gr b (pkts @ [pkt]) (length pkts)) =
    Done (rekeying_state H seed gr ssrc (map header_timestamp (pkts @ [pkt])) d' (sent_rdbx b (Suc (length pkts))),
      pkt, Inr ())"
proof -
  let ?n = "length pkts"
  define wire where "wire = sent_packet C H seed gr b (pkts @ [pkt]) ?n"
  have p: "plain_header pkt" "header_ssrc pkt = ssrc" "header_seq pkt = of_nat (b + ?n)"
    "length pkt + 16 < 2 ^ 31"
    using media_okD [OF m, of ?n] by simp_all
  have b: "b < 65536" "b + ?n < 2 ^ 48" using m by (auto simp: media_ok_def)
  define tss where "tss = map header_timestamp (pkts @ [pkt])"
  define g where "g = boundary_count gr None 0 tss"
  note l = gen_key_salt_lengths [OF ok, of g]
  have s: "wire = seal_packet C (gen_key H seed g) (gen_salt H seed g) (b + ?n) pkt"
    by (simp add: wire_def sent_packet_def packet_gen_def g_def tss_def Let_def)
  have w: "plain_header wire" "header_timestamp wire = header_timestamp pkt"
    using sent_packet_header [OF m, of ?n] by (simp_all add: wire_def)
  have p': "SessionRef_unprotect C (single_stream ssrc d (gen_key H seed g) (gen_salt H seed g) (sent_rdbx b ?n)) wire =
    (single_stream ssrc (sets_direction dir_srtp_receiver d) (gen_key H seed g) (gen_salt H seed g)
       (sent_rdbx b (Suc ?n)), pkt, Inr ())"
    using single_stream_unprotect_seal [OF C conjunct1 [OF l] conjunct2 [OF l] p(1,4), of "sent_rdbx b ?n" "b + ?n" d]
      p(2,3) sent_rdbx_next(3,4) [OF b(1), of ?n] sent_rdbx_est [OF b] by (simp add: s)
  have a: "RekeyingStream_advance_for H
      (rekeying_state H seed gr ssrc (map header_timestamp pkts) d (sent_rdbx b ?n)) (header_timestamp pkt) =
    Done (rekeying_state H seed gr ssrc tss d (sent_rdbx b ?n))"
    by (simp add: advance_for_state [OF ok u] tss_def)
  have t: "RekeyingStream_timestamp wire = Done (header_timestamp pkt)"
    using w by (simp add: RekeyingStream_timestamp_def plain_header_def RTP_HEADER_LEN_def)
  have "RekeyingStream_unprotect C H
      (rekeying_state H seed gr ssrc (map header_timestamp pkts) d (sent_rdbx b ?n)) wire =
    Done (rekeying_state H seed gr ssrc tss (sets_direction dir_srtp_receiver d) (sent_rdbx b (Suc ?n)), pkt, Inr ())"
    unfolding RekeyingStream_unprotect_def t a obind.simps
    using p' by (simp add: rekeying_state_def Let_def flip: g_def)
  then show ?thesis unfolding tss_def wire_def by blast
qed

lemma unprotect_run_state:
  assumes ok: "ratchet_ok H seed" and u: "usable gr" and C: "crypto_sound C" and m: "media_ok ssrc b (pkts @ rest)"
  shows "\<exists>st. run_steps (RekeyingStream_unprotect C H)
      (rekeying_state H seed gr ssrc (map header_timestamp pkts) d (sent_rdbx b (length pkts)))
      (map (sent_packet C H seed gr b (pkts @ rest)) [length pkts..<length (pkts @ rest)]) =
    Done (st, map (\<lambda>pkt. (pkt, Inr ())) rest)"
  using m
proof (induction rest arbitrary: pkts d)
  case Nil
  then show ?case by auto
next
  case (Cons x rest)
  have m': "media_ok ssrc b (pkts @ [x])" using media_ok_prefix [of ssrc b "pkts @ [x]" rest] Cons.prems by simp
  obtain d1 where st: "RekeyingStream_unprotect C H
      (rekeying_state H seed gr ssrc (map header_timestamp pkts) d (sent_rdbx b (length pkts)))
      (sent_packet C H seed gr b (pkts @ [x]) (length pkts)) =
    Done (rekeying_state H seed gr ssrc (map header_timestamp (pkts @ [x])) d1 (sent_rdbx b (Suc (length pkts))),
      x, Inr ())"
    using unprotect_state [OF ok u C m'] by blast
  have l: "[length pkts..<length (pkts @ x # rest)] = length pkts # [Suc (length pkts)..<length (pkts @ x # rest)]"
    by (simp add: upt_rec)
  have x: "sent_packet C H seed gr b (pkts @ x # rest) (length pkts) =
      sent_packet C H seed gr b (pkts @ [x]) (length pkts)"
    using sent_packet_prefix [of "length pkts" "pkts @ [x]" C H seed gr b rest] by simp
  obtain st2 where ih: "run_steps (RekeyingStream_unprotect C H)
      (rekeying_state H seed gr ssrc (map header_timestamp (pkts @ [x])) d1 (sent_rdbx b (Suc (length pkts))))
      (map (sent_packet C H seed gr b (pkts @ x # rest)) [Suc (length pkts)..<length (pkts @ x # rest)]) =
    Done (st2, map (\<lambda>pkt. (pkt, Inr ())) rest)"
    using Cons.IH [of "pkts @ [x]" d1] Cons.prems
    by (simp only: append_assoc append_Cons append_Nil length_append list.size add_0_left add_Suc_right
        add_0_right) blast
  show ?case unfolding l list.map x run_steps.simps st ih obind.simps prod.case by blast
qed

section \<open>Properties\<close>

text \<open>
  C14. What a sender emits: a new rekeying stream protects every packet of an epoch's media without
  error or panic, and the \<open>i\<close>-th datagram is the \<open>i\<close>-th packet sealed at position \<open>b + i\<close> under the
  key of generation \<open>packet_gen\<close>: the number of boundaries its granularity has crossed so far.
\<close>

theorem sender_emits:
  assumes "ratchet_ok H seed" and "usable gr" and "media_ok ssrc b pkts"
  shows "\<exists>st. obind (RekeyingStream_new C H gr ssrc (ratchet_at H seed 0))
      (\<lambda>st0. run_steps (RekeyingStream_protect C H) st0 pkts) =
    Done (st, map (\<lambda>i. (seal_packet C (gen_key H seed (packet_gen gr pkts i)) (gen_salt H seed (packet_gen gr pkts i))
      (b + i) (pkts ! i), Inr ())) [0..<length pkts])"
  using protect_run [OF assms] by (simp add: new_state [OF assms(1)] sent_packet_def Let_def)

text \<open>Three packets of two frames, for examples.\<close>

definition sample_media :: "bytes list" where
  "sample_media = [sample_packet 0 1000, sample_packet 1 1000, sample_packet 2 4000]"

lemma sample_media_ok: "media_ok 9 0 sample_media"
  by (auto simp: media_ok_def sample_media_def sample_packet_facts less_Suc_eq numeral_3_eq_3)

theorem sender_emits_witness:
  "\<exists>st out. obind (RekeyingStream_new sample_crypto sample_hkdf Gran_Frame 9 (ratchet_at sample_hkdf (replicate 32 1) 0))
      (\<lambda>st0. run_steps (RekeyingStream_protect sample_crypto sample_hkdf) st0 sample_media) = Done (st, out) \<and>
    length out = length sample_media"
proof -
  have "ratchet_ok sample_hkdf (replicate 32 1)" by (simp add: ratchet_ok_def sample_hkdf_sound)
  from sender_emits [OF this _ sample_media_ok, of Gran_Frame sample_crypto]
  obtain st where "obind (RekeyingStream_new sample_crypto sample_hkdf Gran_Frame 9 (ratchet_at sample_hkdf (replicate 32 1) 0))
      (\<lambda>st0. run_steps (RekeyingStream_protect sample_crypto sample_hkdf) st0 sample_media) =
    Done (st, map (\<lambda>i. (seal_packet sample_crypto
      (gen_key sample_hkdf (replicate 32 1) (packet_gen Gran_Frame sample_media i))
      (gen_salt sample_hkdf (replicate 32 1) (packet_gen Gran_Frame sample_media i))
      (0 + i) (sample_media ! i), Inr ())) [0..<length sample_media])" by (auto simp: usable_def)
  then show ?thesis by (metis (no_types, lifting) length_map length_upt diff_zero)
qed

text \<open>
  C35. In-order round trip: what a rekeying stream sends, a rekeying stream created from the same
  seed, granularity and SSRC decrypts to the original packets when it receives all of them in
  order.
\<close>

theorem rekeying_roundtrip:
  assumes "ratchet_ok H seed" and "usable gr" and "crypto_sound C" and "media_ok ssrc b pkts"
    and "obind (RekeyingStream_new C H gr ssrc (ratchet_at H seed 0))
      (\<lambda>st0. run_steps (RekeyingStream_protect C H) st0 pkts) = Done (st, out)"
  shows "\<exists>st'. obind (RekeyingStream_new C H gr ssrc (ratchet_at H seed 0))
      (\<lambda>st0. run_steps (RekeyingStream_unprotect C H) st0 (map fst out)) = Done (st', map (\<lambda>pkt. (pkt, Inr ())) pkts)"
proof -
  have "map fst out = map (sent_packet C H seed gr b pkts) [0..<length pkts]"
    using protect_run [OF assms(1,2,4), of C] assms(5) by (auto simp: new_state [OF assms(1)])
  then show ?thesis
    using unprotect_run_state [OF assms(1,2,3), of ssrc b "[]" pkts dir_unknown] assms(4)
    by (simp add: new_state [OF assms(1)])
qed

theorem rekeying_roundtrip_witness:
  "\<exists>st out st'. obind (RekeyingStream_new sample_crypto sample_hkdf (Gran_EveryN 2) 9 (ratchet_at sample_hkdf (replicate 32 1) 0))
      (\<lambda>st0. run_steps (RekeyingStream_protect sample_crypto sample_hkdf) st0 sample_media) = Done (st, out) \<and>
    obind (RekeyingStream_new sample_crypto sample_hkdf (Gran_EveryN 2) 9 (ratchet_at sample_hkdf (replicate 32 1) 0))
      (\<lambda>st0. run_steps (RekeyingStream_unprotect sample_crypto sample_hkdf) st0 (map fst out)) =
    Done (st', map (\<lambda>pkt. (pkt, Inr ())) sample_media)"
proof -
  have ok: "ratchet_ok sample_hkdf (replicate 32 1)" by (simp add: ratchet_ok_def sample_hkdf_sound)
  have u: "usable (Gran_EveryN 2)" by (simp add: usable_def)
  obtain st out where r: "obind (RekeyingStream_new sample_crypto sample_hkdf (Gran_EveryN 2) 9 (ratchet_at sample_hkdf (replicate 32 1) 0))
      (\<lambda>st0. run_steps (RekeyingStream_protect sample_crypto sample_hkdf) st0 sample_media) = Done (st, out)"
    using protect_run [OF ok u sample_media_ok, of sample_crypto] by (auto simp: new_state [OF ok])
  show ?thesis using r rekeying_roundtrip [OF ok u sample_crypto_sound sample_media_ok r] by blast
qed

end
