(* ===== verification/Receiver.thy ===== *)
theory Receiver
  imports Rekeying Index_Recovery
begin

text \<open>
  The receiver's key manager: \<^verbatim>\<open>src/receiver.rs\<close>. The four phases of \<^verbatim>\<open>unprotect\<close> are one
  definition each, composed in the order the code runs them: map the header to a generation,
  classify it against the window of kept keys, fetch or derive its key (on a copy of the
  ratchet), install it, and decrypt; only a packet that authenticates changes the ratchet, the
  key ring, the frontier and the index recovery.

  The invariant \<open>recv_inv\<close> says which keys the receiver holds: ring slot \<open>i\<close> has the key of the one
  generation of the window with that residue, and nothing else.
\<close>

section \<open>State\<close>

datatype RecvDrop = BehindWindow | SeekCapExceeded | SrtpReplay | AuthFail

record RecvStats =
  decrypted :: nat
  cache_hits :: nat
  catchup_steps :: nat
  catchup_steps_wasted :: nat
  max_catchup :: nat
  installs :: nat
  drops_behind :: nat
  drops_seek_cap :: nat
  drops_replay :: nat
  drops_auth :: nat

definition RecvStats_default :: RecvStats where
  "RecvStats_default =
     \<lparr> decrypted = 0, cache_hits = 0, catchup_steps = 0, catchup_steps_wasted = 0, max_catchup = 0,
       installs = 0, drops_behind = 0, drops_seek_cap = 0, drops_replay = 0, drops_auth = 0 \<rparr>"

record ReceiverKeyManager =
  rk_session :: srtp_session
  rk_ssrc :: u32
  rk_scheme :: GenerationScheme
  rk_recovery :: IndexRecovery
  rk_ratchet :: StreamRatchet
  rk_ring :: "(nat \<times> KeySalt) option list"
  rk_frontier :: "nat option"
  rk_installed :: "nat option"
  rk_seek_cap :: nat
  rk_stats :: RecvStats

datatype Placement = InWindow KeySalt | Ahead nat

record PendingCatchup =
  pc_ratchet :: StreamRatchet
  pc_derived :: "(nat \<times> KeySalt) list"
  pc_jump :: nat

section \<open>Operations\<close>

definition ReceiverKeyManager_new ::
  "srtp_crypto \<Rightarrow> GenerationScheme \<Rightarrow> u32 \<Rightarrow> StreamRatchet \<Rightarrow> nat \<Rightarrow> nat \<Rightarrow> nat \<Rightarrow> ReceiverKeyManager outcome" where
  "ReceiverKeyManager_new C scheme ssrc ratchet k seek_cap replay_window =
     obind (guard_panic (k \<ge> 1) AssertFailed) (\<lambda>_.
     let throwaway = replicate 28 0;
         policy = \<lparr> sp_key = throwaway, sp_window_size = replay_window, sp_allow_repeat_tx = False \<rparr>;
         (session, res) = SessionRef_add_stream C Session_new ssrc policy
     in obind (expect_ok res) (\<lambda>_.
        Done \<lparr> rk_session = session, rk_ssrc = ssrc, rk_scheme = scheme,
               rk_recovery = IndexRecovery_default, rk_ratchet = ratchet,
               rk_ring = replicate k None, rk_frontier = None, rk_installed = None,
               rk_seek_cap = seek_cap, rk_stats = RecvStats_default \<rparr>))"

definition count_drop :: "RecvDrop \<Rightarrow> ReceiverKeyManager \<Rightarrow> ReceiverKeyManager" where
  "count_drop d rk =
     rk\<lparr>rk_stats := (case d of
          BehindWindow \<Rightarrow> (rk_stats rk)\<lparr>drops_behind := drops_behind (rk_stats rk) + 1\<rparr>
        | SeekCapExceeded \<Rightarrow> (rk_stats rk)\<lparr>drops_seek_cap := drops_seek_cap (rk_stats rk) + 1\<rparr>
        | SrtpReplay \<Rightarrow> (rk_stats rk)\<lparr>drops_replay := drops_replay (rk_stats rk) + 1\<rparr>
        | AuthFail \<Rightarrow> (rk_stats rk)\<lparr>drops_auth := drops_auth (rk_stats rk) + 1\<rparr>)\<rparr>"

text \<open>Phase 1: the packet's generation and, for the index-based schemes, its recovered index.\<close>

definition map_generation ::
  "ReceiverKeyManager \<Rightarrow> u16 \<Rightarrow> u32 \<Rightarrow> (RecvDrop + nat \<times> nat option) outcome" where
  "map_generation rk seq ts =
     (case rk_scheme rk of
        Scheme_EpochOnly \<Rightarrow> Done (Inr (0, None))
      | Scheme_Frame start_ts period \<Rightarrow>
          obind (frame_generation ts start_ts period) (\<lambda>g. Done (Inr (g, None)))
      | Scheme_Packet base \<Rightarrow>
          (let index = IndexRecovery_recover (rk_recovery rk) seq in
           case checked_sub64 index base of
             None \<Rightarrow> Done (Inl BehindWindow)
           | Some g \<Rightarrow> Done (Inr (g, Some index)))
      | Scheme_EveryN base n \<Rightarrow>
          (let index = IndexRecovery_recover (rk_recovery rk) seq in
           case checked_sub64 index base of
             None \<Rightarrow> Done (Inl BehindWindow)
           | Some offset \<Rightarrow>
               obind (guard_panic (n \<noteq> 0) DivideByZero) (\<lambda>_.
               Done (Inr (offset div unat n, Some index)))))"

text \<open>Phase 2: the place of a generation relative to the window of kept keys.\<close>

definition classify_generation :: "ReceiverKeyManager \<Rightarrow> nat \<Rightarrow> (RecvDrop + Placement) outcome" where
  "classify_generation rk g =
     (let k = length (rk_ring rk);
          ahead = (\<lambda>jump. if jump > rk_seek_cap rk then Done (Inl SeekCapExceeded)
                          else Done (Inr (Ahead jump)))
      in case rk_frontier rk of
           Some f \<Rightarrow>
             if g \<le> f then
               (if f - g \<ge> k then Done (Inl BehindWindow)
                else case rk_ring rk ! (g mod k) of
                       Some (tag, ks) \<Rightarrow>
                         if tag = g then Done (Inr (InWindow ks)) else Panic Unreachable
                     | None \<Rightarrow> Panic Unreachable)
             else ahead (g - f)
         | None \<Rightarrow> ahead (g + 1))"

text \<open>Phase 3: read the key out of the ring, or ratchet a copy forward, keeping the last \<open>k\<close> keys.\<close>

function catchup_loop ::
  "hkdf \<Rightarrow> nat \<Rightarrow> nat \<Rightarrow> StreamRatchet \<Rightarrow> (nat \<times> KeySalt) list \<Rightarrow>
     (StreamRatchet \<times> (nat \<times> KeySalt) list) outcome" where
  "catchup_loop H k g ratchet derived =
     (if sr_generation ratchet \<le> g then
        (case StreamRatchet_next_key_salt H ratchet of
           Panic p \<Rightarrow> Panic p
         | Done (gg, ks, ratchet') \<Rightarrow>
             catchup_loop H k g ratchet'
               ((if length derived = k then tl derived else derived) @ [(gg, ks)]))
      else Done (ratchet, derived))"
  by pat_completeness auto
termination
  by (relation "measure (\<lambda>(H, k, g, ratchet, derived). Suc g - sr_generation ratchet)")
    (auto dest: next_key_salt_generation)

definition fetch_key ::
  "hkdf \<Rightarrow> ReceiverKeyManager \<Rightarrow> nat \<Rightarrow> Placement \<Rightarrow>
     (ReceiverKeyManager \<times> KeySalt \<times> PendingCatchup option) outcome" where
  "fetch_key H rk g placement =
     (case placement of
        InWindow ks \<Rightarrow>
          Done (rk\<lparr>rk_stats := (rk_stats rk)\<lparr>cache_hits := cache_hits (rk_stats rk) + 1\<rparr>\<rparr>, ks, None)
      | Ahead jump \<Rightarrow>
          obind (catchup_loop H (length (rk_ring rk)) g (rk_ratchet rk) []) (\<lambda>(ratchet, derived).
          obind (guard_panic (derived \<noteq> []) ExpectFailed) (\<lambda>_.
          Done (rk\<lparr>rk_stats := (rk_stats rk)
                  \<lparr>catchup_steps := catchup_steps (rk_stats rk) + jump,
                   max_catchup := max (max_catchup (rk_stats rk)) jump\<rparr>\<rparr>,
                snd (last derived),
                Some \<lparr> pc_ratchet = ratchet, pc_derived = derived, pc_jump = jump \<rparr>))))"

text \<open>Phase 4: install the key unless it is the installed one, decrypt, then finalise.\<close>

definition install_key :: "ReceiverKeyManager \<Rightarrow> nat \<Rightarrow> KeySalt \<Rightarrow> ReceiverKeyManager outcome" where
  "install_key rk g key_salt =
     (if rk_installed rk \<noteq> Some g then
        (let (key, salt) = split_key_salt key_salt;
             (session, res) = SessionRef_inplace_rekey (rk_session rk) (rk_ssrc rk) key salt
         in obind (expect_ok res) (\<lambda>_.
            Done (rk\<lparr>rk_session := session, rk_installed := Some g,
                     rk_stats := (rk_stats rk)\<lparr>installs := installs (rk_stats rk) + 1\<rparr>\<rparr>)))
      else Done rk)"

definition fold_ring ::
  "(nat \<times> KeySalt) list \<Rightarrow> (nat \<times> KeySalt) option list \<Rightarrow> (nat \<times> KeySalt) option list" where
  "fold_ring derived ring =
     fold (\<lambda>(gg, ks) ring. ring[gg mod length ring := Some (gg, ks)]) derived ring"

definition adopt_catchup :: "nat \<Rightarrow> PendingCatchup option \<Rightarrow> ReceiverKeyManager \<Rightarrow> ReceiverKeyManager" where
  "adopt_catchup g pending rk =
     (case pending of
        None \<Rightarrow> rk
      | Some p \<Rightarrow> rk\<lparr>rk_ratchet := pc_ratchet p, rk_ring := fold_ring (pc_derived p) (rk_ring rk),
                      rk_frontier := Some g\<rparr>)"

definition count_wasted :: "PendingCatchup option \<Rightarrow> ReceiverKeyManager \<Rightarrow> ReceiverKeyManager" where
  "count_wasted pending rk =
     (case pending of
        None \<Rightarrow> rk
      | Some p \<Rightarrow> rk\<lparr>rk_stats := (rk_stats rk)
          \<lparr>catchup_steps_wasted := catchup_steps_wasted (rk_stats rk) + pc_jump p\<rparr>\<rparr>)"

definition decrypt_and_finalize ::
  "srtp_crypto \<Rightarrow> ReceiverKeyManager \<Rightarrow> nat \<Rightarrow> nat option \<Rightarrow> PendingCatchup option \<Rightarrow> bytes \<Rightarrow>
     (ReceiverKeyManager \<times> bytes \<times> (RecvDrop + nat)) outcome" where
  "decrypt_and_finalize C rk g est_index pending buf =
     (let (session, buf', res) = SessionRef_unprotect C (rk_session rk) buf;
          rk1 = rk\<lparr>rk_session := session\<rparr>
      in case res of
           Inr _ \<Rightarrow>
             (let rk2 = adopt_catchup g pending rk1;
                  rk3 = (case est_index of
                           None \<Rightarrow> rk2
                         | Some index \<Rightarrow> rk2\<lparr>rk_recovery := IndexRecovery_update (rk_recovery rk2) index\<rparr>)
              in Done (rk3\<lparr>rk_stats := (rk_stats rk3)\<lparr>decrypted := decrypted (rk_stats rk3) + 1\<rparr>\<rparr>,
                       buf', Inr g))
         | Inl e \<Rightarrow>
             (let rk2 = count_wasted pending rk1 in
              if e = REPLAY_FAIL \<or> e = REPLAY_OLD
              then Done (count_drop SrtpReplay rk2, buf', Inl SrtpReplay)
              else if e = AUTH_FAIL then Done (count_drop AuthFail rk2, buf', Inl AuthFail)
              else Panic ExplicitPanic))"

definition ReceiverKeyManager_unprotect ::
  "srtp_crypto \<Rightarrow> hkdf \<Rightarrow> ReceiverKeyManager \<Rightarrow> bytes \<Rightarrow>
     (ReceiverKeyManager \<times> bytes \<times> (RecvDrop + nat)) outcome" where
  "ReceiverKeyManager_unprotect C H rk buf =
     (if length buf < RTP_HEADER_LEN then Done (count_drop AuthFail rk, buf, Inl AuthFail)
      else
        obind (map_generation rk (header_seq buf) (header_timestamp buf)) (\<lambda>mapped.
          case mapped of
            Inl d \<Rightarrow> Done (count_drop d rk, buf, Inl d)
          | Inr (g, est_index) \<Rightarrow>
              obind (classify_generation rk g) (\<lambda>placed.
                case placed of
                  Inl d \<Rightarrow> Done (count_drop d rk, buf, Inl d)
                | Inr placement \<Rightarrow>
                    obind (fetch_key H rk g placement) (\<lambda>(rk1, key_salt, pending).
                    obind (install_key rk1 g key_salt) (\<lambda>rk2.
                    decrypt_and_finalize C rk2 g est_index pending buf)))))"

section \<open>The catch-up loop\<close>

declare catchup_loop.simps [simp del]

definition lastn :: "nat \<Rightarrow> 'a list \<Rightarrow> 'a list" where
  "lastn k xs = drop (length xs - k) xs"

definition derived_keys :: "hkdf \<Rightarrow> bytes \<Rightarrow> nat \<Rightarrow> nat \<Rightarrow> (nat \<times> KeySalt) list" where
  "derived_keys H seed a b = map (\<lambda>g. (g, key_salt_at H seed g)) [a..<b]"

lemma lastn_snoc:
  assumes "1 \<le> k"
  shows "(if length (lastn k xs) = k then tl (lastn k xs) else lastn k xs) @ [x] = lastn k (xs @ [x])"
  using assms by (auto simp: lastn_def tl_drop Suc_diff_le simp flip: drop_Suc)

lemma catchup_loop_at:
  assumes ok: "ratchet_ok H seed" and k: "1 \<le> k" and "n \<le> Suc g"
  shows "catchup_loop H k g (ratchet_at H seed n) (lastn k ds) =
    Done (ratchet_at H seed (Suc g), lastn k (ds @ derived_keys H seed n (Suc g)))"
  using assms(3)
proof (induction "Suc g - n" arbitrary: n ds)
  case 0
  then have "n = Suc g" by simp
  then show ?case
    by (simp add: catchup_loop.simps [of H k g "ratchet_at H seed (Suc g)"] stream_ratchet.gen_at
        derived_keys_def)
next
  case (Suc m)
  then have n: "n \<le> g" "m = Suc g - Suc n" by auto
  have "derived_keys H seed n (Suc g) = (n, key_salt_at H seed n) # derived_keys H seed (Suc n) (Suc g)"
    unfolding derived_keys_def by (subst upt_rec) (use n(1) in simp)
  moreover have "catchup_loop H k g (ratchet_at H seed n) (lastn k ds) =
    catchup_loop H k g (ratchet_at H seed (Suc n)) (lastn k (ds @ [(n, key_salt_at H seed n)]))"
    using n(1) by (subst catchup_loop.simps)
      (simp add: stream_ratchet.gen_at stream_ratchet.nxt_at [OF ok] lastn_snoc [OF k])
  ultimately show ?case using Suc.hyps(1) [OF n(2), of "ds @ [(n, key_salt_at H seed n)]"] n(1)
    by simp
qed

lemma lastn_derived_keys:
  "lastn k (derived_keys H seed n m) = derived_keys H seed (max n (m - k)) m"
proof -
  have "n \<le> m - k \<Longrightarrow> n + (m - (n + k)) = m - k" by simp
  then show ?thesis by (auto simp: lastn_def derived_keys_def drop_map drop_upt max_def)
qed

lemma catchup_loop_fresh:
  assumes "ratchet_ok H seed" and "1 \<le> k" and "n \<le> Suc g"
  shows "catchup_loop H k g (ratchet_at H seed n) [] =
    Done (ratchet_at H seed (Suc g), derived_keys H seed (max n (Suc g - k)) (Suc g))"
  using catchup_loop_at [OF assms, of "[]"] by (simp add: lastn_derived_keys) (simp add: lastn_def)

section \<open>The key ring\<close>

lemma length_fold_ring [simp]: "length (fold_ring ds ring) = length ring"
  unfolding fold_ring_def by (induction ds arbitrary: ring) (auto split: prod.splits)

lemma mod_eq_window:
  assumes "g mod k = g' mod k" and "g \<le> g'" and "g' < g + k"
  shows "g = (g' :: nat)"
proof -
  obtain q where q: "g' = g + k * q" using mod_eq_nat1E [of g' k g] assms(1,2) by metis
  then have "k * q < k * 1" using assms(3) by simp
  then have "q = 0" by simp
  with q show ?thesis by simp
qed

lemma residue_in_window:
  assumes "i < k"
  obtains h where "c \<le> h" "h < c + k" "h mod k = (i :: nat)"
proof -
  define q m where "q = c div k * k" and "m = c mod k"
  have c: "c = q + m" by (simp add: q_def m_def)
  have m: "m < k" using assms by (simp add: m_def)
  have a: "(q + i) mod k = i" unfolding q_def using assms by (simp only: mod_mult_self3 mod_less)
  then have b: "(q + k + i) mod k = i" by (metis add.commute add.left_commute mod_add_self2)
  show thesis
  proof (cases "m \<le> i")
    case True
    show thesis by (rule that [of "q + i", OF _ _ a]) (use True assms c m in linarith)+
  next
    case False
    show thesis by (rule that [of "q + k + i", OF _ _ b]) (use False assms c m in linarith)+
  qed
qed

lemma fold_ring_nth:
  assumes "b - a \<le> length ring" and "i < length ring"
  shows "fold_ring (derived_keys H seed a b) ring ! i = Some (g, ks) \<longleftrightarrow>
    (a \<le> g \<and> g < b \<and> g mod length ring = i \<and> ks = key_salt_at H seed g) \<or>
    ((\<nexists>g'. a \<le> g' \<and> g' < b \<and> g' mod length ring = i) \<and> ring ! i = Some (g, ks))"
  using assms(1)
proof (induction b)
  case 0
  then show ?case by (simp add: derived_keys_def fold_ring_def)
next
  case (Suc b)
  define k where "k = length ring"
  show ?case
  proof (cases "a \<le> b")
    case False
    then have "derived_keys H seed a (Suc b) = []" by (simp add: derived_keys_def)
    then show ?thesis using False by (auto simp: fold_ring_def)
  next
    case True
    let ?r = "fold_ring (derived_keys H seed a b) ring"
    have "derived_keys H seed a (Suc b) = derived_keys H seed a b @ [(b, key_salt_at H seed b)]"
      using True by (simp add: derived_keys_def)
    then have f: "fold_ring (derived_keys H seed a (Suc b)) ring = ?r[b mod k := Some (b, key_salt_at H seed b)]"
      using length_fold_ring [of "derived_keys H seed a b" ring]
      by (simp add: fold_ring_def k_def)
    show ?thesis
    proof (cases "i = b mod k")
      case True
      have "g' = b" if "a \<le> g'" "g' < Suc b" "g' mod k = b mod k" for g'
        using mod_eq_window [of g' k b] that Suc.prems unfolding k_def by linarith
      then show ?thesis using True assms(2) \<open>a \<le> b\<close> unfolding f
        by (auto simp: k_def)
    next
      case False
      then show ?thesis using Suc.IH Suc.prems unfolding f
        by (auto simp: k_def less_Suc_eq)
    qed
  qed
qed

definition in_window :: "nat option \<Rightarrow> nat \<Rightarrow> nat \<Rightarrow> bool" where
  "in_window frontier k g = (case frontier of None \<Rightarrow> False | Some f \<Rightarrow> g \<le> f \<and> f < g + k)"

text \<open>The ring holds the key of every generation in the window, and no other key.\<close>

definition ring_ok :: "hkdf \<Rightarrow> bytes \<Rightarrow> nat option \<Rightarrow> (nat \<times> KeySalt) option list \<Rightarrow> bool" where
  "ring_ok H seed frontier ring \<longleftrightarrow>
     (\<forall>i<length ring. \<forall>g ks. ring ! i = Some (g, ks) \<longleftrightarrow>
        in_window frontier (length ring) g \<and> g mod length ring = i \<and> ks = key_salt_at H seed g)"

definition next_gen :: "nat option \<Rightarrow> nat" where
  "next_gen frontier = (case frontier of None \<Rightarrow> 0 | Some f \<Rightarrow> Suc f)"

text \<open>
  Which entries survive when generations \<open>a..g\<close> are written: those the window of \<open>g\<close> still covers.
\<close>

lemma slot_survives:
  assumes i: "i < k" and w: "g' mod k = i" "g' \<le> f" "f < g' + k" and a: "a = max (Suc f) (Suc g - k)"
  shows "(\<nexists>h. a \<le> h \<and> h < Suc g \<and> h mod k = i) \<longleftrightarrow> g < g' + k"
proof
  assume n: "\<nexists>h. a \<le> h \<and> h < Suc g \<and> h mod k = i"
  show "g < g' + k"
  proof (rule ccontr)
    assume far: "\<not> g < g' + k"
    obtain h where h: "Suc g - k \<le> h" "h < Suc g - k + k" "h mod k = i"
      using residue_in_window [OF i] .
    have "Suc f \<le> h"
    proof (rule ccontr)
      assume "\<not> Suc f \<le> h"
      moreover have "g' < h" using far h(1) by linarith
      ultimately have "g' = h" using mod_eq_window [of g' k h] h(3) w by linarith
      with \<open>g' < h\<close> show False by simp
    qed
    with h far n show False by (auto simp: a)
  qed
next
  assume l: "g < g' + k"
  show "\<nexists>h. a \<le> h \<and> h < Suc g \<and> h mod k = i"
  proof
    assume "\<exists>h. a \<le> h \<and> h < Suc g \<and> h mod k = i"
    then obtain h where h: "a \<le> h" "h < Suc g" "h mod k = i" by blast
    then have "g' = h" using mod_eq_window [of g' k h] w l a by linarith
    with h w a show False by linarith
  qed
qed

lemma ring_ok_advance:
  assumes ring: "ring_ok H seed frontier ring" and k: "1 \<le> length ring" and g: "next_gen frontier \<le> g"
  shows "ring_ok H seed (Some g)
    (fold_ring (derived_keys H seed (max (next_gen frontier) (Suc g - length ring)) (Suc g)) ring)"
proof -
  define k a where "k = length ring" and "a = max (next_gen frontier) (Suc g - k)"
  let ?none = "\<lambda>i. \<nexists>h. a \<le> h \<and> h < Suc g \<and> h mod k = i"
  have old: "ring ! i = Some (g', ks) \<longleftrightarrow> in_window frontier k g' \<and> g' mod k = i \<and> ks = key_salt_at H seed g'"
    if "i < k" for i g' ks
    using ring that by (simp add: ring_ok_def k_def)
  have surv: "?none i \<longleftrightarrow> g < g' + k" if w: "i < k" "in_window frontier k g'" "g' mod k = i" for i g'
  proof -
    obtain f where f: "frontier = Some f" "g' \<le> f" "f < g' + k"
      using w(2) by (auto simp: in_window_def split: option.splits)
    show ?thesis by (rule slot_survives [of i k g' f]) (use w f in \<open>simp_all add: a_def next_gen_def\<close>)
  qed
  have lo: "in_window frontier k g'" if "g' \<le> g" "g < g' + k" "\<not> a \<le> g'" for g'
    using that g by (auto simp: in_window_def a_def next_gen_def split: option.splits)
  have hi: "g' \<le> g" if "in_window frontier k g'" for g'
    using that g by (auto simp: in_window_def next_gen_def split: option.splits)
  have a: "Suc g - k \<le> a" by (simp add: a_def)
  have "(a \<le> g' \<and> g' < Suc g \<and> g' mod k = i \<and> ks = key_salt_at H seed g') \<or>
      (?none i \<and> ring ! i = Some (g', ks)) \<longleftrightarrow>
      in_window (Some g) k g' \<and> g' mod k = i \<and> ks = key_salt_at H seed g'" if i: "i < k" for i g' ks
    unfolding old [OF i] using surv [OF i, of g'] lo [of g'] hi [of g'] a
    by (auto simp: in_window_def [of "Some g"])
  moreover have "Suc g - a \<le> length ring" by (simp add: a_def k_def)
  ultimately show ?thesis
    unfolding ring_ok_def using fold_ring_nth [of "Suc g" a ring _ H seed]
    by (simp add: k_def [symmetric] a_def [symmetric])
qed

section \<open>Invariant\<close>

definition recv_inv :: "hkdf \<Rightarrow> bytes \<Rightarrow> ReceiverKeyManager \<Rightarrow> bool" where
  "recv_inv H seed rk \<longleftrightarrow>
     ratchet_ok H seed \<and> 1 \<le> length (rk_ring rk) \<and>
     rk_ratchet rk = ratchet_at H seed (next_gen (rk_frontier rk)) \<and>
     ring_ok H seed (rk_frontier rk) (rk_ring rk) \<and>
     (\<exists>d key salt r. rk_session rk = single_stream (rk_ssrc rk) d key salt r \<and> rdbx_wf r \<and>
        (\<forall>g. rk_installed rk = Some g \<longrightarrow> key = gen_key H seed g \<and> salt = gen_salt H seed g))"

lemma recv_invD:
  assumes "recv_inv H seed rk"
  shows "ratchet_ok H seed" "1 \<le> length (rk_ring rk)"
    "rk_ratchet rk = ratchet_at H seed (next_gen (rk_frontier rk))"
    "ring_ok H seed (rk_frontier rk) (rk_ring rk)"
  using assms by (simp_all add: recv_inv_def)

text \<open>
  The generations the receiver has or can get a key for: those in its window, and those ahead of
  it by at most the seek cap.
\<close>

definition ahead_ok :: "ReceiverKeyManager \<Rightarrow> nat \<Rightarrow> bool" where
  "ahead_ok rk g \<longleftrightarrow> next_gen (rk_frontier rk) \<le> g \<and> Suc g - next_gen (rk_frontier rk) \<le> rk_seek_cap rk"

definition reachable_gen :: "ReceiverKeyManager \<Rightarrow> nat \<Rightarrow> bool" where
  "reachable_gen rk g \<longleftrightarrow> in_window (rk_frontier rk) (length (rk_ring rk)) g \<or> ahead_ok rk g"

lemma ring_lookup:
  assumes "ring_ok H seed frontier ring" and "in_window frontier (length ring) g" and "1 \<le> length ring"
  shows "ring ! (g mod length ring) = Some (g, key_salt_at H seed g)"
proof -
  have "g mod length ring < length ring" using assms(3) by (intro mod_less_divisor) linarith
  then show ?thesis using assms(1,2) by (simp add: ring_ok_def)
qed

lemma classify_cases:
  assumes "recv_inv H seed rk"
  shows "classify_generation rk g =
    (if in_window (rk_frontier rk) (length (rk_ring rk)) g
     then Done (Inr (InWindow (key_salt_at H seed g)))
     else if g < next_gen (rk_frontier rk) then Done (Inl BehindWindow)
     else if ahead_ok rk g then Done (Inr (Ahead (Suc g - next_gen (rk_frontier rk))))
     else Done (Inl SeekCapExceeded))"
  using recv_invD(2,4) [OF assms] ring_lookup [OF recv_invD(4) [OF assms], of g]
  by (auto simp: classify_generation_def in_window_def next_gen_def ahead_ok_def Let_def
      split: option.splits)

definition durable :: "ReceiverKeyManager \<Rightarrow> _" where
  "durable rk = (rk_ssrc rk, rk_scheme rk, rk_recovery rk, rk_ratchet rk, rk_ring rk, rk_frontier rk,
     rk_seek_cap rk)"

definition catchup_result :: "hkdf \<Rightarrow> bytes \<Rightarrow> ReceiverKeyManager \<Rightarrow> nat \<Rightarrow> PendingCatchup" where
  "catchup_result H seed rk g =
     \<lparr> pc_ratchet = ratchet_at H seed (Suc g),
       pc_derived = derived_keys H seed (max (next_gen (rk_frontier rk)) (Suc g - length (rk_ring rk))) (Suc g),
       pc_jump = Suc g - next_gen (rk_frontier rk) \<rparr>"

definition pending_for :: "hkdf \<Rightarrow> bytes \<Rightarrow> ReceiverKeyManager \<Rightarrow> nat \<Rightarrow> PendingCatchup option" where
  "pending_for H seed rk g =
     (if in_window (rk_frontier rk) (length (rk_ring rk)) g then None
      else Some (catchup_result H seed rk g))"

lemma fetch_key_reachable:
  assumes inv: "recv_inv H seed rk" and r: "reachable_gen rk g"
  obtains placement rk1 where "classify_generation rk g = Done (Inr placement)"
    and "fetch_key H rk g placement = Done (rk1, key_salt_at H seed g, pending_for H seed rk g)"
    and "durable rk1 = durable rk" "rk_session rk1 = rk_session rk" "rk_installed rk1 = rk_installed rk"
proof (cases "in_window (rk_frontier rk) (length (rk_ring rk)) g")
  case True
  let ?rk1 = "rk\<lparr>rk_stats := (rk_stats rk)\<lparr>cache_hits := cache_hits (rk_stats rk) + 1\<rparr>\<rparr>"
  show thesis
    by (rule that [of "InWindow (key_salt_at H seed g)" ?rk1])
      (use True in \<open>simp_all add: classify_cases [OF inv] fetch_key_def pending_for_def durable_def\<close>)
next
  case False
  define n where "n = next_gen (rk_frontier rk)"
  have a: "ahead_ok rk g" "n \<le> g" using r False by (auto simp: reachable_gen_def ahead_ok_def n_def)
  let ?D = "derived_keys H seed (max n (Suc g - length (rk_ring rk))) (Suc g)"
  let ?rk1 = "rk\<lparr>rk_stats := (rk_stats rk)
    \<lparr>catchup_steps := catchup_steps (rk_stats rk) + (Suc g - n),
     max_catchup := max (max_catchup (rk_stats rk)) (Suc g - n)\<rparr>\<rparr>"
  have k: "1 \<le> length (rk_ring rk)" by (rule recv_invD(2) [OF inv])
  have "catchup_loop H (length (rk_ring rk)) g (rk_ratchet rk) [] = Done (ratchet_at H seed (Suc g), ?D)"
    unfolding recv_invD(3) [OF inv] n_def [symmetric]
    by (rule catchup_loop_fresh [OF recv_invD(1) [OF inv] k]) (use a in simp)
  moreover have "?D \<noteq> [] \<and> last ?D = (g, key_salt_at H seed g)"
    using a(2) k by (auto simp: derived_keys_def last_map)
  ultimately show thesis
    by (intro that [of "Ahead (Suc g - n)" ?rk1])
      (use a in \<open>simp_all add: classify_cases [OF inv] False fetch_key_def pending_for_def durable_def
         catchup_result_def flip: n_def\<close>)
qed

lemma unprotect_keyed:
  assumes inv: "recv_inv H seed rk" and r: "reachable_gen rk g"
    and len: "12 \<le> length buf"
    and m: "map_generation rk (header_seq buf) (header_timestamp buf) = Done (Inr (g, est))"
    and s: "rk_session rk = single_stream (rk_ssrc rk) d key salt db"
  obtains rk2 where
    "ReceiverKeyManager_unprotect C H rk buf = decrypt_and_finalize C rk2 g est (pending_for H seed rk g) buf"
    "durable rk2 = durable rk" "rk_installed rk2 = Some g"
    "rk_session rk2 = single_stream (rk_ssrc rk) d (gen_key H seed g) (gen_salt H seed g) db"
proof -
  obtain placement rk1 where f: "classify_generation rk g = Done (Inr placement)"
    "fetch_key H rk g placement = Done (rk1, key_salt_at H seed g, pending_for H seed rk g)"
    "durable rk1 = durable rk" "rk_session rk1 = rk_session rk" "rk_installed rk1 = rk_installed rk"
    using fetch_key_reachable [OF inv r] .
  have u: "ReceiverKeyManager_unprotect C H rk buf =
      obind (install_key rk1 g (key_salt_at H seed g)) (\<lambda>rk2.
        decrypt_and_finalize C rk2 g est (pending_for H seed rk g) buf)"
    using len by (simp add: ReceiverKeyManager_unprotect_def RTP_HEADER_LEN_def m f)
  have ss: "rk_ssrc rk1 = rk_ssrc rk" using f(3) by (simp add: durable_def)
  show thesis
  proof (cases "rk_installed rk = Some g")
    case True
    then have "rk_session rk = single_stream (rk_ssrc rk) d (gen_key H seed g) (gen_salt H seed g) db"
      using inv s by (auto simp: recv_inv_def single_stream_def)
    then show thesis using True f u by (intro that [of rk1]) (simp_all add: install_key_def)
  next
    case False
    have l: "length (gen_key H seed g) = 16" "length (gen_salt H seed g) = 12"
      using gen_key_salt_lengths [OF recv_invD(1) [OF inv]] by simp_all
    let ?rk2 = "rk1\<lparr>rk_session := single_stream (rk_ssrc rk) d (gen_key H seed g) (gen_salt H seed g) db,
      rk_installed := Some g, rk_stats := (rk_stats rk1)\<lparr>installs := installs (rk_stats rk1) + 1\<rparr>\<rparr>"
    have "install_key rk1 g (key_salt_at H seed g) = Done ?rk2"
      using False by (simp add: install_key_def f s ss split_key_salt_at single_stream_rekey l)
    then show thesis using u f(3) by (intro that [of ?rk2]) (simp_all add: durable_def)
  qed
qed

lemma unprotect_unkeyed:
  assumes inv: "recv_inv H seed rk" and r: "\<not> reachable_gen rk g"
    and len: "12 \<le> length buf"
    and m: "map_generation rk (header_seq buf) (header_timestamp buf) = Done (Inr (g, est))"
  shows "ReceiverKeyManager_unprotect C H rk buf =
    (let d = if g < next_gen (rk_frontier rk) then BehindWindow else SeekCapExceeded
     in Done (count_drop d rk, buf, Inl d))"
  using r len by (simp add: ReceiverKeyManager_unprotect_def RTP_HEADER_LEN_def m classify_cases [OF inv]
      reachable_gen_def Let_def)

section \<open>Every packet keeps the invariant\<close>

lemma count_drop_state [simp]:
  "durable (count_drop d rk) = durable rk" "rk_session (count_drop d rk) = rk_session rk"
  "rk_installed (count_drop d rk) = rk_installed rk" "rk_frontier (count_drop d rk) = rk_frontier rk"
  "rk_ring (count_drop d rk) = rk_ring rk" "rk_ssrc (count_drop d rk) = rk_ssrc rk"
  by (simp_all add: count_drop_def durable_def)

lemma count_wasted_state [simp]:
  "durable (count_wasted p rk) = durable rk" "rk_session (count_wasted p rk) = rk_session rk"
  "rk_installed (count_wasted p rk) = rk_installed rk"
  by (simp_all add: count_wasted_def durable_def split: option.splits)

lemma durableD:
  assumes "durable rk' = durable rk"
  shows "rk_ssrc rk' = rk_ssrc rk" "rk_scheme rk' = rk_scheme rk" "rk_recovery rk' = rk_recovery rk"
    "rk_ratchet rk' = rk_ratchet rk" "rk_ring rk' = rk_ring rk" "rk_frontier rk' = rk_frontier rk"
    "rk_seek_cap rk' = rk_seek_cap rk"
  using assms by (simp_all add: durable_def)

lemma recv_inv_cong:
  assumes "recv_inv H seed rk" and "durable rk' = durable rk"
    and "rk_session rk' = single_stream (rk_ssrc rk) d (gen_key H seed g) (gen_salt H seed g) db"
    and "rk_installed rk' = Some g" and "rdbx_wf db"
  shows "recv_inv H seed rk'"
  using assms(1,3-5) durableD [OF assms(2)] by (auto simp: recv_inv_def)

lemma recv_inv_count_drop: "recv_inv H seed rk \<Longrightarrow> recv_inv H seed (count_drop d rk)"
  by (simp add: recv_inv_def count_drop_def)

lemma recv_inv_session:
  assumes "recv_inv H seed rk"
  obtains d key salt db where "rk_session rk = single_stream (rk_ssrc rk) d key salt db" and "rdbx_wf db"
  using assms by (auto simp: recv_inv_def)

lemma adopt_inv:
  assumes inv: "recv_inv H seed rk" and dur: "durable rk2 = durable rk" and r: "reachable_gen rk g"
    and s: "rk_session rk2 = single_stream (rk_ssrc rk) d (gen_key H seed g) (gen_salt H seed g) db"
    and i: "rk_installed rk2 = Some g" and wf: "rdbx_wf db"
  shows "recv_inv H seed (adopt_catchup g (pending_for H seed rk g) rk2)"
    and "rk_frontier (adopt_catchup g (pending_for H seed rk g) rk2) =
      Some (case rk_frontier rk of None \<Rightarrow> g | Some f \<Rightarrow> max f g)"
    and "in_window (rk_frontier (adopt_catchup g (pending_for H seed rk g) rk2)) (length (rk_ring rk)) g"
    and "rk_recovery (adopt_catchup g (pending_for H seed rk g) rk2) = rk_recovery rk"
proof -
  note D = durableD [OF dur]
  have "recv_inv H seed (adopt_catchup g (pending_for H seed rk g) rk2) \<and>
    rk_frontier (adopt_catchup g (pending_for H seed rk g) rk2) =
      Some (case rk_frontier rk of None \<Rightarrow> g | Some f \<Rightarrow> max f g) \<and>
    in_window (rk_frontier (adopt_catchup g (pending_for H seed rk g) rk2)) (length (rk_ring rk)) g"
  proof (cases "in_window (rk_frontier rk) (length (rk_ring rk)) g")
    case True
    then have "recv_inv H seed rk2" using recv_inv_cong [OF inv dur s i wf] by blast
    then show ?thesis using True D
      by (auto simp: pending_for_def adopt_catchup_def in_window_def split: option.splits)
  next
    case False
    then have a: "next_gen (rk_frontier rk) \<le> g" using r by (simp add: reachable_gen_def ahead_ok_def)
    have "recv_inv H seed rk2" by (rule recv_inv_cong [OF inv dur s i wf])
    then show ?thesis
      using False D a ring_ok_advance [OF recv_invD(4,2) [OF inv] a] recv_invD(2) [OF inv]
      by (auto simp: pending_for_def adopt_catchup_def catchup_result_def recv_inv_def next_gen_def
          in_window_def split: option.splits)
  qed
  then show "recv_inv H seed (adopt_catchup g (pending_for H seed rk g) rk2)"
    and "rk_frontier (adopt_catchup g (pending_for H seed rk g) rk2) =
      Some (case rk_frontier rk of None \<Rightarrow> g | Some f \<Rightarrow> max f g)"
    and "in_window (rk_frontier (adopt_catchup g (pending_for H seed rk g) rk2)) (length (rk_ring rk)) g"
    by blast+
  show "rk_recovery (adopt_catchup g (pending_for H seed rk g) rk2) = rk_recovery rk"
    using D by (simp add: adopt_catchup_def split: option.splits)
qed

text \<open>
  The two ways a packet can go, with what happened to the state. \<open>drop\<close>: nothing but counters
  moved and no key was touched. \<open>keyed\<close>: the session decrypted (or failed to) under the key of the
  generation the header maps to.
\<close>

lemma unprotect_split:
  assumes inv: "recv_inv H seed rk" and u: "ReceiverKeyManager_unprotect C H rk buf = Done (rk', buf', res)"
  obtains (drop) d where "rk' = count_drop d rk" "buf' = buf" "res = Inl d"
  | (keyed) g est rk2 d key salt db where
      "12 \<le> length buf" "map_generation rk (header_seq buf) (header_timestamp buf) = Done (Inr (g, est))"
      "reachable_gen rk g" "rk_session rk = single_stream (rk_ssrc rk) d key salt db" "rdbx_wf db"
      "decrypt_and_finalize C rk2 g est (pending_for H seed rk g) buf = Done (rk', buf', res)"
      "durable rk2 = durable rk" "rk_installed rk2 = Some g"
      "rk_session rk2 = single_stream (rk_ssrc rk) d (gen_key H seed g) (gen_salt H seed g) db"
proof (cases "12 \<le> length buf")
  case False
  then show thesis using u drop by (auto simp: ReceiverKeyManager_unprotect_def RTP_HEADER_LEN_def)
next
  case len: True
  from u len obtain mapped where m: "map_generation rk (header_seq buf) (header_timestamp buf) = Done mapped"
    by (auto simp: ReceiverKeyManager_unprotect_def RTP_HEADER_LEN_def outcome_simps)
  show thesis
  proof (cases mapped)
    case (Inl d)
    then show thesis using u len m drop by (auto simp: ReceiverKeyManager_unprotect_def RTP_HEADER_LEN_def)
  next
    case (Inr ge)
    then obtain g est where ge: "mapped = Inr (g, est)" by (cases ge) auto
    note m = m [unfolded ge]
    obtain d key salt db where s: "rk_session rk = single_stream (rk_ssrc rk) d key salt db" "rdbx_wf db"
      using recv_inv_session [OF inv] .
    show thesis
    proof (cases "reachable_gen rk g")
      case True
      from unprotect_keyed [OF inv True len m s(1), of C] obtain rk2 where
        "ReceiverKeyManager_unprotect C H rk buf = decrypt_and_finalize C rk2 g est (pending_for H seed rk g) buf"
        "durable rk2 = durable rk" "rk_installed rk2 = Some g"
        "rk_session rk2 = single_stream (rk_ssrc rk) d (gen_key H seed g) (gen_salt H seed g) db" .
      then show thesis using u by (intro keyed [OF len m True s]) simp_all
    next
      case False
      show thesis using unprotect_unkeyed [OF inv False len m, of C] u drop by (auto simp: Let_def)
    qed
  qed
qed

lemma finalize_cases:
  assumes f: "decrypt_and_finalize C rk2 g est pending buf = Done (rk', buf', res)"
    and s: "rk_session rk2 = single_stream ssrc d key salt db"
  shows "(\<exists>dr. res = Inl dr \<and> durable rk' = durable rk2 \<and> rk_installed rk' = rk_installed rk2 \<and>
       rk_session rk' = rk_session rk2 \<and> (dr = SrtpReplay \<or> dr = AuthFail) \<and>
       rk' = count_drop dr (count_wasted pending rk2)) \<or>
    (res = Inr g \<and> header_ssrc buf = ssrc \<and> \<not> rdbx_blocked db (rdbx_pos db (header_seq buf)) \<and>
     (\<exists>sess d'. SessionRef_unprotect C (rk_session rk2) buf = (sess, buf', Inr ()) \<and>
       sess = single_stream ssrc d' key salt (rdbx_add db (rdbx_pos db (header_seq buf))) \<and>
       rk' = (let a = adopt_catchup g pending (rk2\<lparr>rk_session := sess\<rparr>) in
         a\<lparr>rk_recovery := (case est of None \<Rightarrow> rk_recovery a | Some i \<Rightarrow> IndexRecovery_update (rk_recovery a) i),
           rk_stats := (rk_stats a)\<lparr>decrypted := decrypted (rk_stats a) + 1\<rparr>\<rparr>)))"
proof -
  obtain sess b r where u: "SessionRef_unprotect C (rk_session rk2) buf = (sess, b, r)"
    by (cases "SessionRef_unprotect C (rk_session rk2) buf") auto
  note c = unprotect_single_cases [OF u [unfolded s]]
  show ?thesis
  proof (cases r)
    case (Inl e)
    then have ss: "sess = rk_session rk2" using c s by auto
    then have "rk2\<lparr>rk_session := sess\<rparr> = rk2" by simp
    then show ?thesis using f Inl
      by (auto simp: decrypt_and_finalize_def u Let_def split: if_splits)
  next
    case (Inr x)
    then show ?thesis using f c
      by (auto simp: decrypt_and_finalize_def u Let_def split: option.splits)
  qed
qed

lemma unprotect_drop:
  assumes inv: "recv_inv H seed rk" and u: "ReceiverKeyManager_unprotect C H rk buf = Done (rk', buf', Inl dr)"
  shows "recv_inv H seed rk' \<and> durable rk' = durable rk \<and>
    session_rdbx (rk_session rk') = session_rdbx (rk_session rk)"
proof (cases rule: unprotect_split [OF inv u])
  case (1 d)
  then show ?thesis by (simp add: recv_inv_count_drop inv)
next
  case (2 g est rk2 d key salt db)
  from finalize_cases [OF 2(6,9)]
  have r: "durable rk' = durable rk2" "rk_installed rk' = rk_installed rk2" "rk_session rk' = rk_session rk2"
    by auto
  have "recv_inv H seed rk'"
    by (rule recv_inv_cong [OF inv, of rk' d g db]) (use 2 r in simp_all)
  then show ?thesis using 2 r by simp
qed

lemma unprotect_accept:
  assumes inv: "recv_inv H seed rk" and u: "ReceiverKeyManager_unprotect C H rk buf = Done (rk', buf', Inr g)"
  obtains est d key salt db d' where
    "map_generation rk (header_seq buf) (header_timestamp buf) = Done (Inr (g, est))"
    "reachable_gen rk g" "header_ssrc buf = rk_ssrc rk"
    "rk_session rk = single_stream (rk_ssrc rk) d key salt db"
    "\<not> rdbx_blocked db (rdbx_pos db (header_seq buf))"
    "SessionRef_unprotect C (single_stream (rk_ssrc rk) d (gen_key H seed g) (gen_salt H seed g) db) buf =
       (rk_session rk', buf', Inr ())"
    "rk_session rk' = single_stream (rk_ssrc rk) d' (gen_key H seed g) (gen_salt H seed g)
       (rdbx_add db (rdbx_pos db (header_seq buf)))"
    "recv_inv H seed rk'" "rk_installed rk' = Some g"
    "rk_frontier rk' = Some (case rk_frontier rk of None \<Rightarrow> g | Some f \<Rightarrow> max f g)"
    "in_window (rk_frontier rk') (length (rk_ring rk)) g"
    "rk_recovery rk' = (case est of None \<Rightarrow> rk_recovery rk | Some i \<Rightarrow> IndexRecovery_update (rk_recovery rk) i)"
    "rk_ssrc rk' = rk_ssrc rk" "rk_scheme rk' = rk_scheme rk" "rk_seek_cap rk' = rk_seek_cap rk"
    "length (rk_ring rk') = length (rk_ring rk)"
proof (cases rule: unprotect_split [OF inv u])
  case (2 g2 est rk2 d key salt db)
  from finalize_cases [OF 2(6,9)] obtain sess d' where g: "g2 = g" and h: "header_ssrc buf = rk_ssrc rk"
    and nb: "\<not> rdbx_blocked db (rdbx_pos db (header_seq buf))"
    and su: "SessionRef_unprotect C (rk_session rk2) buf = (sess, buf', Inr ())"
    and se: "sess = single_stream (rk_ssrc rk) d' (gen_key H seed g) (gen_salt H seed g)
       (rdbx_add db (rdbx_pos db (header_seq buf)))"
    and rk': "rk' = (let a = adopt_catchup g (pending_for H seed rk g) (rk2\<lparr>rk_session := sess\<rparr>) in
         a\<lparr>rk_recovery := (case est of None \<Rightarrow> rk_recovery a | Some i \<Rightarrow> IndexRecovery_update (rk_recovery a) i),
           rk_stats := (rk_stats a)\<lparr>decrypted := decrypted (rk_stats a) + 1\<rparr>\<rparr>)"
    by auto
  define rk3 where "rk3 = rk2\<lparr>rk_session := sess\<rparr>"
  define a where "a = adopt_catchup g (pending_for H seed rk g) rk3"
  have wf: "rdbx_wf (rdbx_add db (rdbx_pos db (header_seq buf)))"
    by (rule rdbx_add_wf(1) [OF 2(5) rdbx_pos_less nb])
  have 3: "durable rk3 = durable rk" "rk_installed rk3 = Some g" "rk_session rk3 = sess"
    using 2(7,8) g by (simp_all add: rk3_def durable_def)
  note A = adopt_inv [OF inv 3(1) 2(3) [unfolded g] 3(3) [unfolded se] 3(2) wf, folded a_def]
  have a: "rk_session a = sess" "rk_installed a = Some g" "rk_ssrc a = rk_ssrc rk" "rk_scheme a = rk_scheme rk"
    "rk_seek_cap a = rk_seek_cap rk" "length (rk_ring a) = length (rk_ring rk)"
    using 3 durableD [OF 3(1)] by (simp_all add: a_def adopt_catchup_def split: option.splits)
  have r: "rk' = a\<lparr>rk_recovery := (case est of None \<Rightarrow> rk_recovery rk | Some i \<Rightarrow> IndexRecovery_update (rk_recovery rk) i),
           rk_stats := (rk_stats a)\<lparr>decrypted := decrypted (rk_stats a) + 1\<rparr>\<rparr>"
    unfolding rk' Let_def rk3_def [symmetric] a_def [symmetric] A(4) ..
  show thesis
    by (rule that [OF _ _ h 2(4) nb, of est d'])
      (use 2(2,3,9) g su se A a in \<open>simp_all add: r recv_inv_def\<close>)
qed simp

section \<open>A new receiver\<close>

definition window_bits :: "nat \<Rightarrow> nat" where
  "window_bits replay_window = ((if replay_window = 0 then 128 else replay_window) + 31) div 32 * 32"

lemma new_receiver:
  assumes "ratchet_ok H seed" and "1 \<le> k" and "replay_window = 0 \<or> 64 \<le> replay_window \<and> replay_window < 0x8000"
  obtains rk key salt where "ReceiverKeyManager_new C scheme ssrc (ratchet_at H seed 0) k cap replay_window = Done rk"
    and "recv_inv H seed rk" "rk_frontier rk = None" "length (rk_ring rk) = k" "rk_ssrc rk = ssrc"
    "rk_scheme rk = scheme" "rk_seek_cap rk = cap" "rk_recovery rk = IndexRecovery_default"
    "rk_session rk = single_stream ssrc dir_unknown key salt
       (srtp_rdbx_init (if replay_window = 0 then 128 else replay_window))"
    "rk_stats rk = RecvStats_default" "rk_installed rk = None"
proof -
  let ?w = "if replay_window = 0 then 128 else replay_window"
  let ?p = "\<lparr> sp_key = replicate 28 0, sp_window_size = replay_window, sp_allow_repeat_tx = False \<rparr>"
  let ?s = "single_stream ssrc dir_unknown (fst (srtp_kdf C (replicate 28 0)))
    (snd (srtp_kdf C (replicate 28 0))) (srtp_rdbx_init ?w)"
  have a: "SessionRef_add_stream C Session_new ssrc ?p = (?s, Inr ())"
    using assms(3) by (auto simp: SessionRef_add_stream_def StreamPolicy_sys_policy_def srtp_stream_init_def
        srtp_stream_list_insert_def Session_new_def single_stream_def)
  let ?rk = "\<lparr> rk_session = ?s, rk_ssrc = ssrc, rk_scheme = scheme, rk_recovery = IndexRecovery_default,
    rk_ratchet = ratchet_at H seed 0, rk_ring = replicate k None, rk_frontier = None, rk_installed = None,
    rk_seek_cap = cap, rk_stats = RecvStats_default \<rparr>"
  have "ReceiverKeyManager_new C scheme ssrc (ratchet_at H seed 0) k cap replay_window = Done ?rk"
    using assms(2) a by (simp add: ReceiverKeyManager_new_def)
  moreover have "rdbx_wf (srtp_rdbx_init ?w)" using assms(3) by (intro rdbx_init_wf) auto
  then have "recv_inv H seed ?rk"
    unfolding recv_inv_def using assms(1,2)
    by (intro conjI exI [of _ dir_unknown] exI [of _ "fst (srtp_kdf C (replicate 28 0))"]
        exI [of _ "snd (srtp_kdf C (replicate 28 0))"] exI [of _ "srtp_rdbx_init ?w"])
      (simp_all add: next_gen_def ring_ok_def in_window_def)
  ultimately show thesis by (rule that) simp_all
qed

section \<open>Which packets can panic\<close>

text \<open>
  \<open>scheme_ok\<close>: the scheme's divisor is not zero. A packet reaches libsrtp's error branch
  \<open>panic!\<close> exactly when libsrtp reports something other than a replay or a failed tag.
\<close>

definition scheme_ok :: "GenerationScheme \<Rightarrow> bool" where
  "scheme_ok sch = (case sch of
     Scheme_EpochOnly \<Rightarrow> True | Scheme_Frame st period \<Rightarrow> period \<noteq> 0 | Scheme_Packet b \<Rightarrow> True
   | Scheme_EveryN b n \<Rightarrow> n \<noteq> 0)"

lemma map_generation_total: "scheme_ok (rk_scheme rk) \<Longrightarrow> \<exists>m. map_generation rk q ts = Done m"
  by (auto simp: map_generation_def scheme_ok_def frame_generation_def Let_def
      split: GenerationScheme.splits option.splits)

lemma unprotect_panics_only_explicit:
  assumes inv: "recv_inv H seed rk" and sch: "scheme_ok (rk_scheme rk)"
    and p: "ReceiverKeyManager_unprotect C H rk buf = Panic e"
  shows "e = ExplicitPanic"
proof -
  have len: "12 \<le> length buf"
    using p by (auto simp: ReceiverKeyManager_unprotect_def RTP_HEADER_LEN_def split: if_splits)
  obtain mapped where m: "map_generation rk (header_seq buf) (header_timestamp buf) = Done mapped"
    using map_generation_total [OF sch] by blast
  show ?thesis
  proof (cases mapped)
    case (Inl d)
    then show ?thesis using p len m by (simp add: ReceiverKeyManager_unprotect_def RTP_HEADER_LEN_def)
  next
    case (Inr ge)
    then obtain g est where ge: "mapped = Inr (g, est)" by (cases ge) auto
    note m = m [unfolded ge]
    obtain d key salt db where s: "rk_session rk = single_stream (rk_ssrc rk) d key salt db"
      using recv_inv_session [OF inv] .
    show ?thesis
    proof (cases "reachable_gen rk g")
      case True
      obtain rk2 where
        "ReceiverKeyManager_unprotect C H rk buf = decrypt_and_finalize C rk2 g est (pending_for H seed rk g) buf"
        using unprotect_keyed [OF inv True len m s, of C] by blast
      then show ?thesis using p by (auto simp: decrypt_and_finalize_def Let_def split: prod.splits sum.splits if_splits)
    next
      case False
      show ?thesis using unprotect_unkeyed [OF inv False len m, of C] p by (simp add: Let_def)
    qed
  qed
qed

lemma unprotect_no_panic:
  assumes inv: "recv_inv H seed rk" and sch: "scheme_ok (rk_scheme rk)"
    and pkt: "length buf < 12 \<or> plain_header buf \<and> 28 \<le> length buf \<and> length buf < 2 ^ 31 \<and> header_ssrc buf = rk_ssrc rk"
  shows "\<exists>rk' buf' res. ReceiverKeyManager_unprotect C H rk buf = Done (rk', buf', res)"
proof (cases "12 \<le> length buf")
  case False
  then show ?thesis by (simp add: ReceiverKeyManager_unprotect_def RTP_HEADER_LEN_def)
next
  case len: True
  with pkt have pl: "plain_header buf" "28 \<le> length buf" "length buf < 2 ^ 31" "header_ssrc buf = rk_ssrc rk" by auto
  obtain mapped where m: "map_generation rk (header_seq buf) (header_timestamp buf) = Done mapped"
    using map_generation_total [OF sch] by blast
  show ?thesis
  proof (cases mapped)
    case (Inl d)
    then show ?thesis using len m by (simp add: ReceiverKeyManager_unprotect_def RTP_HEADER_LEN_def)
  next
    case (Inr ge)
    then obtain g est where ge: "mapped = Inr (g, est)" by (cases ge) auto
    note m = m [unfolded ge]
    obtain d key salt db where s: "rk_session rk = single_stream (rk_ssrc rk) d key salt db"
      using recv_inv_session [OF inv] .
    show ?thesis
    proof (cases "reachable_gen rk g")
      case True
      obtain rk2 where u:
        "ReceiverKeyManager_unprotect C H rk buf = decrypt_and_finalize C rk2 g est (pending_for H seed rk g) buf"
        and s2: "rk_session rk2 = single_stream (rk_ssrc rk) d (gen_key H seed g) (gen_salt H seed g) db"
        using unprotect_keyed [OF inv True len m s, of C] .
      show ?thesis unfolding u decrypt_and_finalize_def s2 using pl
        by (auto simp: single_stream_unprotect Let_def replay_error_def split: option.splits)
    next
      case False
      show ?thesis using unprotect_unkeyed [OF inv False len m, of C] by (simp add: Let_def)
    qed
  qed
qed

section \<open>Delivery of genuine packets\<close>

lemma genuine_delivered:
  assumes inv: "recv_inv H seed rk" and C: "crypto_sound C" and r: "reachable_gen rk g"
    and pkt: "plain_header pkt" "length pkt + 16 < 2 ^ 31" "header_ssrc pkt = rk_ssrc rk"
    and m: "map_generation rk (header_seq pkt) (header_timestamp pkt) = Done (Inr (g, est))"
    and i: "rdbx_est (session_rdbx (rk_session rk)) (header_seq pkt) = i"
    and nb: "\<not> rdbx_blocked (session_rdbx (rk_session rk)) (rdbx_pos (session_rdbx (rk_session rk)) (header_seq pkt))"
  shows "\<exists>rk'. ReceiverKeyManager_unprotect C H rk (seal_packet C (gen_key H seed g) (gen_salt H seed g) i pkt) =
    Done (rk', pkt, Inr g)"
proof -
  let ?S = "seal_packet C (gen_key H seed g) (gen_salt H seed g) i pkt"
  obtain d key salt db where s: "rk_session rk = single_stream (rk_ssrc rk) d key salt db"
    using recv_inv_session [OF inv] .
  note l = gen_key_salt_lengths [OF recv_invD(1) [OF inv], of g]
  note h = seal_packet_header [OF pkt(1), of C "gen_key H seed g" "gen_salt H seed g" i]
  have len: "12 \<le> length ?S" using h(2) by (simp add: plain_header_def)
  have m': "map_generation rk (header_seq ?S) (header_timestamp ?S) = Done (Inr (g, est))" by (simp add: h m)
  obtain rk2 where u: "ReceiverKeyManager_unprotect C H rk ?S = decrypt_and_finalize C rk2 g est (pending_for H seed rk g) ?S"
    and s2: "rk_session rk2 = single_stream (rk_ssrc rk) d (gen_key H seed g) (gen_salt H seed g) db"
    using unprotect_keyed [OF inv r len m' s, of C] .
  have "SessionRef_unprotect C (rk_session rk2) ?S =
      (single_stream (rk_ssrc rk) (sets_direction dir_srtp_receiver d) (gen_key H seed g) (gen_salt H seed g)
         (rdbx_add db (rdbx_pos db (header_seq pkt))), pkt, Inr ())"
    unfolding s2 pkt(3) [symmetric]
    by (rule single_stream_unprotect_seal [OF C _ _ pkt(1,2)]) (use l i nb in \<open>simp_all add: s\<close>)
  then show ?thesis unfolding u by (simp add: decrypt_and_finalize_def Let_def)
qed

section \<open>Replay protection of the whole receiver\<close>

text \<open>The position a delivered packet occupies, as libsrtp's database records it.\<close>

definition receiver_step ::
  "srtp_crypto \<Rightarrow> hkdf \<Rightarrow> ReceiverKeyManager \<Rightarrow> bytes \<Rightarrow> ReceiverKeyManager \<times> nat option" where
  "receiver_step C H rk buf =
     (case ReceiverKeyManager_unprotect C H rk buf of
        Panic _ \<Rightarrow> (rk, None)
      | Done (rk', _, Inl _) \<Rightarrow> (rk', None)
      | Done (rk', _, Inr _) \<Rightarrow> (rk', Some (rdbx_pos (session_rdbx (rk_session rk)) (header_seq buf))))"

lemma receiver_step_inv:
  assumes inv: "recv_inv H seed rk" and st: "receiver_step C H rk buf = (rk', out)"
  shows "recv_inv H seed rk' \<and>
    (case out of
       None \<Rightarrow> session_rdbx (rk_session rk') = session_rdbx (rk_session rk)
     | Some j \<Rightarrow> (\<exists>q. j = rdbx_pos (session_rdbx (rk_session rk)) q) \<and>
         \<not> rdbx_blocked (session_rdbx (rk_session rk)) j \<and>
         session_rdbx (rk_session rk') = rdbx_add (session_rdbx (rk_session rk)) j)"
proof (cases "ReceiverKeyManager_unprotect C H rk buf")
  case (Panic e)
  then show ?thesis using st inv by (auto simp: receiver_step_def)
next
  case (Done x)
  then obtain rk1 b res where u: "ReceiverKeyManager_unprotect C H rk buf = Done (rk1, b, res)" by (cases x) auto
  show ?thesis
  proof (cases res)
    case (Inl d)
    then show ?thesis using st u unprotect_drop [OF inv] by (auto simp: receiver_step_def)
  next
    case (Inr g)
    note ua = u [unfolded Inr]
    from ua st have o: "rk' = rk1" "out = Some (rdbx_pos (session_rdbx (rk_session rk)) (header_seq buf))"
      by (auto simp: receiver_step_def)
    show ?thesis
      by (rule unprotect_accept [OF inv ua]) (auto simp: o)
  qed
qed

interpretation receiver_replay: media_session rdbx_pos rdbx_blocked rdbx_add rdbx_wf
  "receiver_step C H" "\<lambda>rk. session_rdbx (rk_session rk)" "recv_inv H seed" for C H seed
  by unfold_locales (auto dest: receiver_step_inv)

section \<open>Accounting\<close>

definition drops :: "RecvStats \<Rightarrow> nat" where
  "drops st = drops_behind st + drops_seek_cap st + drops_replay st + drops_auth st"

definition handled :: "RecvStats \<Rightarrow> nat" where
  "handled st = decrypted st + drops st"

lemma count_drop_handled: "handled (rk_stats (count_drop d rk)) = Suc (handled (rk_stats rk))"
  by (cases d) (simp_all add: count_drop_def handled_def drops_def)

lemma fetch_key_handled:
  "fetch_key H rk g pl = Done (rk1, ks, pend) \<Longrightarrow> handled (rk_stats rk1) = handled (rk_stats rk)"
  by (auto simp: fetch_key_def handled_def drops_def outcome_simps split: Placement.splits)

lemma install_key_handled:
  "install_key rk g ks = Done rk1 \<Longrightarrow> handled (rk_stats rk1) = handled (rk_stats rk)"
  by (auto simp: install_key_def handled_def drops_def outcome_simps Let_def split: if_splits prod.splits)

lemma finalize_handled:
  assumes "decrypt_and_finalize C rk g est pending buf = Done (rk', buf', res)"
  shows "handled (rk_stats rk') = Suc (handled (rk_stats rk))"
proof -
  obtain sess b r where u: "SessionRef_unprotect C (rk_session rk) buf = (sess, b, r)"
    by (cases "SessionRef_unprotect C (rk_session rk) buf") auto
  have w: "handled (rk_stats (count_wasted pending rk0)) = handled (rk_stats rk0)" for rk0
    by (simp add: count_wasted_def handled_def drops_def split: option.splits)
  have a: "rk_stats (adopt_catchup g pending rk0) = rk_stats rk0" for rk0
    by (simp add: adopt_catchup_def split: option.splits)
  show ?thesis
  proof (cases r)
    case (Inl e)
    then show ?thesis using assms
      by (auto simp: decrypt_and_finalize_def u Let_def count_drop_handled w split: if_splits)
  next
    case (Inr x)
    then show ?thesis using assms
      by (cases est) (auto simp: decrypt_and_finalize_def u Let_def a handled_def drops_def)
  qed
qed

lemma unprotect_phases:
  assumes u: "ReceiverKeyManager_unprotect C H rk buf = Done (rk', out)"
  obtains (dropped) d where "rk' = count_drop d rk" "out = (buf, Inl d)"
  | (decrypting) g est pl rk1 ks pending rk2 where "classify_generation rk g = Done (Inr pl)"
      "fetch_key H rk g pl = Done (rk1, ks, pending)" "install_key rk1 g ks = Done rk2"
      "decrypt_and_finalize C rk2 g est pending buf = Done (rk', out)"
proof (cases "length buf < RTP_HEADER_LEN")
  case True
  then show thesis using u dropped by (auto simp: ReceiverKeyManager_unprotect_def)
next
  case len: False
  then obtain mapped where m: "map_generation rk (header_seq buf) (header_timestamp buf) = Done mapped"
    using u by (auto simp: ReceiverKeyManager_unprotect_def outcome_simps)
  note U = u [unfolded ReceiverKeyManager_unprotect_def m]
  show thesis
  proof (cases mapped)
    case (Inl d)
    then show thesis using U len dropped by auto
  next
    case (Inr ge)
    then obtain g est where ge: "mapped = Inr (g, est)" by (cases ge) auto
    obtain placed where p: "classify_generation rk g = Done placed"
      using U len ge by (auto simp: outcome_simps)
    show thesis
    proof (cases placed)
      case (Inl d)
      then show thesis using U len ge p dropped by auto
    next
      case (Inr pl)
      then show thesis using U len ge p by (auto simp: outcome_simps intro: decrypting)
    qed
  qed
qed

lemma unprotect_handled:
  assumes "ReceiverKeyManager_unprotect C H rk buf = Done (rk', out)"
  shows "handled (rk_stats rk') = Suc (handled (rk_stats rk))"
  using assms
proof (cases rule: unprotect_phases)
  case (dropped d)
  then show ?thesis by (simp add: count_drop_handled)
next
  case decrypting
  then show ?thesis
    using finalize_handled [of C _ _ _ _ _ rk' "fst out" "snd out"] by (auto dest!: install_key_handled fetch_key_handled)
qed

section \<open>Runs of a receiver\<close>

lemma new_receiver_inv:
  assumes "ratchet_ok H seed"
    and "ReceiverKeyManager_new C scheme ssrc (ratchet_at H seed 0) k cap w = Done rk"
  shows "recv_inv H seed rk" and "length (rk_ring rk) = k" and "rk_seek_cap rk = cap" and "rk_ssrc rk = ssrc"
    and "rk_stats rk = RecvStats_default" and "rk_scheme rk = scheme" and "rk_frontier rk = None"
proof -
  have k: "1 \<le> k" using assms(2) by (auto simp: ReceiverKeyManager_new_def outcome_simps)
  have "w = 0 \<or> 64 \<le> w \<and> w < 0x8000"
  proof (rule ccontr)
    assume "\<not> ?thesis"
    then show False using assms(2) k
      by (simp add: ReceiverKeyManager_new_def SessionRef_add_stream_def StreamPolicy_sys_policy_def
          srtp_stream_init_def not_le not_less Let_def split: if_splits)
  qed
  from new_receiver [OF assms(1) k \<open>w = 0 \<or> _\<close>, of C scheme ssrc cap] obtain rk0 where
    "ReceiverKeyManager_new C scheme ssrc (ratchet_at H seed 0) k cap w = Done rk0"
    "recv_inv H seed rk0" "length (rk_ring rk0) = k" "rk_seek_cap rk0 = cap" "rk_ssrc rk0 = ssrc"
    "rk_stats rk0 = RecvStats_default" "rk_scheme rk0 = scheme" "rk_frontier rk0 = None" by blast
  with assms(2) show "recv_inv H seed rk" "length (rk_ring rk) = k" "rk_seek_cap rk = cap" "rk_ssrc rk = ssrc"
    "rk_stats rk = RecvStats_default" "rk_scheme rk = scheme" "rk_frontier rk = None" by simp_all
qed

definition same_settings :: "ReceiverKeyManager \<Rightarrow> ReceiverKeyManager \<Rightarrow> bool" where
  "same_settings rk rk' \<longleftrightarrow> rk_ssrc rk' = rk_ssrc rk \<and> rk_scheme rk' = rk_scheme rk \<and>
     rk_seek_cap rk' = rk_seek_cap rk \<and> length (rk_ring rk') = length (rk_ring rk)"

lemma unprotect_inv:
  assumes inv: "recv_inv H seed rk" and u: "ReceiverKeyManager_unprotect C H rk buf = Done (rk', out)"
  shows "recv_inv H seed rk' \<and> same_settings rk rk'"
proof (cases "snd out")
  case (Inl d)
  then have "ReceiverKeyManager_unprotect C H rk buf = Done (rk', fst out, Inl d)" using u by (cases out) simp
  from unprotect_drop [OF inv this] durableD [of rk' rk] show ?thesis by (simp add: same_settings_def)
next
  case (Inr g)
  then have "ReceiverKeyManager_unprotect C H rk buf = Done (rk', fst out, Inr g)" using u by (cases out) simp
  then show ?thesis by (rule unprotect_accept [OF inv]) (simp add: same_settings_def)
qed

lemma run_inv:
  assumes "recv_inv H seed rk" and "run_steps (ReceiverKeyManager_unprotect C H) rk bufs = Done (rk', outs)"
  shows "recv_inv H seed rk' \<and> same_settings rk rk'"
proof (rule run_steps_invariant [where I = "\<lambda>rk'. recv_inv H seed rk' \<and> same_settings rk rk'", OF _ _ assms(2)])
  show "recv_inv H seed rk \<and> same_settings rk rk" using assms(1) by (simp add: same_settings_def)
next
  fix s x s' y
  assume a: "recv_inv H seed s \<and> same_settings rk s" and u: "ReceiverKeyManager_unprotect C H s x = Done (s', y)"
  show "recv_inv H seed s' \<and> same_settings rk s'"
    using unprotect_inv [OF conjunct1 [OF a] u] a by (simp add: same_settings_def)
qed

lemma run_handled:
  "run_steps (ReceiverKeyManager_unprotect C H) rk bufs = Done (rk', outs) \<Longrightarrow>
     handled (rk_stats rk') = handled (rk_stats rk) + length bufs"
proof (induction bufs arbitrary: rk outs)
  case Nil
  then show ?case by simp
next
  case (Cons b bufs)
  then obtain rk1 o1 os where u: "ReceiverKeyManager_unprotect C H rk b = Done (rk1, o1)"
    and r: "run_steps (ReceiverKeyManager_unprotect C H) rk1 bufs = Done (rk', os)"
    by (auto simp: outcome_simps)
  have "handled (rk_stats rk1) = Suc (handled (rk_stats rk))"
    using unprotect_handled [OF u] .
  then show ?case using Cons.IH [OF r] by simp
qed

section \<open>Catch-up work\<close>

definition work_bound :: "nat \<Rightarrow> RecvStats \<Rightarrow> RecvStats \<Rightarrow> bool" where
  "work_bound cap st st' \<longleftrightarrow> catchup_steps st' \<le> catchup_steps st + cap \<and>
     catchup_steps_wasted st' + catchup_steps st \<le> catchup_steps_wasted st + catchup_steps st' \<and>
     max_catchup st' \<le> max (max_catchup st) cap"

lemma work_bound_same:
  assumes "catchup_steps st' = catchup_steps st" and "catchup_steps_wasted st' = catchup_steps_wasted st"
    and "max_catchup st' = max_catchup st"
  shows "work_bound cap st st'"
  using assms by (simp add: work_bound_def)

lemma count_drop_work [simp]:
  "catchup_steps (rk_stats (count_drop d rk)) = catchup_steps (rk_stats rk)"
  "catchup_steps_wasted (rk_stats (count_drop d rk)) = catchup_steps_wasted (rk_stats rk)"
  "max_catchup (rk_stats (count_drop d rk)) = max_catchup (rk_stats rk)"
  by (cases d; simp add: count_drop_def)+

lemma finalize_work:
  assumes "decrypt_and_finalize C rk g est pending buf = Done (rk', out)"
  shows "catchup_steps (rk_stats rk') = catchup_steps (rk_stats rk)"
    and "max_catchup (rk_stats rk') = max_catchup (rk_stats rk)"
    and "catchup_steps_wasted (rk_stats rk') \<le>
      catchup_steps_wasted (rk_stats rk) + (case pending of None \<Rightarrow> 0 | Some p \<Rightarrow> pc_jump p)"
  using assms by (auto simp: decrypt_and_finalize_def Let_def count_wasted_def adopt_catchup_def
      split: prod.splits sum.splits if_splits option.splits)

lemma install_key_work:
  assumes "install_key rk g ks = Done rk1"
  shows "catchup_steps (rk_stats rk1) = catchup_steps (rk_stats rk)"
    "max_catchup (rk_stats rk1) = max_catchup (rk_stats rk)"
    "catchup_steps_wasted (rk_stats rk1) = catchup_steps_wasted (rk_stats rk)"
  using assms by (auto simp: install_key_def outcome_simps Let_def split: if_splits prod.splits)

lemma fetch_key_work:
  assumes "fetch_key H rk g pl = Done (rk1, ks, pending)"
  shows "catchup_steps (rk_stats rk1) = catchup_steps (rk_stats rk) + (case pending of None \<Rightarrow> 0 | Some p \<Rightarrow> pc_jump p)"
    "max_catchup (rk_stats rk1) = max (max_catchup (rk_stats rk)) (case pending of None \<Rightarrow> 0 | Some p \<Rightarrow> pc_jump p)"
    "catchup_steps_wasted (rk_stats rk1) = catchup_steps_wasted (rk_stats rk)"
    "pending \<noteq> None \<Longrightarrow> pl = Ahead (pc_jump (the pending))"
  using assms by (auto simp: fetch_key_def outcome_simps split: Placement.splits)

lemma classify_jump: "classify_generation rk g = Done (Inr (Ahead j)) \<Longrightarrow> j \<le> rk_seek_cap rk"
  by (auto simp: classify_generation_def Let_def split: option.splits if_splits prod.splits)

lemma unprotect_work:
  assumes u: "ReceiverKeyManager_unprotect C H rk buf = Done (rk', out)"
  shows "work_bound (rk_seek_cap rk) (rk_stats rk) (rk_stats rk')"
  using u
proof (cases rule: unprotect_phases)
  case (dropped d)
  then show ?thesis by (intro work_bound_same) simp_all
next
  case 2: (decrypting g est pl rk1 ks pending rk2)
  define j where "j = (case pending of None \<Rightarrow> 0 | Some p \<Rightarrow> pc_jump p)"
  have "j \<le> rk_seek_cap rk"
      using classify_jump [of rk g j] fetch_key_work(4) [OF 2(2)] 2(1) by (cases pending) (auto simp: j_def)
  then show ?thesis
    using fetch_key_work(1-3) [OF 2(2)] install_key_work [OF 2(3)] finalize_work [OF 2(4)]
      unfolding work_bound_def j_def [symmetric] by auto
qed

lemma run_work:
  "run_steps (ReceiverKeyManager_unprotect C H) rk bufs = Done (rk', outs) \<Longrightarrow> recv_inv H seed rk \<Longrightarrow>
     work_bound (length bufs * rk_seek_cap rk) (rk_stats rk) (rk_stats rk') \<and>
     max_catchup (rk_stats rk') \<le> max (max_catchup (rk_stats rk)) (rk_seek_cap rk)"
proof (induction bufs arbitrary: rk outs)
  case Nil
  then show ?case by (simp add: work_bound_def)
next
  case (Cons b bufs)
  then obtain rk1 o1 os where u: "ReceiverKeyManager_unprotect C H rk b = Done (rk1, o1)"
    and r: "run_steps (ReceiverKeyManager_unprotect C H) rk1 bufs = Done (rk', os)"
    by (auto simp: outcome_simps)
  have "recv_inv H seed rk1" and c: "rk_seek_cap rk1 = rk_seek_cap rk"
    using unprotect_inv [OF Cons.prems(2) u] by (simp_all add: same_settings_def)
  from Cons.IH [OF r this(1)] unprotect_work [OF u] show ?case
    unfolding c by (auto simp: work_bound_def)
qed

section \<open>Malformed packets\<close>

lemma unprotect_malformed:
  assumes inv: "recv_inv H seed rk" and hdr: "plain_header buf" and len: "length buf < 2 ^ 31"
    and m: "map_generation rk (header_seq buf) (header_timestamp buf) = Done (Inr (g, est))"
    and r: "reachable_gen rk g"
    and bad: "header_ssrc buf \<noteq> rk_ssrc rk \<or> length buf < 28 \<and>
      \<not> rdbx_blocked (session_rdbx (rk_session rk)) (rdbx_pos (session_rdbx (rk_session rk)) (header_seq buf))"
  shows "ReceiverKeyManager_unprotect C H rk buf = Panic ExplicitPanic"
proof -
  obtain d key salt db where s: "rk_session rk = single_stream (rk_ssrc rk) d key salt db"
    using recv_inv_session [OF inv] .
  have l: "12 \<le> length buf" using hdr by (simp add: plain_header_def)
  obtain rk2 where u: "ReceiverKeyManager_unprotect C H rk buf = decrypt_and_finalize C rk2 g est (pending_for H seed rk g) buf"
    and s2: "rk_session rk2 = single_stream (rk_ssrc rk) d (gen_key H seed g) (gen_salt H seed g) db"
    using unprotect_keyed [OF inv r l m s, of C] .
  obtain e where "SessionRef_unprotect C (rk_session rk2) buf = (rk_session rk2, [], Inl e)"
    and "e \<in> {NO_CTX, CIPHER_FAIL, PARSE_ERR}"
    using bad s unfolding s2 single_stream_unprotect_any [OF plain_header_valid [OF hdr] len]
    by (cases "header_ssrc buf = rk_ssrc rk") (auto simp: unprotect_aead_short [OF hdr])
  then show ?thesis unfolding u by (auto simp: decrypt_and_finalize_def Let_def)
qed

section \<open>An example receiver\<close>

text \<open>Per-packet keying from index 0, a ring of four keys, a seek cap of ten, SSRC 9.\<close>

abbreviation sample_seed :: bytes where
  "sample_seed \<equiv> replicate 32 1"

definition sample_receiver :: "ReceiverKeyManager outcome" where
  "sample_receiver = ReceiverKeyManager_new sample_crypto (Scheme_Packet 0) 9 (ratchet_at sample_hkdf sample_seed 0) 4 10 128"

lemma sample_ratchet_ok: "ratchet_ok sample_hkdf sample_seed"
  by (simp add: ratchet_ok_def sample_hkdf_sound)

lemma sample_receiver_state:
  obtains rk where "sample_receiver = Done rk" "recv_inv sample_hkdf sample_seed rk" "rk_ssrc rk = 9"
    and "\<And>q ts. map_generation rk q ts = Done (Inr (unat q, Some (unat q)))"
    and "\<And>g. reachable_gen rk g \<longleftrightarrow> g < 10"
    and "\<And>j. \<not> rdbx_blocked (session_rdbx (rk_session rk)) j"
    and "\<And>q. rdbx_est (session_rdbx (rk_session rk)) q = unat q"
    and "scheme_ok (rk_scheme rk)"
proof -
  have n: "1 \<le> (4 :: nat)" "(128 :: nat) = 0 \<or> 64 \<le> (128 :: nat) \<and> (128 :: nat) < 0x8000" by simp_all
  show thesis
  proof (rule new_receiver [OF sample_ratchet_ok n, of sample_crypto "Scheme_Packet 0" 9 10])
    fix rk key salt
    assume N: "ReceiverKeyManager_new sample_crypto (Scheme_Packet 0) 9 (ratchet_at sample_hkdf sample_seed 0) 4 10 128 = Done rk"
      "recv_inv sample_hkdf sample_seed rk" "rk_frontier rk = None" "rk_ssrc rk = 9" "rk_scheme rk = Scheme_Packet 0"
      "rk_seek_cap rk = 10" "rk_recovery rk = IndexRecovery_default"
      "rk_session rk = single_stream 9 dir_unknown key salt (srtp_rdbx_init (if (128 :: nat) = 0 then 128 else 128))"
    have d: "session_rdbx (rk_session rk) = srtp_rdbx_init 128" using N(8) by simp
    have "map_generation rk q ts = Done (Inr (unat q, Some (unat q)))" for q ts
      by (simp add: map_generation_def N(5,7) IndexRecovery_default_def recover_first checked_sub64_def Let_def)
    moreover have "reachable_gen rk g \<longleftrightarrow> g < 10" for g
      by (auto simp: reachable_gen_def ahead_ok_def in_window_def next_gen_def N(3,6))
    moreover have "\<not> rdbx_blocked (srtp_rdbx_init 128) j" for j
      by (simp add: rdbx_blocked_iff) (simp add: srtp_rdbx_init_def)
    moreover have "rdbx_est (srtp_rdbx_init 128) q = unat q" for q
      by (simp add: rdbx_est_def srtp_rdbx_estimate_index_def srtp_rdbx_init_def)
    moreover have "scheme_ok (rk_scheme rk)" by (simp add: scheme_ok_def N(5))
    ultimately show thesis
      by (intro that [of rk]) (simp_all add: sample_receiver_def N(1,2,4) d)
  qed
qed

lemma sample_receiver_exists: "\<exists>rk. sample_receiver = Done rk"
  by (rule sample_receiver_state) (rule exI)

lemma sample_receiver_accepts:
  assumes "sample_receiver = Done rk"
  shows "\<exists>rk'. ReceiverKeyManager_unprotect sample_crypto sample_hkdf rk
      (seal_packet sample_crypto (gen_key sample_hkdf sample_seed 3) (gen_salt sample_hkdf sample_seed 3) 3 (sample_packet 3 0)) =
    Done (rk', sample_packet 3 0, Inr 3)"
proof (rule sample_receiver_state)
  fix rk0
  assume S: "sample_receiver = Done rk0" "recv_inv sample_hkdf sample_seed rk0" "rk_ssrc rk0 = 9"
    "\<And>q ts. map_generation rk0 q ts = Done (Inr (unat q, Some (unat q)))" "\<And>g. reachable_gen rk0 g \<longleftrightarrow> g < 10"
    "\<And>j. \<not> rdbx_blocked (session_rdbx (rk_session rk0)) j" "\<And>q. rdbx_est (session_rdbx (rk_session rk0)) q = unat q"
  have "rk = rk0" using assms S(1) by (metis outcome.inject(2))
  then show ?thesis
    using genuine_delivered [OF S(2) sample_crypto_sound, of 3 "sample_packet 3 0" "Some 3" 3] S(3-7)
    by (simp add: sample_packet_facts)
qed

lemma sample_receiver_rejects:
  assumes "sample_receiver = Done rk"
  shows "ReceiverKeyManager_unprotect sample_crypto sample_hkdf rk (sample_packet 20 0) =
    Done (count_drop SeekCapExceeded rk, sample_packet 20 0, Inl SeekCapExceeded)"
proof (rule sample_receiver_state)
  fix rk0
  assume S: "sample_receiver = Done rk0" "recv_inv sample_hkdf sample_seed rk0"
    "\<And>q ts. map_generation rk0 q ts = Done (Inr (unat q, Some (unat q)))" "\<And>g. reachable_gen rk0 g \<longleftrightarrow> g < 10"
  have r: "rk0 = rk" using assms S(1) by (metis outcome.inject(2))
  have f: "rk_frontier rk = None"
    using new_receiver_inv(7) [OF sample_ratchet_ok assms [unfolded sample_receiver_def]] .
  show ?thesis
    using unprotect_unkeyed [OF S(2), of 20 "sample_packet 20 0" "Some 20" sample_crypto] S(3,4)
    by (simp add: sample_packet_facts r f next_gen_def)
qed

lemma run_from_new:
  assumes "ratchet_ok H seed"
    and "ReceiverKeyManager_new C scheme ssrc (ratchet_at H seed 0) k cap w = Done rk0"
    and "run_steps (ReceiverKeyManager_unprotect C H) rk0 bufs = Done (rk, outs)"
  shows "recv_inv H seed rk" and "length (rk_ring rk) = k" and "rk_ssrc rk = ssrc" and "rk_scheme rk = scheme"
    and "rk_seek_cap rk = cap"
  using run_inv [OF new_receiver_inv(1) [OF assms(1,2)] assms(3)] new_receiver_inv(2-6) [OF assms(1,2)]
  by (simp_all add: same_settings_def)

section \<open>Properties\<close>

text \<open>
  C3. No packet is delivered twice: whatever byte strings arrive at a new receiver, in whatever
  order, the stream positions of the packets it delivers are pairwise different, across every key
  change in between.
\<close>

theorem receiver_never_delivers_twice:
  assumes "ratchet_ok H seed"
    and "ReceiverKeyManager_new C scheme ssrc (ratchet_at H seed 0) k cap w = Done rk"
  shows "distinct (session_run (receiver_step C H) rk bufs)"
proof -
  have inv: "recv_inv H seed rk" by (rule new_receiver_inv(1) [OF assms])
  obtain d key salt db where "rk_session rk = single_stream (rk_ssrc rk) d key salt db" "rdbx_wf db"
    using recv_inv_session [OF inv] .
  then show ?thesis using receiver_replay.session_run_fresh [OF inv] by simp
qed

theorem receiver_never_delivers_twice_witness:
  "\<exists>rk. sample_receiver = Done rk \<and>
     distinct (session_run (receiver_step sample_crypto sample_hkdf) rk
       (replicate 2 (seal_packet sample_crypto (gen_key sample_hkdf sample_seed 3) (gen_salt sample_hkdf sample_seed 3) 3
          (sample_packet 3 0))))"
proof -
  obtain rk where r: "sample_receiver = Done rk" using sample_receiver_exists by blast
  show ?thesis
    using r receiver_never_delivers_twice [OF sample_ratchet_ok r [unfolded sample_receiver_def]] by blast
qed

text \<open>
  C4. Key window and forward secrecy: after any run of a receiver, slot \<open>i\<close> of the ring holds
  exactly the key of the generation in the window of \<open>k\<close> generations ending at the frontier that
  is congruent to \<open>i\<close>, and the live ratchet stands just past the frontier. No key and no chain
  secret of a generation that has left the window is kept there, and every key still in the window is.
\<close>

theorem receiver_key_window:
  assumes "ratchet_ok H seed"
    and "ReceiverKeyManager_new C scheme ssrc (ratchet_at H seed 0) k cap w = Done rk0"
    and "run_steps (ReceiverKeyManager_unprotect C H) rk0 bufs = Done (rk, outs)"
  shows "length (rk_ring rk) = k \<and>
    rk_ratchet rk = ratchet_at H seed (next_gen (rk_frontier rk)) \<and>
    (\<forall>i<k. \<forall>g ks. rk_ring rk ! i = Some (g, ks) \<longleftrightarrow>
       in_window (rk_frontier rk) k g \<and> g mod k = i \<and> ks = key_salt_at H seed g)"
  using run_from_new(1,2) [OF assms] by (auto simp: recv_inv_def ring_ok_def)

theorem receiver_key_window_witness:
  "\<exists>rk0 rk outs. sample_receiver = Done rk0 \<and>
     run_steps (ReceiverKeyManager_unprotect sample_crypto sample_hkdf) rk0
       [seal_packet sample_crypto (gen_key sample_hkdf sample_seed 3) (gen_salt sample_hkdf sample_seed 3) 3
          (sample_packet 3 0)] = Done (rk, outs) \<and>
     rk_ratchet rk = ratchet_at sample_hkdf sample_seed (next_gen (rk_frontier rk)) \<and> length (rk_ring rk) = 4"
proof -
  obtain rk0 where r: "sample_receiver = Done rk0" using sample_receiver_exists by blast
  obtain rk where u: "ReceiverKeyManager_unprotect sample_crypto sample_hkdf rk0
      (seal_packet sample_crypto (gen_key sample_hkdf sample_seed 3) (gen_salt sample_hkdf sample_seed 3) 3 (sample_packet 3 0)) =
    Done (rk, sample_packet 3 0, Inr 3)" using sample_receiver_accepts [OF r] by blast
  then have run: "run_steps (ReceiverKeyManager_unprotect sample_crypto sample_hkdf) rk0
       [seal_packet sample_crypto (gen_key sample_hkdf sample_seed 3) (gen_salt sample_hkdf sample_seed 3) 3
          (sample_packet 3 0)] = Done (rk, [(sample_packet 3 0, Inr 3)])" by simp
  show ?thesis using r run receiver_key_window [OF sample_ratchet_ok r [unfolded sample_receiver_def] run] by blast
qed

text \<open>
  C5. Rejected packets are harmless: a packet the receiver drops, at any point of any run, leaves the
  ratchet, the key ring, the frontier, the index recovery and the replay database as they were. A
  forged header far ahead of the stream therefore cannot move the window.
\<close>

theorem receiver_drop_harmless:
  assumes "ratchet_ok H seed"
    and "ReceiverKeyManager_new C scheme ssrc (ratchet_at H seed 0) k cap w = Done rk0"
    and "run_steps (ReceiverKeyManager_unprotect C H) rk0 bufs = Done (rk, outs)"
    and "ReceiverKeyManager_unprotect C H rk buf = Done (rk', buf', Inl d)"
  shows "rk_ratchet rk' = rk_ratchet rk \<and> rk_ring rk' = rk_ring rk \<and> rk_frontier rk' = rk_frontier rk \<and>
    rk_recovery rk' = rk_recovery rk \<and> session_rdbx (rk_session rk') = session_rdbx (rk_session rk)"
  using unprotect_drop [OF run_from_new(1) [OF assms(1-3)] assms(4)] by (auto dest: durableD)

theorem receiver_drop_harmless_witness:
  "\<exists>rk rk' buf' d. sample_receiver = Done rk \<and>
     ReceiverKeyManager_unprotect sample_crypto sample_hkdf rk (sample_packet 20 0) = Done (rk', buf', Inl d) \<and>
     rk_frontier rk' = rk_frontier rk \<and> rk_ring rk' = rk_ring rk"
proof -
  obtain rk where r: "sample_receiver = Done rk" using sample_receiver_exists by blast
  note u = sample_receiver_rejects [OF r]
  show ?thesis
    using r u receiver_drop_harmless [OF sample_ratchet_ok r [unfolded sample_receiver_def] run_steps.simps(1) u] by blast
qed

text \<open>
  C6. Delivered packets are authentic: a packet is delivered for generation \<open>g\<close> only if its header
  maps to \<open>g\<close>, its SSRC is the stream's, \<open>g\<close> is in the window or within the seek cap, its position
  was not accepted before, and its body opens under generation \<open>g\<close>'s key with the header as
  associated data and the initialisation vector of its position. What is delivered is the header
  followed by exactly what the cipher returned.
\<close>

theorem receiver_accept_authentic:
  assumes "ratchet_ok H seed"
    and "ReceiverKeyManager_new C scheme ssrc (ratchet_at H seed 0) k cap w = Done rk0"
    and "run_steps (ReceiverKeyManager_unprotect C H) rk0 bufs = Done (rk, outs)"
    and "ReceiverKeyManager_unprotect C H rk buf = Done (rk', buf', Inr g)"
  shows "\<exists>est pt. map_generation rk (header_seq buf) (header_timestamp buf) = Done (Inr (g, est)) \<and>
    header_ssrc buf = ssrc \<and> reachable_gen rk g \<and>
    (let db = session_rdbx (rk_session rk) in \<not> rdbx_blocked db (rdbx_pos db (header_seq buf)) \<and>
       gcm_open C (gen_key H seed g) (srtp_calc_aead_iv (gen_salt H seed g) ssrc (rdbx_est db (header_seq buf)))
         (take (enc_start buf) buf) (drop (enc_start buf) buf) = Some pt) \<and>
    buf' = take (enc_start buf) buf @ pt"
proof (rule unprotect_accept [OF run_from_new(1) [OF assms(1-3)] assms(4)])
  fix est d key salt db
  assume A: "map_generation rk (header_seq buf) (header_timestamp buf) = Done (Inr (g, est))"
    "reachable_gen rk g" "header_ssrc buf = rk_ssrc rk" "rk_session rk = single_stream (rk_ssrc rk) d key salt db"
    "\<not> rdbx_blocked db (rdbx_pos db (header_seq buf))"
    "SessionRef_unprotect C (single_stream (rk_ssrc rk) d (gen_key H seed g) (gen_salt H seed g) db) buf =
       (rk_session rk', buf', Inr ())"
  show ?thesis
    by (rule unprotect_opened [OF A(6)]) (use A(1-5) run_from_new(3) [OF assms(1-3)] in simp)
qed

theorem receiver_accept_authentic_witness:
  "\<exists>rk pt. sample_receiver = Done rk \<and>
     (let buf = seal_packet sample_crypto (gen_key sample_hkdf sample_seed 3) (gen_salt sample_hkdf sample_seed 3) 3
          (sample_packet 3 0); db = session_rdbx (rk_session rk) in
      gcm_open sample_crypto (gen_key sample_hkdf sample_seed 3)
        (srtp_calc_aead_iv (gen_salt sample_hkdf sample_seed 3) 9 (rdbx_est db (header_seq buf)))
        (take (enc_start buf) buf) (drop (enc_start buf) buf) = Some pt)"
proof -
  obtain rk where r: "sample_receiver = Done rk" using sample_receiver_exists by blast
  obtain rk' where u: "ReceiverKeyManager_unprotect sample_crypto sample_hkdf rk
      (seal_packet sample_crypto (gen_key sample_hkdf sample_seed 3) (gen_salt sample_hkdf sample_seed 3) 3 (sample_packet 3 0)) =
    Done (rk', sample_packet 3 0, Inr 3)" using sample_receiver_accepts [OF r] by blast
  show ?thesis unfolding Let_def
    using r receiver_accept_authentic [OF sample_ratchet_ok r [unfolded sample_receiver_def] run_steps.simps(1) u, unfolded Let_def]
    by blast
qed

text \<open>
  C16. Well-formed packets never panic: at any point of any run, a byte string shorter than a header,
  or one of at least 28 bytes with the stream's SSRC and a plain RTP header, is delivered or dropped.
\<close>

theorem receiver_total_on_media:
  assumes "ratchet_ok H seed" and "scheme_ok scheme"
    and "ReceiverKeyManager_new C scheme ssrc (ratchet_at H seed 0) k cap w = Done rk0"
    and "run_steps (ReceiverKeyManager_unprotect C H) rk0 bufs = Done (rk, outs)"
    and "length buf < 12 \<or> plain_header buf \<and> 28 \<le> length buf \<and> length buf < 2 ^ 31 \<and> header_ssrc buf = ssrc"
  shows "\<exists>rk' buf' res. ReceiverKeyManager_unprotect C H rk buf = Done (rk', buf', res)"
  by (rule unprotect_no_panic [OF run_from_new(1) [OF assms(1,3,4)]])
    (use assms(2,5) run_from_new(3,4) [OF assms(1,3,4)] in simp_all)

theorem receiver_total_on_media_witness:
  "\<exists>rk rk' buf' res. sample_receiver = Done rk \<and>
     ReceiverKeyManager_unprotect sample_crypto sample_hkdf rk
       (RtpPacket_to_bytes \<lparr> rtp_payload_type = 96, rtp_sequence_number = 3, rtp_timestamp = 0, rtp_ssrc = 9,
          rtp_payload = replicate 16 0 \<rparr>) = Done (rk', buf', res)"
proof -
  let ?p = "\<lparr> rtp_payload_type = 96, rtp_sequence_number = 3, rtp_timestamp = 0, rtp_ssrc = 9,
    rtp_payload = replicate 16 0 \<rparr>"
  have p: "plain_header (RtpPacket_to_bytes ?p) \<and> 28 \<le> length (RtpPacket_to_bytes ?p) \<and>
      length (RtpPacket_to_bytes ?p) < 2 ^ 31 \<and> header_ssrc (RtpPacket_to_bytes ?p) = 9"
    by (simp only: to_bytes_plain_header) (simp add: to_bytes_header rtp_header_fields)
  obtain rk where r: "sample_receiver = Done rk" using sample_receiver_exists by blast
  have "scheme_ok (Scheme_Packet 0)" by (simp add: scheme_ok_def)
  from receiver_total_on_media [OF sample_ratchet_ok this r [unfolded sample_receiver_def] run_steps.simps(1)
      disjI2 [OF p]]
  show ?thesis using r by blast
qed

text \<open>
  C17. Malformed packets do panic: a packet with a plain header that maps to a reachable generation
  stops the receiver with the explicit panic of \<^verbatim>\<open>unprotect\<close> when it carries another SSRC, or when
  it is too short for a tag and its position is new. The sender needs no key for it.
\<close>

theorem receiver_malformed_panics:
  assumes "ratchet_ok H seed"
    and "ReceiverKeyManager_new C scheme ssrc (ratchet_at H seed 0) k cap w = Done rk0"
    and "run_steps (ReceiverKeyManager_unprotect C H) rk0 bufs = Done (rk, outs)"
    and "plain_header buf" and "length buf < 2 ^ 31"
    and "map_generation rk (header_seq buf) (header_timestamp buf) = Done (Inr (g, est))" and "reachable_gen rk g"
    and "header_ssrc buf \<noteq> ssrc \<or> length buf < 28 \<and>
      \<not> rdbx_blocked (session_rdbx (rk_session rk)) (rdbx_pos (session_rdbx (rk_session rk)) (header_seq buf))"
  shows "ReceiverKeyManager_unprotect C H rk buf = Panic ExplicitPanic"
  using unprotect_malformed [OF run_from_new(1) [OF assms(1-3)] assms(4-7)] assms(8) run_from_new(3) [OF assms(1-3)]
  by simp

theorem receiver_malformed_panics_witness:
  "\<exists>rk. sample_receiver = Done rk \<and>
     ReceiverKeyManager_unprotect sample_crypto sample_hkdf rk (sample_packet 3 0) = Panic ExplicitPanic"
proof (rule sample_receiver_state)
  fix rk
  assume S: "sample_receiver = Done rk" "\<And>q ts. map_generation rk q ts = Done (Inr (unat q, Some (unat q)))"
    "\<And>g. reachable_gen rk g \<longleftrightarrow> g < 10" "\<And>j. \<not> rdbx_blocked (session_rdbx (rk_session rk)) j"
  show ?thesis
    using S receiver_malformed_panics [OF sample_ratchet_ok S(1) [unfolded sample_receiver_def] run_steps.simps(1)
        sample_packet_facts(1) [of 3 0] _ S(2)]
    by (auto simp: sample_packet_facts)
qed

text \<open>
  Accounting: after a run over \<open>n\<close> byte strings the counters of delivered and dropped packets
  add up to \<open>n\<close>; nothing is lost or counted twice.
\<close>

lemma receiver_accounting:
  assumes "ratchet_ok H seed"
    and "ReceiverKeyManager_new C scheme ssrc (ratchet_at H seed 0) k cap w = Done rk0"
    and "run_steps (ReceiverKeyManager_unprotect C H) rk0 bufs = Done (rk, outs)"
  shows "decrypted (rk_stats rk) + drops_behind (rk_stats rk) + drops_seek_cap (rk_stats rk) +
    drops_replay (rk_stats rk) + drops_auth (rk_stats rk) = length bufs"
  using run_handled [OF assms(3)] new_receiver_inv(5) [OF assms(1,2)]
  by (simp add: handled_def drops_def RecvStats_default_def)



text \<open>
  Catch-up: ratcheting a copy from generation \<open>n\<close> to generation \<open>g\<close> while keeping a queue of at
  most \<open>k\<close> keys ends, without panic, with the ratchet just past \<open>g\<close> and with the keys of the last \<open>k\<close>
  generations of the jump, oldest first: the same as deriving every key and keeping the last \<open>k\<close>.
\<close>

lemma catchup_keeps_last:
  assumes "ratchet_ok H seed" and "1 \<le> k" and "n \<le> Suc g"
  shows "catchup_loop H k g (ratchet_at H seed n) [] =
    (case derive_n (StreamRatchet_next_key_salt H) (Suc g - n) (ratchet_at H seed n) of
       Panic p \<Rightarrow> Panic p | Done (keys, ratchet) \<Rightarrow> Done (ratchet, drop (length keys - k) keys))"
  using catchup_loop_at [OF assms, of "[]"] stream_ratchet.derive_n_at [OF assms(1), of "Suc g - n" n] assms(3)
  by (simp add: lastn_def derived_keys_def)

end
