(* ===== verification/Delivery.thy ===== *)
theory Delivery
  imports Receiver
begin

text \<open>
  Sender and receiver together. The sender of theory \<open>Rekeying\<close> protects a packet sequence; the
  receiver of theory \<open>Receiver\<close> sees some of those packets, in another order. \<open>arrivals_ok\<close> says
  which orders the receiver's three parameters cover: how late a packet may be for its key to
  still be kept (\<open>k\<close>) and for libsrtp's window to still cover it (\<open>W\<close>), and how large a gap the
  seek cap bridges. Within it, every packet is delivered with its plaintext, and under the
  generation the sender used.
\<close>

section \<open>The receiver's rule finds the sender's generation\<close>

definition timestamps_ok :: "Granularity \<Rightarrow> u32 \<Rightarrow> u32 \<Rightarrow> bytes list \<Rightarrow> bool" where
  "timestamps_ok gr start_ts period pkts \<longleftrightarrow>
     (gr = Gran_Frame \<longrightarrow> period \<noteq> 0 \<and>
       (\<exists>fs. frame_sequence fs \<and> map header_timestamp pkts = map (frame_ts start_ts period) fs \<and>
         (\<forall>f\<in>set fs. f * unat period < 2 ^ 32)))"

definition index_based :: "Granularity \<Rightarrow> bool" where
  "index_based gr = (case gr of Gran_Packet \<Rightarrow> True | Gran_EveryN _ \<Rightarrow> True | _ \<Rightarrow> False)"

lemma frame_steps_append: "frame_steps f (xs @ ys) \<Longrightarrow> frame_steps f xs"
  by (induction xs arbitrary: f) auto

lemma frame_sequence_prefix: "frame_sequence (xs @ ys) \<Longrightarrow> frame_sequence xs"
  by (cases xs) (auto simp: frame_sequence_def dest: frame_steps_append)

lemma map_generation_sent:
  assumes u: "usable gr" and t: "timestamps_ok gr start_ts period pkts" and i: "i < length pkts"
    and sch: "rk_scheme rk = GenerationScheme_for_granularity gr start_ts period b"
    and rec: "index_based gr \<Longrightarrow> IndexRecovery_recover (rk_recovery rk) (header_seq (pkts ! i)) = b + i"
  shows "map_generation rk (header_seq (pkts ! i)) (header_timestamp (pkts ! i)) =
    Done (Inr (packet_gen gr pkts i, if index_based gr then Some (b + i) else None))"
proof -
  let ?T = "map header_timestamp (take (Suc i) pkts)"
  have T: "?T \<noteq> []" "length ?T = Suc i" using i by auto
  show ?thesis
  proof (cases gr)
    case Gran_EpochOnly
    then show ?thesis
      by (simp add: map_generation_def sch GenerationScheme_for_granularity_def packet_gen_def
          boundary_count_epoch index_based_def)
  next
    case Gran_Frame
    from t obtain fs where p: "period \<noteq> 0" and fs: "frame_sequence fs"
      "map header_timestamp pkts = map (frame_ts start_ts period) fs" "\<forall>f\<in>set fs. f * unat period < 2 ^ 32"
      by (auto simp: timestamps_ok_def Gran_Frame)
    have l: "length fs = length pkts" using arg_cong [OF fs(2), of length] by simp
    have "?T = map (frame_ts start_ts period) (take (Suc i) fs)"
      using arg_cong [OF fs(2), of "take (Suc i)"] by (simp add: take_map)
    moreover have "frame_sequence (take (Suc i) fs)"
      using fs(1) frame_sequence_prefix [of "take (Suc i) fs" "drop (Suc i) fs"] by simp
    moreover have "\<forall>f\<in>set (take (Suc i) fs). f * unat period < 2 ^ 32"
      using fs(3) by (meson in_set_takeD)
    moreover have "take (Suc i) fs \<noteq> []" "last (take (Suc i) fs) = fs ! i"
      using i l by (auto simp: take_Suc_conv_app_nth)
    ultimately have g: "packet_gen gr pkts i = fs ! i"
      using boundary_count_frame [OF p, of "take (Suc i) fs" start_ts] by (simp add: packet_gen_def Gran_Frame)
    have "header_timestamp (pkts ! i) = frame_ts start_ts period (fs ! i)"
      using arg_cong [OF fs(2), of "\<lambda>xs. xs ! i"] i l by simp
    moreover have "fs ! i * unat period < 2 ^ 32" using fs(3) i l by simp
    ultimately show ?thesis
      using g p by (simp add: map_generation_def sch GenerationScheme_for_granularity_def Gran_Frame
          frame_generation_ts index_based_def)
  next
    case Gran_Packet
    then show ?thesis using T rec i
      by (simp add: map_generation_def sch GenerationScheme_for_granularity_def packet_gen_def
          boundary_count_packet index_based_def checked_sub64_def)
  next
    case (Gran_EveryN n)
    then have n: "n \<noteq> 0" using u by (auto simp: usable_def)
    show ?thesis using Gran_EveryN T rec i boundary_count_every_n [OF n T(1)] n
      by (simp add: map_generation_def sch GenerationScheme_for_granularity_def packet_gen_def
          index_based_def checked_sub64_def)
  qed
qed

lemma boundary_count_append:
  "boundary_count gr prev cnt xs \<le> boundary_count gr prev cnt (xs @ ys)"
  by (induction xs arbitrary: prev cnt) auto

lemma packet_gen_mono:
  assumes "i \<le> j"
  shows "packet_gen gr pkts i \<le> packet_gen gr pkts j"
proof -
  have "take (Suc j) pkts = take (Suc i) pkts @ take (j - i) (drop (Suc i) pkts)"
    using assms by (metis Suc_diff_Suc Suc_le_mono diff_Suc_Suc le_add_diff_inverse take_add)
  then show ?thesis unfolding packet_gen_def using boundary_count_append by (metis map_append)
qed

section \<open>Arrival orders\<close>

fun arrivals_ok ::
  "nat \<Rightarrow> nat \<Rightarrow> nat \<Rightarrow> (nat \<Rightarrow> nat) \<Rightarrow> nat \<Rightarrow> nat option \<Rightarrow> nat list \<Rightarrow> nat list \<Rightarrow> bool" where
  "arrivals_ok k cap W G b hi seen [] \<longleftrightarrow> True"
| "arrivals_ok k cap W G b None seen (i # is) \<longleftrightarrow>
     i \<notin> set seen \<and> b + i < 65536 \<and> Suc (G i) \<le> cap \<and>
     arrivals_ok k cap W G b (Some i) (i # seen) is"
| "arrivals_ok k cap W G b (Some h) seen (i # is) \<longleftrightarrow>
     i \<notin> set seen \<and> near (b + h) (b + i) \<and> (i \<le> h \<longrightarrow> h - i < W) \<and>
     (G i \<le> G h \<longrightarrow> G h < G i + k) \<and> (G h < G i \<longrightarrow> G i - G h \<le> cap) \<and>
     arrivals_ok k cap W G b (Some (max h i)) (i # seen) is"

text \<open>The receiver after the packets \<open>seen\<close> arrived, the furthest of which is \<open>hi\<close>.\<close>

definition recv_rel ::
  "hkdf \<Rightarrow> bytes \<Rightarrow> Granularity \<Rightarrow> GenerationScheme \<Rightarrow> u32 \<Rightarrow> nat \<Rightarrow> nat \<Rightarrow> nat \<Rightarrow> (nat \<Rightarrow> nat) \<Rightarrow> nat \<Rightarrow>
     nat option \<Rightarrow> nat list \<Rightarrow> ReceiverKeyManager \<Rightarrow> bool" where
  "recv_rel H seed gr sch ssrc k cap W G b hi seen rk \<longleftrightarrow>
     recv_inv H seed rk \<and> rk_frontier rk = map_option G hi \<and> rk_ssrc rk = ssrc \<and> rk_scheme rk = sch \<and>
     length (rk_ring rk) = k \<and> rk_seek_cap rk = cap \<and>
     (index_based gr \<longrightarrow> ir_highest (rk_recovery rk) = map_option ((+) b) hi) \<and>
     (let db = session_rdbx (rk_session rk) in
      rdbx_index db = (case hi of None \<Rightarrow> 0 | Some h \<Rightarrow> b + h) \<and> rdbx_index db < 2 ^ 48 \<and>
      length (rdbx_bits db) = W \<and> rdbx_wf db \<and>
      (\<forall>j. rdbx_blocked db j \<longrightarrow> (\<exists>i\<in>set seen. j = b + i) \<or>
         (\<exists>h. hi = Some h \<and> j \<le> b + h \<and> W \<le> b + h - j)))"

lemma recv_rel_deliver:
  assumes rel: "recv_rel H seed gr sch ssrc k cap W (packet_gen gr pkts) b hi seen rk"
    and C: "crypto_sound C" and u: "usable gr" and m: "media_ok ssrc b pkts"
    and t: "timestamps_ok gr start_ts period pkts"
    and sch: "sch = GenerationScheme_for_granularity gr start_ts period b" and i: "i < length pkts"
    and arr: "arrivals_ok k cap W (packet_gen gr pkts) b hi seen (i # is)"
  shows "\<exists>rk'. ReceiverKeyManager_unprotect C H rk (sent_packet C H seed gr b pkts i) =
      Done (rk', pkts ! i, Inr (packet_gen gr pkts i)) \<and>
    recv_rel H seed gr sch ssrc k cap W (packet_gen gr pkts) b
      (Some (case hi of None \<Rightarrow> i | Some h \<Rightarrow> max h i)) (i # seen) rk'"
proof -
  define db where "db = session_rdbx (rk_session rk)"
  define G where "G = packet_gen gr pkts"
  define h' where "h' = (case hi of None \<Rightarrow> i | Some h \<Rightarrow> max h i)"
  have inv: "recv_inv H seed rk" and R: "rk_frontier rk = map_option G hi" "rk_ssrc rk = ssrc"
    "rk_scheme rk = sch" "length (rk_ring rk) = k" "rk_seek_cap rk = cap"
    "index_based gr \<Longrightarrow> ir_highest (rk_recovery rk) = map_option ((+) b) hi"
    and D: "rdbx_index db = (case hi of None \<Rightarrow> 0 | Some h \<Rightarrow> b + h)" "rdbx_index db < 2 ^ 48"
    "length (rdbx_bits db) = W" "rdbx_wf db"
    and B: "\<And>j. rdbx_blocked db j \<Longrightarrow>
      (\<exists>i\<in>set seen. j = b + i) \<or> (\<exists>h. hi = Some h \<and> j \<le> b + h \<and> W \<le> b + h - j)"
    using rel unfolding recv_rel_def Let_def db_def [symmetric] G_def [symmetric] by blast+
  note P = media_okD [OF m i]
  have bi: "b + i < 2 ^ 48" using m i by (simp add: media_ok_def)
  have near: "near (rdbx_index db) (b + i)" using arr D(1) by (cases hi) (auto simp: near_def)
  have pos: "rdbx_pos db (header_seq (pkts ! i)) = b + i" unfolding P(3) by (rule rdbx_pos_near [OF near])
  have est: "rdbx_est db (header_seq (pkts ! i)) = b + i"
    using rdbx_est_pos [of db "header_seq (pkts ! i)"] pos bi D(2) by simp
  have nb: "\<not> rdbx_blocked db (b + i)" using B [of "b + i"] arr by (cases hi) auto
  have "IndexRecovery_recover (rk_recovery rk) (header_seq (pkts ! i)) = b + i" if "index_based gr"
  proof (cases hi)
    case None
    then show ?thesis using R(6) [OF that] arr by (simp add: P(3) recover_first unat_of_nat_u16 del: of_nat_add)
  next
    case (Some h)
    then show ?thesis unfolding P(3) using R(6) [OF that] arr bi by (intro recover_near) auto
  qed
  then have mg: "map_generation rk (header_seq (pkts ! i)) (header_timestamp (pkts ! i)) =
      Done (Inr (G i, if index_based gr then Some (b + i) else None))"
    unfolding G_def by (intro map_generation_sent [OF u t i R(3) [unfolded sch]])
  have re: "reachable_gen rk (G i)"
    using arr R(1,4,5) by (cases hi) (auto simp: reachable_gen_def in_window_def ahead_ok_def next_gen_def G_def)
  have sp: "sent_packet C H seed gr b pkts i = seal_packet C (gen_key H seed (G i)) (gen_salt H seed (G i)) (b + i) (pkts ! i)"
    by (simp add: sent_packet_def G_def Let_def)
  obtain rk' where del: "ReceiverKeyManager_unprotect C H rk (sent_packet C H seed gr b pkts i) = Done (rk', pkts ! i, Inr (G i))"
    unfolding sp using genuine_delivered [OF inv C re P(1,4) _ mg] P(2) R(2) est nb pos by (auto simp: db_def)
  note hd = seal_packet_header [OF P(1), of C "gen_key H seed (G i)" "gen_salt H seed (G i)" "b + i", folded sp]
  have less: "b + i < rdbx_index db + 65536" using rdbx_pos_less [of db "header_seq (pkts ! i)"] pos by simp
  note add = rdbx_add_wf [OF D(4) less nb]
  have idx: "max (rdbx_index db) (b + i) = b + h'" using D(1) by (auto simp: h'_def max_def split: option.splits)
  have "recv_rel H seed gr sch ssrc k cap W G b (Some h') (i # seen) rk'"
  proof (rule unprotect_accept [OF inv del])
    fix est' d key salt db' d'
    assume A: "map_generation rk (header_seq (sent_packet C H seed gr b pkts i))
        (header_timestamp (sent_packet C H seed gr b pkts i)) = Done (Inr (G i, est'))"
      "rk_session rk = single_stream (rk_ssrc rk) d key salt db'"
      "rk_session rk' = single_stream (rk_ssrc rk) d' (gen_key H seed (G i)) (gen_salt H seed (G i))
         (rdbx_add db' (rdbx_pos db' (header_seq (sent_packet C H seed gr b pkts i))))"
      "recv_inv H seed rk'" "rk_frontier rk' = Some (case rk_frontier rk of None \<Rightarrow> G i | Some f \<Rightarrow> max f (G i))"
      "rk_recovery rk' = (case est' of None \<Rightarrow> rk_recovery rk | Some i \<Rightarrow> IndexRecovery_update (rk_recovery rk) i)"
      "rk_ssrc rk' = rk_ssrc rk" "rk_scheme rk' = rk_scheme rk" "rk_seek_cap rk' = rk_seek_cap rk"
      "length (rk_ring rk') = length (rk_ring rk)"
    have e: "est' = (if index_based gr then Some (b + i) else None)" using A(1) mg hd by simp
    have db': "db' = db" by (simp add: db_def A(2))
    have s: "session_rdbx (rk_session rk') = rdbx_add db (b + i)" by (simp add: A(3) db' hd pos)
    have f: "rk_frontier rk' = Some (G h')"
    proof (cases hi)
      case None
      then show ?thesis using A(5) R(1) by (simp add: h'_def)
    next
      case (Some h)
      have "max (G h) (G i) = G (max h i)"
        using packet_gen_mono [of h i gr pkts] packet_gen_mono [of i h gr pkts] unfolding G_def
        by (cases "h \<le> i") (simp_all add: max_def)
      with Some show ?thesis using A(5) R(1) by (simp add: h'_def)
    qed
    have r: "index_based gr \<Longrightarrow> ir_highest (rk_recovery rk') = Some (b + h')"
      using A(6) R(6) by (cases hi) (simp_all add: e update_highest h'_def)
    have bl: "(\<exists>i'\<in>set (i # seen). j = b + i') \<or> (\<exists>h. Some h' = Some h \<and> j \<le> b + h \<and> W \<le> b + h - j)"
      if "rdbx_blocked (rdbx_add db (b + i)) j" for j
    proof -
      from that have "j = b + i \<or> rdbx_blocked db j \<or> (j \<le> b + h' \<and> W \<le> b + h' - j)"
        unfolding rdbx_blocked_add [OF D(4) less nb] idx D(3) .
      moreover have "(\<exists>i\<in>set seen. j = b + i) \<or> (j \<le> b + h' \<and> W \<le> b + h' - j)" if "rdbx_blocked db j"
        using B [OF that] by (auto simp: h'_def)
      ultimately show ?thesis by auto
    qed
    show ?thesis
      unfolding recv_rel_def Let_def s add idx option.case
      using A(4,7-10) R(2-5) f r add(1) D(3) bl bi D(2) idx
      by (intro conjI allI impI) (simp_all add: max_less_iff_conj [symmetric])
  qed
  then show ?thesis using del unfolding G_def h'_def by blast
qed

lemma arrivals_delivered:
  assumes C: "crypto_sound C" and u: "usable gr" and m: "media_ok ssrc b pkts"
    and t: "timestamps_ok gr start_ts period pkts"
    and sch: "sch = GenerationScheme_for_granularity gr start_ts period b"
  shows "recv_rel H seed gr sch ssrc k cap W (packet_gen gr pkts) b hi seen rk \<Longrightarrow>
    arrivals_ok k cap W (packet_gen gr pkts) b hi seen is \<Longrightarrow> \<forall>i\<in>set is. i < length pkts \<Longrightarrow>
    \<exists>rk'. run_steps (ReceiverKeyManager_unprotect C H) rk (map (sent_packet C H seed gr b pkts) is) =
      Done (rk', map (\<lambda>i. (pkts ! i, Inr (packet_gen gr pkts i))) is)"
proof (induction "is" arbitrary: hi seen rk)
  case Nil
  then show ?case by simp
next
  case (Cons i "is")
  obtain rk1 where d: "ReceiverKeyManager_unprotect C H rk (sent_packet C H seed gr b pkts i) =
      Done (rk1, pkts ! i, Inr (packet_gen gr pkts i))"
    and rel: "recv_rel H seed gr sch ssrc k cap W (packet_gen gr pkts) b
      (Some (case hi of None \<Rightarrow> i | Some h \<Rightarrow> max h i)) (i # seen) rk1"
    using recv_rel_deliver [OF Cons.prems(1) C u m t sch _ Cons.prems(2)] Cons.prems(3) by auto
  have "arrivals_ok k cap W (packet_gen gr pkts) b (Some (case hi of None \<Rightarrow> i | Some h \<Rightarrow> max h i)) (i # seen) is"
    using Cons.prems(2) by (cases hi) auto
  then show ?case using Cons.IH [OF rel] Cons.prems(3) d by auto
qed

lemma new_receiver_rel:
  assumes ok: "ratchet_ok H seed" and k: "1 \<le> k"
    and w: "replay_window = 0 \<or> 64 \<le> replay_window \<and> replay_window < 0x8000"
  obtains rk where "ReceiverKeyManager_new C sch ssrc (ratchet_at H seed 0) k cap replay_window = Done rk"
    and "recv_rel H seed gr sch ssrc k cap (window_bits replay_window) G b None [] rk"
proof -
  define v where "v = (if replay_window = 0 then 128 else replay_window)"
  have v: "64 \<le> v" using w by (auto simp: v_def)
  have db: "rdbx_index (srtp_rdbx_init v) = 0" "length (rdbx_bits (srtp_rdbx_init v)) = window_bits replay_window"
    by (simp_all add: srtp_rdbx_init_def window_bits_def v_def)
  have "0 < (v + 31) div 32 * 32" using v by simp
  then have nb: "\<not> rdbx_blocked (srtp_rdbx_init v) j" for j
    unfolding rdbx_blocked_iff by (simp add: srtp_rdbx_init_def)
  have wf: "rdbx_wf (srtp_rdbx_init v)" using v by (intro rdbx_init_wf) simp
  show thesis
  proof (rule new_receiver [OF ok k w, of C sch ssrc cap])
    fix rk key salt
    assume N: "ReceiverKeyManager_new C sch ssrc (ratchet_at H seed 0) k cap replay_window = Done rk"
      "recv_inv H seed rk" "rk_frontier rk = None" "length (rk_ring rk) = k" "rk_ssrc rk = ssrc"
      "rk_scheme rk = sch" "rk_seek_cap rk = cap" "rk_recovery rk = IndexRecovery_default"
      "rk_session rk = single_stream ssrc dir_unknown key salt
         (srtp_rdbx_init (if replay_window = 0 then 128 else replay_window))"
    show thesis
      by (rule that [OF N(1)], unfold recv_rel_def N(9) v_def [symmetric])
        (simp add: N db nb wf IndexRecovery_default_def Let_def)
  qed
qed

section \<open>Properties\<close>

text \<open>
  C15. Sender and receiver name generations alike: after the sender has protected the packets up to
  the \<open>i\<close>-th one, boundary by boundary, the generation it has installed is the one the receiver's
  stateless rule computes from that packet's header alone, for every granularity, provided the
  receiver's index recovery (where the granularity uses it) has the right index.
\<close>

theorem generations_agree:
  assumes "ratchet_ok H seed" and "usable gr" and "media_ok ssrc b pkts"
    and "timestamps_ok gr start_ts period pkts" and "i < length pkts"
    and "obind (RekeyingStream_new C H gr ssrc (ratchet_at H seed 0))
      (\<lambda>st0. run_steps (RekeyingStream_protect C H) st0 (take (Suc i) pkts)) = Done (st, out)"
    and "rk_scheme rk = GenerationScheme_for_granularity gr start_ts period b"
    and "index_based gr \<Longrightarrow> IndexRecovery_recover (rk_recovery rk) (header_seq (pkts ! i)) = b + i"
  shows "map_generation rk (header_seq (pkts ! i)) (header_timestamp (pkts ! i)) =
    Done (Inr (rs_installed_gen st, if index_based gr then Some (b + i) else None))"
proof -
  have m: "media_ok ssrc b (take (Suc i) pkts)"
    using media_ok_prefix [of ssrc b "take (Suc i) pkts" "drop (Suc i) pkts"] assms(3) by simp
  obtain d where "run_steps (RekeyingStream_protect C H) (rekeying_state H seed gr ssrc [] dir_unknown (srtp_rdbx_init 128))
      (take (Suc i) pkts) =
    Done (rekeying_state H seed gr ssrc (map header_timestamp (take (Suc i) pkts)) d (sent_rdbx b (length (take (Suc i) pkts))),
      map (\<lambda>j. (sent_packet C H seed gr b (take (Suc i) pkts) j, Inr ())) [0..<length (take (Suc i) pkts)])"
    using protect_run_state [OF assms(1,2), of ssrc b "[]" "take (Suc i) pkts" C dir_unknown] m by auto
  then have "rs_installed_gen st = packet_gen gr pkts i"
    using assms(6) by (auto simp: new_state [OF assms(1)] rekeying_state_def packet_gen_def Let_def)
  then show ?thesis using map_generation_sent [OF assms(2,4,5,7,8)] by simp
qed

lemma sample_timestamps_ok: "timestamps_ok Gran_Frame 1000 3000 sample_media"
proof -
  have "map header_timestamp sample_media = map (frame_ts 1000 3000) [0, 0, 1]"
    by (simp add: sample_media_def sample_packet_facts frame_ts_def)
  moreover have "frame_sequence [0, 0, 1]" by (simp add: frame_sequence_def)
  ultimately show ?thesis unfolding timestamps_ok_def
    by (intro impI conjI exI [of _ "[0, 0, 1]"]) simp_all
qed

theorem generations_agree_witness:
  "\<exists>st out rk. obind (RekeyingStream_new sample_crypto sample_hkdf Gran_Frame 9 (ratchet_at sample_hkdf sample_seed 0))
      (\<lambda>st0. run_steps (RekeyingStream_protect sample_crypto sample_hkdf) st0 (take 3 sample_media)) = Done (st, out) \<and>
    map_generation rk (header_seq (sample_media ! 2)) (header_timestamp (sample_media ! 2)) =
      Done (Inr (rs_installed_gen st, None))"
proof -
  have u: "usable Gran_Frame" by (simp add: usable_def)
  have l: "2 < length sample_media" "take 3 sample_media = sample_media" by (simp_all add: sample_media_def)
  obtain st out where r: "obind (RekeyingStream_new sample_crypto sample_hkdf Gran_Frame 9 (ratchet_at sample_hkdf sample_seed 0))
      (\<lambda>st0. run_steps (RekeyingStream_protect sample_crypto sample_hkdf) st0 (take (Suc 2) sample_media)) = Done (st, out)"
    using protect_run [OF sample_ratchet_ok u sample_media_ok, of sample_crypto]
    by (auto simp: new_state [OF sample_ratchet_ok] l)
  obtain rk :: ReceiverKeyManager where rk: "rk_scheme rk = GenerationScheme_for_granularity Gran_Frame 1000 3000 0"
    by (metis ReceiverKeyManager.select_convs(3))
  have "map_generation rk (header_seq (sample_media ! 2)) (header_timestamp (sample_media ! 2)) =
      Done (Inr (rs_installed_gen st, None))"
    using generations_agree [OF sample_ratchet_ok u sample_media_ok sample_timestamps_ok l(1) r rk]
    by (simp add: index_based_def)
  moreover have "Suc 2 = 3" by simp
  ultimately show ?thesis using r by metis
qed

end
