(* ===== verification/Tesla_Schedule.thy ===== *)
theory Tesla_Schedule
  imports Prelude
begin

text \<open>
  The TESLA timetable and the receiver's accept test: \<^verbatim>\<open>src/tesla/schedule.rs\<close>. Times are
  nanoseconds (\<open>u64\<close>) on one timebase; intervals are \<open>u32\<close> in the code and \<open>nat\<close> here (they are
  compared after widening to \<open>u64\<close>, and the only subtraction saturates).

  The security argument of TESLA is \<open>accepts_before_disclosure\<close>: an accepted packet arrived
  before the sender could have sent any packet that discloses its key. The other direction is
  \<open>accepts_in_budget\<close>: a packet that travels for less than \<open>(d - 1) T_int - D_t\<close> is accepted.
\<close>

section \<open>Definitions\<close>

datatype IntervalCheck = Safe | UnsafeLate

record TeslaSchedule =
  ts_t0_ns :: nat
  ts_t_int_ns :: nat
  ts_d :: nat
  ts_n_chain :: nat
  ts_d_t_ns :: nat
  ts_g_max :: nat

definition TeslaSchedule_new :: "nat \<Rightarrow> nat \<Rightarrow> nat \<Rightarrow> nat \<Rightarrow> nat \<Rightarrow> nat \<Rightarrow> TeslaSchedule outcome" where
  "TeslaSchedule_new t0_ns t_int_ns d n_chain d_t_ns g_max =
     obind (guard_panic (t_int_ns > 0) AssertFailed) (\<lambda>_.
     obind (guard_panic (d \<ge> 2) AssertFailed) (\<lambda>_.
     obind (guard_panic (n_chain \<ge> 1) AssertFailed) (\<lambda>_.
     obind (guard_panic (g_max \<ge> 1) AssertFailed) (\<lambda>_.
     Done \<lparr> ts_t0_ns = t0_ns, ts_t_int_ns = t_int_ns, ts_d = d, ts_n_chain = n_chain,
            ts_d_t_ns = d_t_ns, ts_g_max = g_max \<rparr>))))"

definition TeslaSchedule_interval_of :: "TeslaSchedule \<Rightarrow> nat \<Rightarrow> nat outcome" where
  "TeslaSchedule_interval_of s send_ns =
     obind (guard_panic (send_ns \<ge> ts_t0_ns s) AssertFailed) (\<lambda>_.
     let i = 1 + (send_ns - ts_t0_ns s) div ts_t_int_ns s
     in obind (guard_panic (i \<le> ts_n_chain s) AssertFailed) (\<lambda>_. Done i))"

definition TeslaSchedule_disclosed_index :: "TeslaSchedule \<Rightarrow> nat \<Rightarrow> nat" where
  "TeslaSchedule_disclosed_index s interval = (if ts_d s \<le> interval then interval - ts_d s else 0)"

definition TeslaSchedule_sender_upper_bound :: "TeslaSchedule \<Rightarrow> nat \<Rightarrow> nat" where
  "TeslaSchedule_sender_upper_bound s arrival_ns =
     (let sender_clock = sat_add64 arrival_ns (ts_d_t_ns s)
      in wrap64 (1 + sat_sub64 sender_clock (ts_t0_ns s) div ts_t_int_ns s))"

definition TeslaSchedule_accepts :: "TeslaSchedule \<Rightarrow> nat \<Rightarrow> nat \<Rightarrow> IntervalCheck" where
  "TeslaSchedule_accepts s arrival_ns interval =
     (let x = TeslaSchedule_sender_upper_bound s arrival_ns
      in if x < interval + ts_d s then Safe else UnsafeLate)"

section \<open>Lemmas\<close>

definition schedule_ok :: "TeslaSchedule \<Rightarrow> bool" where
  "schedule_ok s \<longleftrightarrow> ts_t_int_ns s > 0 \<and> ts_d s \<ge> 2 \<and> ts_n_chain s \<ge> 1 \<and> ts_g_max s \<ge> 1"

lemma new_schedule_ok: "TeslaSchedule_new t0 ti d n dt g = Done s \<Longrightarrow> schedule_ok s"
  by (auto simp: TeslaSchedule_new_def schedule_ok_def outcome_simps)

lemma new_schedule_iff:
  "(\<exists>s. TeslaSchedule_new t0 ti d n dt g = Done s) \<longleftrightarrow> 0 < ti \<and> 2 \<le> d \<and> 1 \<le> n \<and> 1 \<le> g"
  by (auto simp: TeslaSchedule_new_def outcome_simps)

lemma interval_of_iff:
  "TeslaSchedule_interval_of s t = Done i \<longleftrightarrow>
     ts_t0_ns s \<le> t \<and> i = 1 + (t - ts_t0_ns s) div ts_t_int_ns s \<and> i \<le> ts_n_chain s"
  by (auto simp: TeslaSchedule_interval_of_def Let_def outcome_simps)

lemma interval_span:
  assumes "schedule_ok s" and "TeslaSchedule_interval_of s t = Done i"
  shows "ts_t0_ns s + (i - 1) * ts_t_int_ns s \<le> t \<and> t < ts_t0_ns s + i * ts_t_int_ns s"
proof -
  define q where "q = t - ts_t0_ns s"
  have t: "t = ts_t0_ns s + q" and i: "i = 1 + q div ts_t_int_ns s"
    using assms(2) by (auto simp: interval_of_iff q_def)
  have "q div ts_t_int_ns s * ts_t_int_ns s \<le> q" by simp
  moreover have "q < Suc (q div ts_t_int_ns s) * ts_t_int_ns s"
    using assms(1) dividend_less_div_times [of "ts_t_int_ns s" q] by (simp add: schedule_ok_def)
  ultimately show ?thesis by (simp add: t i)
qed

text \<open>
  As long as the receiver's pessimistic clock reading fits into 64 bits, nothing saturates or
  wraps. (At saturation, a one-nanosecond interval would make the sum wrap to 0.)
\<close>

lemma upper_bound_eq:
  assumes "a + ts_d_t_ns s < 2 ^ 64 - 1"
  shows "TeslaSchedule_sender_upper_bound s a = 1 + (a + ts_d_t_ns s - ts_t0_ns s) div ts_t_int_ns s"
proof -
  define c where "c = a + ts_d_t_ns s"
  have c: "sat_add64 a (ts_d_t_ns s) = c" using assms by (simp add: sat_add64_def c_def)
  have "(c - ts_t0_ns s) div ts_t_int_ns s \<le> c"
    by (meson diff_le_self div_le_dividend le_trans)
  then have "1 + (c - ts_t0_ns s) div ts_t_int_ns s < 2 ^ 64" using assms by (simp add: c_def)
  then have w: "wrap64 (1 + (c - ts_t0_ns s) div ts_t_int_ns s) = 1 + (c - ts_t0_ns s) div ts_t_int_ns s"
    by (rule wrap64_id)
  have "sat_sub64 c (ts_t0_ns s) = c - ts_t0_ns s" by (simp add: sat_sub64_def)
  then show ?thesis unfolding TeslaSchedule_sender_upper_bound_def Let_def c using w by (simp add: c_def)
qed

text \<open>
  \<open>t\<close> is any reading of the sender's clock up to the moment of arrival: at most \<open>D_t\<close> ahead of the
  receiver's clock.
\<close>

lemma accepts_before_disclosure:
  assumes "TeslaSchedule_accepts s arrival i = Safe" and "arrival + ts_d_t_ns s < 2 ^ 64 - 1"
    and "t \<le> arrival + ts_d_t_ns s" and "TeslaSchedule_interval_of s t = Done j"
  shows "j < i + ts_d s"
proof -
  have "j \<le> 1 + (arrival + ts_d_t_ns s - ts_t0_ns s) div ts_t_int_ns s"
    using assms(3,4) by (auto simp: interval_of_iff intro!: div_le_mono diff_le_mono)
  with assms(1) show ?thesis
    by (auto simp: TeslaSchedule_accepts_def upper_bound_eq [OF assms(2)] Let_def split: if_splits)
qed

lemma disclosed_index_less:
  "0 < i \<Longrightarrow> TeslaSchedule_disclosed_index s j < i \<longleftrightarrow> j < i + ts_d s"
  by (auto simp: TeslaSchedule_disclosed_index_def)

lemma accepts_in_budget:
  assumes ok: "schedule_ok s" and i: "TeslaSchedule_interval_of s t = Done i"
    and w: "arrival + ts_d_t_ns s < 2 ^ 64 - 1"
    and b: "arrival + ts_d_t_ns s < t + (ts_d s - 1) * ts_t_int_ns s"
  shows "TeslaSchedule_accepts s arrival i = Safe"
proof -
  define T where "T = ts_t_int_ns s"
  have T: "0 < T" and d: "2 \<le> ts_d s" using ok by (simp_all add: schedule_ok_def T_def)
  have t: "t < ts_t0_ns s + i * T" using interval_span [OF ok i] by (simp add: T_def)
  have e: "(i + ts_d s - 1) * T = i * T + (ts_d s - 1) * T"
    using d by (metis Nat.add_diff_assoc add_mult_distrib one_le_numeral order_trans)
  have "0 < (ts_d s - 1) * T" using d T by simp
  then have "arrival + ts_d_t_ns s - ts_t0_ns s < (i + ts_d s - 1) * T"
    using b t unfolding e T_def [symmetric] by linarith
  then have "(arrival + ts_d_t_ns s - ts_t0_ns s) div T < i + ts_d s - 1"
    by (simp add: less_mult_imp_div_less)
  then show ?thesis
    using d by (auto simp: TeslaSchedule_accepts_def upper_bound_eq [OF w] Let_def T_def)
qed

section \<open>Properties\<close>

text \<open>
  C28. The TESLA security condition: when the receiver accepts a packet claiming interval \<open>i\<close>, then
  at every reading \<open>t\<close> of the sender's clock up to that moment (at most \<open>D_t\<close> ahead of the receiver's)
  the index the sender discloses is below \<open>i\<close>. Nobody else can have known the packet's MAC key.
\<close>

theorem accepted_key_undisclosed:
  assumes "TeslaSchedule_new t0 t_int d n d_t g = Done s" and "0 < i"
    and "TeslaSchedule_accepts s arrival i = Safe" and "arrival + d_t < 2 ^ 64 - 1"
    and "t \<le> arrival + d_t" and "TeslaSchedule_interval_of s t = Done j"
  shows "TeslaSchedule_disclosed_index s j < i"
proof -
  have "ts_d_t_ns s = d_t" using assms(1) by (auto simp: TeslaSchedule_new_def outcome_simps)
  then show ?thesis
    using accepts_before_disclosure [OF assms(3) _ _ assms(6)] assms(2,4,5) by (simp add: disclosed_index_less)
qed

theorem accepted_key_undisclosed_witness:
  "\<exists>s. TeslaSchedule_new 0 100 2 50 5 3 = Done s \<and> TeslaSchedule_accepts s 250 3 = Safe \<and>
     TeslaSchedule_disclosed_index s 3 < 3"
proof -
  obtain s where s: "TeslaSchedule_new 0 100 2 50 5 3 = Done s" by (simp add: TeslaSchedule_new_def)
  then have e: "s = \<lparr> ts_t0_ns = 0, ts_t_int_ns = 100, ts_d = 2, ts_n_chain = 50, ts_d_t_ns = 5, ts_g_max = 3 \<rparr>"
    by (simp add: TeslaSchedule_new_def)
  have a: "TeslaSchedule_accepts s 250 3 = Safe" and i: "TeslaSchedule_interval_of s 255 = Done 3"
    by (simp_all add: e TeslaSchedule_accepts_def upper_bound_eq interval_of_iff)
  show ?thesis using s a accepted_key_undisclosed [OF s _ a _ _ i] by simp
qed

text \<open>
  C29. Travel budget: a packet sent at \<open>t\<close> in interval \<open>i\<close> that arrives within \<open>(d - 1) T_int - D_t\<close> of
  its sending is accepted.
\<close>

theorem travel_budget:
  assumes "TeslaSchedule_new t0 t_int d n d_t g = Done s" and "TeslaSchedule_interval_of s t = Done i"
    and "arrival + d_t < 2 ^ 64 - 1" and "arrival + d_t < t + (d - 1) * t_int"
  shows "TeslaSchedule_accepts s arrival i = Safe"
proof -
  have "ts_d_t_ns s = d_t" "ts_d s = d" "ts_t_int_ns s = t_int"
    using assms(1) by (auto simp: TeslaSchedule_new_def outcome_simps)
  then show ?thesis using accepts_in_budget [OF new_schedule_ok [OF assms(1)] assms(2)] assms(3,4) by simp
qed

theorem travel_budget_witness:
  "\<exists>s. TeslaSchedule_new 0 100 3 50 5 3 = Done s \<and> TeslaSchedule_accepts s 360 2 = Safe"
proof -
  obtain s where s: "TeslaSchedule_new 0 100 3 50 5 3 = Done s" by (simp add: TeslaSchedule_new_def)
  then have "TeslaSchedule_interval_of s 199 = Done 2"
    by (auto simp: TeslaSchedule_new_def interval_of_iff)
  from travel_budget [OF s this, of 360] show ?thesis using s by simp
qed

end
