(* ===== verification/Tesla_Chain.thy ===== *)
theory Tesla_Chain
  imports Prelude
begin

text \<open>
  The TESLA one-way key chain: \<^verbatim>\<open>src/tesla/chain.rs\<close>. HMAC-SHA256 is the parameter \<open>M\<close> of every
  operation that hashes. Chain indices are \<open>u32\<close> in the code; they are \<open>nat\<close> here, since every
  subtraction is guarded and nothing else is computed on them.

  The contract a verifier of disclosed keys gives the receiver is the locale \<open>key_discloser\<close>:
  trust only moves forward, and the keys handed out are the ones between the old and the new
  trusted index, each once. \<open>ChainVerifier\<close> provides it.
\<close>

section \<open>Definitions\<close>

type_synonym hmac = "bytes \<Rightarrow> bytes \<Rightarrow> bytes"
type_synonym ChainKey = bytes

definition TESLA_KEY_LEN :: nat where
  "TESLA_KEY_LEN = 20"

definition f_step :: "hmac \<Rightarrow> ChainKey \<Rightarrow> ChainKey" where
  "f_step M key = take TESLA_KEY_LEN (M key [0x00])"

definition mac_key :: "hmac \<Rightarrow> ChainKey \<Rightarrow> nat \<Rightarrow> bytes outcome" where
  "mac_key M key n_f =
     obind (guard_panic (n_f \<le> 32) AssertFailed) (\<lambda>_. Done (take n_f (M key [0x01])))"

record TeslaChain =
  tc_keys :: "ChainKey list"

definition TeslaChain_from_final_key :: "hmac \<Rightarrow> ChainKey \<Rightarrow> nat \<Rightarrow> TeslaChain" where
  "TeslaChain_from_final_key M k_final n =
     \<lparr> tc_keys = fold (\<lambda>i keys. keys[i := f_step M (keys ! (i + 1))]) (rev [0..<n])
         ((replicate (n + 1) (replicate TESLA_KEY_LEN 0))[n := k_final]) \<rparr>"

text \<open>\<open>random\<close> is what the operating system's generator filled the final key with.\<close>

definition TeslaChain_generate :: "hmac \<Rightarrow> bytes \<Rightarrow> nat \<Rightarrow> TeslaChain" where
  "TeslaChain_generate M random n_chain = TeslaChain_from_final_key M random n_chain"

definition TeslaChain_key :: "TeslaChain \<Rightarrow> nat \<Rightarrow> ChainKey outcome" where
  "TeslaChain_key c i =
     obind (guard_panic (i < length (tc_keys c)) OutOfBounds) (\<lambda>_. Done (tc_keys c ! i))"

definition TeslaChain_anchor :: "TeslaChain \<Rightarrow> ChainKey outcome" where
  "TeslaChain_anchor c = TeslaChain_key c 0"

datatype Disclosure =
  DNew "(nat \<times> ChainKey) list" | DNotNew | DInvalid | DTooFarAhead | DBeyondChain

record ChainVerifier =
  cv_n_chain :: nat
  cv_g_max :: nat
  cv_trusted_index :: nat
  cv_trusted_key :: ChainKey

definition ChainVerifier_new :: "ChainKey \<Rightarrow> nat \<Rightarrow> nat \<Rightarrow> ChainVerifier" where
  "ChainVerifier_new anchor n_chain g_max =
     \<lparr> cv_n_chain = n_chain, cv_g_max = g_max, cv_trusted_index = 0, cv_trusted_key = anchor \<rparr>"

text \<open>The loop of \<open>check\<close>: the running value and the keys collected so far.\<close>

definition hash_down ::
  "hmac \<Rightarrow> nat \<Rightarrow> nat \<Rightarrow> nat \<Rightarrow> ChainKey \<Rightarrow> ChainKey \<times> (nat \<times> ChainKey) list" where
  "hash_down M trusted index gap candidate =
     fold (\<lambda>s (k, recovered).
             let k' = f_step M k; idx = index - s
             in (k', if idx > trusted then recovered @ [(idx, k')] else recovered))
       [1..<gap + 1] (candidate, [(index, candidate)])"

definition ChainVerifier_check :: "hmac \<Rightarrow> ChainVerifier \<Rightarrow> ChainKey \<Rightarrow> nat \<Rightarrow> ChainVerifier \<times> Disclosure" where
  "ChainVerifier_check M v candidate index =
     (if index \<le> cv_trusted_index v then (v, DNotNew)
      else if index > cv_n_chain v then (v, DBeyondChain)
      else
        (let gap = index - cv_trusted_index v in
         if gap > cv_g_max v then (v, DTooFarAhead)
         else
           (let (k, recovered) = hash_down M (cv_trusted_index v) index gap candidate in
            if k \<noteq> cv_trusted_key v then (v, DInvalid)
            else (v\<lparr>cv_trusted_index := index, cv_trusted_key := candidate\<rparr>, DNew (rev recovered)))))"

section \<open>The chain as iterated hashing\<close>

definition chain_at :: "hmac \<Rightarrow> ChainKey \<Rightarrow> nat \<Rightarrow> nat \<Rightarrow> ChainKey" where
  "chain_at M k_final n i = (f_step M ^^ (n - i)) k_final"

lemma chain_at_step: "i < n \<Longrightarrow> chain_at M k n i = f_step M (chain_at M k n (Suc i))"
  by (metis Suc_diff_Suc chain_at_def comp_apply funpow.simps(2))

lemma chain_at_hash: "j \<le> n \<Longrightarrow> i \<le> j \<Longrightarrow> (f_step M ^^ (j - i)) (chain_at M k n j) = chain_at M k n i"
  by (simp add: chain_at_def flip: funpow_add comp_apply [of "f_step M ^^ _"])

lemma chain_loop:
  assumes "m \<le> n"
  shows "fold (\<lambda>i keys. keys[i := f_step M (keys ! (i + 1))]) (rev [m..<n])
      ((replicate (n + 1) z)[n := k]) =
    replicate m z @ map (chain_at M k n) [m..<Suc n]"
  using assms
proof (induction "n - m" arbitrary: m)
  case 0
  then have "m = n" by simp
  then show ?case by (simp add: chain_at_def replicate_append_same [symmetric] del: replicate_Suc upt_Suc)
      (simp add: chain_at_def list_update_append replicate_append_same [symmetric])
next
  case (Suc l)
  then have m: "m < n" "l = n - Suc m" by auto
  let ?f = "\<lambda>i keys. keys[i := f_step M (keys ! (i + 1))]"
  have "fold ?f (rev [m..<n]) ((replicate (n + 1) z)[n := k]) =
      ?f m (replicate (Suc m) z @ map (chain_at M k n) [Suc m..<Suc n])"
    using m Suc.hyps(1) [OF m(2)] by (simp add: upt_conv_Cons del: upt_Suc)
  also have "\<dots> = replicate m z @ f_step M (chain_at M k n (Suc m)) # map (chain_at M k n) [Suc m..<Suc n]"
    using m by (simp add: nth_append list_update_append replicate_append_same [symmetric] upt_conv_Cons del: upt_Suc)
  also have "\<dots> = replicate m z @ map (chain_at M k n) [m..<Suc n]"
    using m by (simp add: upt_conv_Cons [of m "Suc n"] chain_at_step del: upt_Suc)
  finally show ?case .
qed

lemma from_final_key_keys:
  "tc_keys (TeslaChain_from_final_key M k n) = map (chain_at M k n) [0..<Suc n]"
  using chain_loop [of 0 n M "replicate TESLA_KEY_LEN 0" k] by (simp add: TeslaChain_from_final_key_def)

lemma from_final_key_key:
  "TeslaChain_key (TeslaChain_from_final_key M k n) i =
     (if i \<le> n then Done (chain_at M k n i) else Panic OutOfBounds)"
  by (simp add: TeslaChain_key_def from_final_key_keys nth_append less_Suc_eq_le)

section \<open>Checking a disclosed key\<close>

lemma hash_down_loop:
  assumes "m \<le> gap" and "gap = index - t" and "t < index"
  shows "fold (\<lambda>s (k, recovered).
             let k' = f_step M k; idx = index - s
             in (k', if idx > t then recovered @ [(idx, k')] else recovered))
       [1..<m + 1] (c, [(index, c)]) =
    ((f_step M ^^ m) c, map (\<lambda>s. (index - s, (f_step M ^^ s) c)) [0..<min (Suc m) gap])"
  using assms(1)
proof (induction m)
  case 0
  then show ?case using assms by (simp add: upt_rec)
next
  case (Suc m)
  have "min (Suc m) gap = Suc m" using Suc.prems by simp
  moreover have "index - Suc m > t \<longleftrightarrow> Suc m < gap" using assms(2) by linarith
  moreover have "min (Suc (Suc m)) gap = (if Suc m < gap then Suc (Suc m) else Suc m)" using Suc.prems by simp
  ultimately show ?case using Suc by (cases "Suc m < gap") (auto simp: Let_def)
qed

lemma hash_down_eq:
  assumes "gap = index - t" and "t < index"
  shows "hash_down M t index gap c =
    ((f_step M ^^ gap) c, map (\<lambda>s. (index - s, (f_step M ^^ s) c)) [0..<gap])"
proof -
  have "min (Suc gap) gap = gap" by simp
  then show ?thesis using hash_down_loop [of gap gap index t M c] assms unfolding hash_down_def by simp
qed

text \<open>The keys a successful check hands out, in ascending order.\<close>

definition disclosed_keys :: "hmac \<Rightarrow> nat \<Rightarrow> nat \<Rightarrow> ChainKey \<Rightarrow> (nat \<times> ChainKey) list" where
  "disclosed_keys M t index c = map (\<lambda>i. (i, (f_step M ^^ (index - i)) c)) [Suc t..<Suc index]"

lemma rev_upt_map:
  assumes "t < (index :: nat)"
  shows "rev (map (\<lambda>s. (index - s, g s)) [0..<index - t]) = map (\<lambda>i. (i, g (index - i))) [Suc t..<Suc index]"
  using assms by (intro nth_equalityI) (auto simp: rev_nth nth_upt simp del: upt_Suc)

lemma check_cases:
  "ChainVerifier_check M v c index =
     (if index \<le> cv_trusted_index v then (v, DNotNew)
      else if index > cv_n_chain v then (v, DBeyondChain)
      else if index - cv_trusted_index v > cv_g_max v then (v, DTooFarAhead)
      else if (f_step M ^^ (index - cv_trusted_index v)) c \<noteq> cv_trusted_key v then (v, DInvalid)
      else (v\<lparr>cv_trusted_index := index, cv_trusted_key := c\<rparr>,
            DNew (disclosed_keys M (cv_trusted_index v) index c)))"
  by (simp add: ChainVerifier_check_def hash_down_eq rev_upt_map disclosed_keys_def Let_def)

section \<open>The disclosure contract\<close>

text \<open>\<open>check_run\<close>: the indices of all keys handed out over a sequence of candidates.\<close>

fun check_run :: "('v \<Rightarrow> 'k \<Rightarrow> nat \<Rightarrow> 'v \<times> Disclosure) \<Rightarrow> 'v \<Rightarrow> ('k \<times> nat) list \<Rightarrow> nat list" where
  "check_run chk v [] = []"
| "check_run chk v ((c, i) # cs) =
     (case chk v c i of
        (v', DNew keys) \<Rightarrow> map fst keys @ check_run chk v' cs
      | (v', _) \<Rightarrow> check_run chk v' cs)"

locale key_discloser =
  fixes chk :: "'v \<Rightarrow> 'k \<Rightarrow> nat \<Rightarrow> 'v \<times> Disclosure"
    and trusted :: "'v \<Rightarrow> nat"
  assumes chk_new: "chk v c i = (v', DNew keys) \<Longrightarrow>
      trusted v < i \<and> trusted v' = i \<and> map fst keys = [Suc (trusted v)..<Suc i]"
    and chk_other: "chk v c i = (v', r) \<Longrightarrow> (\<And>keys. r \<noteq> DNew keys) \<Longrightarrow> v' = v"
begin

lemma check_run_consecutive:
  "\<exists>n \<ge> trusted v. check_run chk v cs = [Suc (trusted v)..<Suc n]"
proof (induction cs arbitrary: v)
  case Nil
  show ?case by (intro exI [of _ "trusted v"]) simp
next
  case (Cons ci cs)
  obtain c i where ci: "ci = (c, i)" by (cases ci)
  obtain v' r where r: "chk v c i = (v', r)" by (cases "chk v c i")
  show ?case
  proof (cases "\<exists>keys. r = DNew keys")
    case True
    then obtain keys where k: "r = DNew keys" by blast
    have n: "trusted v < i" "trusted v' = i" "map fst keys = [Suc (trusted v)..<Suc i]"
      using chk_new r k by blast+
    obtain m where m: "i \<le> m" "check_run chk v' cs = [Suc i..<Suc m]" using Cons.IH [of v'] n(2) by auto
    have "[Suc (trusted v)..<Suc i] @ [Suc i..<Suc m] = [Suc (trusted v)..<Suc m]"
      using m(1) n(1) by (metis Suc_le_mono le_Suc_ex less_or_eq_imp_le upt_add_eq_append)
    then show ?thesis using ci r k n m by (intro exI [of _ m]) simp
  next
    case False
    then have "v' = v" using chk_other r by blast
    then show ?thesis using False Cons.IH [of v] ci r by (cases r) auto
  qed
qed

end

lemma check_new_facts:
  assumes "ChainVerifier_check M v c i = (v', DNew keys)"
  shows "cv_trusted_index v < i \<and> cv_trusted_index v' = i \<and> map fst keys = [Suc (cv_trusted_index v)..<Suc i]"
  using assms by (auto simp: check_cases disclosed_keys_def comp_def simp del: upt_Suc split: if_splits)

interpretation chain_verifier: key_discloser "ChainVerifier_check M" cv_trusted_index for M
  by unfold_locales (rule check_new_facts, assumption, auto simp: check_cases split: if_splits)

text \<open>
  \<open>on_chain\<close>: the verifier's trusted key is the chain's key of that index.
\<close>

definition on_chain :: "hmac \<Rightarrow> ChainKey \<Rightarrow> ChainVerifier \<Rightarrow> bool" where
  "on_chain M k_final v \<longleftrightarrow> cv_trusted_index v \<le> cv_n_chain v \<and>
     cv_trusted_key v = chain_at M k_final (cv_n_chain v) (cv_trusted_index v)"

lemma check_genuine:
  assumes v: "on_chain M k v" and i: "cv_trusted_index v < i" "i \<le> cv_n_chain v"
    and g: "i - cv_trusted_index v \<le> cv_g_max v"
  shows "ChainVerifier_check M v (chain_at M k (cv_n_chain v) i) i =
      (v\<lparr>cv_trusted_index := i, cv_trusted_key := chain_at M k (cv_n_chain v) i\<rparr>,
       DNew (map (\<lambda>j. (j, chain_at M k (cv_n_chain v) j)) [Suc (cv_trusted_index v)..<Suc i]))"
    and "on_chain M k (v\<lparr>cv_trusted_index := i, cv_trusted_key := chain_at M k (cv_n_chain v) i\<rparr>)"
  using v i g
  by (auto simp: check_cases on_chain_def chain_at_hash disclosed_keys_def simp del: upt_Suc)

section \<open>Properties\<close>

lemma funpow_collision:
  assumes "(f ^^ n) a = (f ^^ n) b" and "a \<noteq> b"
  shows "\<exists>m<n. (f ^^ m) a \<noteq> (f ^^ m) b \<and> f ((f ^^ m) a) = f ((f ^^ m) b)"
  using assms
proof (induction n)
  case 0
  then show ?case by simp
next
  case (Suc n)
  show ?case
  proof (cases "(f ^^ n) a = (f ^^ n) b")
    case True
    then show ?thesis using Suc by (meson less_Suc_eq)
  next
    case False
    then show ?thesis using Suc.prems(1) by (intro exI [of _ n]) simp
  qed
qed

text \<open>
  C27. A verifier that trusts a key of the sender's chain accepts a candidate for index \<open>i\<close> only if
  it is the chain's key of index \<open>i\<close>, in which case it hands out exactly the chain's keys up to \<open>i\<close>
  and again trusts a key of the chain; or else one of the values hashed during the check collides,
  under one step of the chain function, with the genuine key's value at the same depth.
\<close>

theorem chain_check_sound:
  assumes "on_chain M kf v" and "ChainVerifier_check M v c i = (v', DNew keys)"
  shows "c = chain_at M kf (cv_n_chain v) i \<and> on_chain M kf v' \<and>
      keys = map (\<lambda>j. (j, chain_at M kf (cv_n_chain v) j)) [Suc (cv_trusted_index v)..<Suc i]
    \<or> (\<exists>m<i - cv_trusted_index v. let x = (f_step M ^^ m) c; y = (f_step M ^^ m) (chain_at M kf (cv_n_chain v) i) in
         x \<noteq> y \<and> f_step M x = f_step M y)"
proof (cases "c = chain_at M kf (cv_n_chain v) i")
  case True
  have b: "cv_trusted_index v < i" "i \<le> cv_n_chain v" "i - cv_trusted_index v \<le> cv_g_max v"
    using assms(2) by (auto simp: check_cases split: if_splits)
  show ?thesis using check_genuine [OF assms(1) b] assms(2) True by auto
next
  case False
  have "cv_trusted_index v < i" "i \<le> cv_n_chain v" "(f_step M ^^ (i - cv_trusted_index v)) c = cv_trusted_key v"
    using assms(2) by (auto simp: check_cases split: if_splits)
  then have "(f_step M ^^ (i - cv_trusted_index v)) c =
      (f_step M ^^ (i - cv_trusted_index v)) (chain_at M kf (cv_n_chain v) i)"
    using assms(1) by (simp add: on_chain_def chain_at_hash)
  from funpow_collision [OF this False] show ?thesis by (simp add: Let_def)
qed

text \<open>For examples: a MAC that returns 32 bytes depending on key and message.\<close>

definition sample_hmac :: hmac where
  "sample_hmac k m = replicate 32 (sum_list k + sum_list m + of_nat (length m))"

theorem chain_check_sound_witness:
  "let kf = replicate 20 7; v = ChainVerifier_new (chain_at sample_hmac kf 3 0) 3 2;
       c = chain_at sample_hmac kf 3 2 in
     (\<exists>m<2. let x = (f_step sample_hmac ^^ m) c; y = (f_step sample_hmac ^^ m) (chain_at sample_hmac kf 3 2) in
        x \<noteq> y \<and> f_step sample_hmac x = f_step sample_hmac y) \<or>
     snd (ChainVerifier_check sample_hmac v c 2) = DNew [(1, chain_at sample_hmac kf 3 1), (2, c)]"
proof -
  define kf :: bytes where "kf = replicate 20 7"
  define v where "v = ChainVerifier_new (chain_at sample_hmac kf 3 0) 3 2"
  have v: "on_chain sample_hmac kf v" "cv_n_chain v = 3" "cv_trusted_index v = 0" "cv_g_max v = 2"
    by (simp_all add: on_chain_def v_def ChainVerifier_new_def)
  obtain v' keys where c: "ChainVerifier_check sample_hmac v (chain_at sample_hmac kf 3 2) 2 = (v', DNew keys)"
    using check_genuine(1) [OF v(1), of 2] v(2-4) by simp
  show ?thesis
    using chain_check_sound [OF v(1) c] c v(2,3)
    unfolding kf_def [symmetric] v_def [symmetric] Let_def by (auto simp: upt_rec numeral_2_eq_2)
qed

text \<open>
  Each key is handed out once and in order: over any sequence of candidates presented to a
  new verifier, the indices of the keys it releases are \<open>1, 2, ..., n\<close> for some \<open>n\<close>, without gap
  or repetition.
\<close>

lemma keys_released_once:
  "\<exists>n. check_run (ChainVerifier_check M) (ChainVerifier_new anchor n_chain g_max) cs = [1..<Suc n]"
  using chain_verifier.check_run_consecutive [of "ChainVerifier_new anchor n_chain g_max" M cs]
  by (auto simp: ChainVerifier_new_def)

text \<open>
  The table the chain is filled from by a backward loop is the closed form: the key of index
  \<open>i\<close> is the final key hashed \<open>n - i\<close> times, the anchor is it hashed \<open>n\<close> times, every key is one
  step from the next one, and an index beyond the chain is out of bounds.
\<close>

lemma chain_is_iterated_hash:
  "TeslaChain_anchor (TeslaChain_generate M random n) = Done ((f_step M ^^ n) random) \<and>
   TeslaChain_key (TeslaChain_generate M random n) i =
     (if i \<le> n then Done ((f_step M ^^ (n - i)) random) else Panic OutOfBounds)"
  by (simp add: TeslaChain_anchor_def TeslaChain_generate_def from_final_key_key chain_at_def)

end
