(* ===== verification/Tesla_Mac.thy ===== *)
theory Tesla_Mac
  imports Tesla_Chain Rtp
begin

text \<open>
  The per-packet TESLA tag and the 34-byte extension that carries it: \<^verbatim>\<open>src/tesla/mac.rs\<close> and
  \<^verbatim>\<open>src/tesla/mod.rs\<close>. HMAC-SHA256 is the parameter \<open>M\<close>, the tag of AES-128-GCM over associated
  data only the parameter \<open>A\<close> (key, nonce, data).

  Shown here: the tag input determines the packet's position in the stream and all its bytes,
  for both algorithms, and the extension is read back as it was written.
\<close>

section \<open>Definitions\<close>

type_synonym gmac = "bytes \<Rightarrow> bytes \<Rightarrow> bytes \<Rightarrow> bytes"

definition TESLA_MAC_LEN :: nat where
  "TESLA_MAC_LEN = 10"

datatype TeslaMacAlg = HmacSha256 | GmacAes128

definition TeslaMacAlg_mac_key_len :: "TeslaMacAlg \<Rightarrow> nat" where
  "TeslaMacAlg_mac_key_len alg = (case alg of HmacSha256 \<Rightarrow> 32 | GmacAes128 \<Rightarrow> 16)"

datatype PreparedMac = PHmac bytes | PGmac bytes

definition TeslaMacAlg_prepare :: "hmac \<Rightarrow> TeslaMacAlg \<Rightarrow> ChainKey \<Rightarrow> PreparedMac outcome" where
  "TeslaMacAlg_prepare M alg chain_key =
     obind (mac_key M chain_key (TeslaMacAlg_mac_key_len alg)) (\<lambda>key.
     Done (case alg of HmacSha256 \<Rightarrow> PHmac key | GmacAes128 \<Rightarrow> PGmac key))"

definition hmac_input :: "nat \<Rightarrow> bytes \<Rightarrow> bytes" where
  "hmac_input ext_index packet = u32_to_be (of_nat (ext_index div 65536)) @ packet"

definition gmac_nonce :: "nat \<Rightarrow> bytes" where
  "gmac_nonce ext_index = replicate 4 0 @ be_bytes 8 ext_index"

definition PreparedMac_tag :: "hmac \<Rightarrow> gmac \<Rightarrow> PreparedMac \<Rightarrow> nat \<Rightarrow> bytes \<Rightarrow> bytes" where
  "PreparedMac_tag M A prepared ext_index packet =
     (case prepared of
        PHmac key \<Rightarrow> take TESLA_MAC_LEN (M key (hmac_input ext_index packet))
      | PGmac key \<Rightarrow> take TESLA_MAC_LEN (A key (gmac_nonce ext_index) packet))"

definition TESLA_EXT_LEN :: nat where
  "TESLA_EXT_LEN = 4 + TESLA_KEY_LEN + TESLA_MAC_LEN"

definition append_extension :: "bytes \<Rightarrow> nat \<Rightarrow> ChainKey \<Rightarrow> bytes \<Rightarrow> bytes" where
  "append_extension buf interval disclosed mac = buf @ be_bytes 4 interval @ disclosed @ mac"

definition split_extension :: "bytes \<Rightarrow> bytes \<times> (nat \<times> ChainKey \<times> bytes) option" where
  "split_extension buf =
     (if length buf \<le> TESLA_EXT_LEN then (buf, None)
      else
        (let b = length buf - TESLA_EXT_LEN;
             interval = be_val (segment b 4 buf);
             disclosed = segment (b + 4) TESLA_KEY_LEN buf;
             mac = drop (b + 4 + TESLA_KEY_LEN) buf
         in (take b buf, Some (interval, disclosed, mac))))"

lemmas tesla_len_defs = TESLA_EXT_LEN_def TESLA_KEY_LEN_def TESLA_MAC_LEN_def

section \<open>The tag\<close>

text \<open>HMAC-SHA256 returns 32 bytes and AES-GCM's tag has 16.\<close>

definition mac_sound :: "hmac \<Rightarrow> gmac \<Rightarrow> bool" where
  "mac_sound M A \<longleftrightarrow> (\<forall>k m. length (M k m) = 32) \<and> (\<forall>k n m. length (A k n m) = 16)"

definition interval_mac :: "hmac \<Rightarrow> TeslaMacAlg \<Rightarrow> ChainKey \<Rightarrow> PreparedMac" where
  "interval_mac M alg k =
     (case alg of HmacSha256 \<Rightarrow> PHmac (take 32 (M k [0x01])) | GmacAes128 \<Rightarrow> PGmac (take 16 (M k [0x01])))"

lemma prepare_eq: "TeslaMacAlg_prepare M alg k = Done (interval_mac M alg k)"
  by (cases alg) (simp_all add: TeslaMacAlg_prepare_def mac_key_def TeslaMacAlg_mac_key_len_def interval_mac_def)

lemma length_tag: "mac_sound M A \<Longrightarrow> length (PreparedMac_tag M A p i pkt) = TESLA_MAC_LEN"
  by (cases p) (simp_all add: PreparedMac_tag_def mac_sound_def TESLA_MAC_LEN_def)

lemma length_chain_at:
  assumes "mac_sound M A" and "length kf = TESLA_KEY_LEN"
  shows "length (chain_at M kf n i) = TESLA_KEY_LEN"
proof -
  have "length ((f_step M ^^ m) kf) = TESLA_KEY_LEN" for m
    using assms by (induction m) (simp_all add: f_step_def mac_sound_def TESLA_KEY_LEN_def)
  then show ?thesis by (simp add: chain_at_def)
qed

text \<open>The stream position a header's sequence number is the low half of.\<close>

definition positioned :: "nat \<Rightarrow> bytes \<Rightarrow> bool" where
  "positioned i pkt \<longleftrightarrow> header_seq pkt = of_nat i"

lemma hmac_input_binds:
  assumes "hmac_input i p = hmac_input j q" and "positioned i p" "positioned j q"
    and "i < 2 ^ 48" "j < 2 ^ 48"
  shows "i = j \<and> p = q"
proof -
  have pq: "p = q" and hi: "(of_nat (i div 65536) :: u32) = of_nat (j div 65536)"
    using assms(1) by (simp_all add: hmac_input_def)
  have "unat (of_nat (i div 65536) :: u32) = unat (of_nat (j div 65536) :: u32)" using hi by simp
  then have "i div 65536 = j div 65536"
    using assms(4,5) by (simp add: unat_of_nat_u32 less_mult_imp_div_less)
  moreover have "(of_nat i :: u16) = of_nat j" using assms(2,3) pq by (simp add: positioned_def)
  then have "unat (of_nat i :: u16) = unat (of_nat j :: u16)" by simp
  then have "i mod 65536 = j mod 65536" by (simp add: unat_of_nat)
  ultimately show ?thesis using pq by (metis div_mod_decomp)
qed

lemma gmac_nonce_inj: "gmac_nonce i = gmac_nonce j \<Longrightarrow> i < 2 ^ 64 \<Longrightarrow> j < 2 ^ 64 \<Longrightarrow> i = j"
  unfolding gmac_nonce_def by (auto intro: be_bytes_inj [of 8])

section \<open>The extension\<close>

lemma split_append_extension:
  assumes "length k = TESLA_KEY_LEN" "length mac = TESLA_MAC_LEN" "i < 2 ^ 32" "buf \<noteq> []"
  shows "split_extension (append_extension buf i k mac) = (buf, Some (i, k, mac))"
  using assms
  by (simp add: split_extension_def append_extension_def segment_def tesla_len_defs Let_def)

lemma split_extension_cases:
  assumes "split_extension buf = (b, Some (i, k, mac))"
  shows "buf = append_extension b i k mac" "length k = TESLA_KEY_LEN" "length mac = TESLA_MAC_LEN"
    "i < 2 ^ 32" "b \<noteq> []"
proof -
  define n where "n = length buf - TESLA_EXT_LEN"
  from assms have l: "TESLA_EXT_LEN < length buf" and b: "b = take n buf" and i: "i = be_val (segment n 4 buf)"
    and k: "k = segment (n + 4) TESLA_KEY_LEN buf" and mac: "mac = drop (n + 4 + TESLA_KEY_LEN) buf"
    by (auto simp: split_extension_def n_def Let_def split: if_splits)
  have n: "n + 34 = length buf" "0 < n" using l by (simp_all add: n_def tesla_len_defs)
  have "length (segment n 4 buf) = 4" using n by simp
  then have be: "be_bytes 4 i = segment n 4 buf" using be_bytes_be_val [of "segment n 4 buf"] by (simp add: i)
  have "buf = take n buf @ segment n 4 buf @ segment (n + 4) 20 buf @ drop (n + 4 + 20) buf"
    unfolding segment_def by (metis add.commute append_take_drop_id drop_drop)
  then show "buf = append_extension b i k mac"
    unfolding append_extension_def be unfolding b k mac by (simp add: TESLA_KEY_LEN_def)
  show "length k = TESLA_KEY_LEN" "length mac = TESLA_MAC_LEN" using n by (simp_all add: k mac tesla_len_defs)
  show "i < 2 ^ 32" using be_val_less [of "segment n 4 buf"] n by (simp add: i)
  show "b \<noteq> []" using n by (auto simp: b)
qed

text \<open>The extension as a wire format: the packet in front, the interval, the key and the tag.\<close>

definition ext_enc :: "bytes \<times> nat \<times> ChainKey \<times> bytes \<Rightarrow> bytes" where
  "ext_enc x = (case x of (buf, i, k, mac) \<Rightarrow> append_extension buf i k mac)"

definition ext_dec :: "bytes \<Rightarrow> (bytes \<times> nat \<times> ChainKey \<times> bytes) option" where
  "ext_dec buf = (case split_extension buf of (b, None) \<Rightarrow> None | (b, Some x) \<Rightarrow> Some (b, x))"

definition ext_wf :: "bytes \<times> nat \<times> ChainKey \<times> bytes \<Rightarrow> bool" where
  "ext_wf x \<longleftrightarrow> (case x of (buf, i, k, mac) \<Rightarrow>
     length k = TESLA_KEY_LEN \<and> length mac = TESLA_MAC_LEN \<and> i < 2 ^ 32 \<and> buf \<noteq> [])"

interpretation tesla_wire: wire_codec ext_enc ext_dec ext_wf
  by unfold_locales (auto simp: ext_enc_def ext_dec_def ext_wf_def split_append_extension)

section \<open>Properties\<close>

text \<open>For examples.\<close>

definition sample_gmac :: gmac where
  "sample_gmac k n m = replicate 16 (sum_list k + sum_list n + sum_list m)"

lemma sample_mac_sound: "mac_sound sample_hmac sample_gmac"
  by (simp add: mac_sound_def sample_hmac_def sample_gmac_def)

text \<open>
  The extension is a faithful wire format: what \<^verbatim>\<open>append_extension\<close> writes behind a packet,
  \<^verbatim>\<open>split_extension\<close> reads back, and whenever \<^verbatim>\<open>split_extension\<close> finds an extension, appending the
  parts again gives the same datagram.
\<close>

lemma extension_roundtrip:
  "(length k = TESLA_KEY_LEN \<longrightarrow> length mac = TESLA_MAC_LEN \<longrightarrow> i < 2 ^ 32 \<longrightarrow> buf \<noteq> [] \<longrightarrow>
      split_extension (append_extension buf i k mac) = (buf, Some (i, k, mac))) \<and>
   (split_extension dg = (b, Some (i', k', mac')) \<longrightarrow>
      append_extension b i' k' mac' = dg \<and> length k' = TESLA_KEY_LEN \<and> length mac' = TESLA_MAC_LEN)"
  using split_append_extension split_extension_cases by metis

text \<open>
  Tags are bound to packet and position: under HMAC two packets at two stream positions feed the
  same bytes to the MAC only if packet and position are equal (the sequence number in the header
  supplies the low 16 bits); under GMAC different positions have different nonces.
\<close>

lemma tag_binds_position:
  assumes "header_seq p = of_nat i" and "header_seq q = of_nat j" and "i < 2 ^ 48" and "j < 2 ^ 48"
  shows "(hmac_input i p = hmac_input j q \<longleftrightarrow> i = j \<and> p = q) \<and> (gmac_nonce i = gmac_nonce j \<longleftrightarrow> i = j)"
  using hmac_input_binds [of i p j q] gmac_nonce_inj [of i j] assms by (auto simp: positioned_def)

end
