(* ===== verification/Tesla_Sender.thy ===== *)
theory Tesla_Sender
  imports Tesla_Schedule Tesla_Mac Mls_Export
begin

text \<open>
  The sending half of TESLA: the signed commitment that starts a stream
  (\<^verbatim>\<open>src/tesla/commitment.rs\<close>) and the per-packet authentication (\<^verbatim>\<open>src/tesla/sender.rs\<close>).
  The signature scheme of the MLS leaf key is a parameter: \<open>sig\<close> signs (an error is \<open>None\<close>), \<open>vs\<close>
  verifies a message under a public key.

  Shown here: two different commitments never have the same signed bytes; the datagram the
  sender emits for a packet, in whatever state earlier packets left it.
\<close>

section \<open>The commitment\<close>

definition DOMAIN :: bytes where
  "DOMAIN = ascii ''MLS-SRTP TESLA commitment''"

record TeslaCommitment =
  co_anchor :: ChainKey
  co_t0_ns :: nat
  co_t_int_ns :: nat
  co_d :: nat
  co_n_chain :: nat
  co_mac_alg :: TeslaMacAlg
  co_sender_identity :: bytes
  co_ssrc :: u32
  co_group_id :: bytes
  co_epoch :: nat

definition TeslaCommitment_to_bytes :: "TeslaCommitment \<Rightarrow> bytes" where
  "TeslaCommitment_to_bytes c =
     DOMAIN @ co_anchor c @ be_bytes 8 (co_t0_ns c) @ be_bytes 8 (co_t_int_ns c)
       @ be_bytes 4 (co_d c) @ be_bytes 4 (co_n_chain c)
       @ [case co_mac_alg c of HmacSha256 \<Rightarrow> 0 | GmacAes128 \<Rightarrow> 1]
       @ be_bytes 4 (length (co_sender_identity c)) @ co_sender_identity c
       @ u32_to_be (co_ssrc c)
       @ be_bytes 4 (length (co_group_id c)) @ co_group_id c
       @ be_bytes 8 (co_epoch c)"

definition TeslaCommitment_sign :: "(bytes \<Rightarrow> bytes option) \<Rightarrow> TeslaCommitment \<Rightarrow> bytes outcome" where
  "TeslaCommitment_sign sig c = expect (sig (TeslaCommitment_to_bytes c))"

definition TeslaCommitment_verify ::
  "(bytes \<Rightarrow> bytes \<Rightarrow> bytes \<Rightarrow> bool) \<Rightarrow> TeslaCommitment \<Rightarrow> bytes \<Rightarrow> bytes \<Rightarrow> bool" where
  "TeslaCommitment_verify vs c signature sender_public_key =
     vs (TeslaCommitment_to_bytes c) sender_public_key signature"

definition TeslaCommitment_schedule :: "TeslaCommitment \<Rightarrow> nat \<Rightarrow> nat \<Rightarrow> TeslaSchedule outcome" where
  "TeslaCommitment_schedule c d_t_ns g_max =
     TeslaSchedule_new (co_t0_ns c) (co_t_int_ns c) (co_d c) (co_n_chain c) d_t_ns g_max"

text \<open>The ranges of the Rust field types, and identities shorter than 4 GiB.\<close>

definition commitment_wf :: "TeslaCommitment \<Rightarrow> bool" where
  "commitment_wf c \<longleftrightarrow> length (co_anchor c) = TESLA_KEY_LEN \<and> co_t0_ns c < 2 ^ 64 \<and> co_t_int_ns c < 2 ^ 64 \<and>
     co_d c < 2 ^ 32 \<and> co_n_chain c < 2 ^ 32 \<and> length (co_sender_identity c) < 2 ^ 32 \<and>
     length (co_group_id c) < 2 ^ 32 \<and> co_epoch c < 2 ^ 64"

lemma be_bytes_4_inj: "be_bytes 4 a = be_bytes 4 b \<Longrightarrow> a < 2 ^ 32 \<Longrightarrow> b < 2 ^ 32 \<Longrightarrow> a = b"
  by (rule be_bytes_inj [of 4]) simp_all

lemma be_bytes_8_inj: "be_bytes 8 a = be_bytes 8 b \<Longrightarrow> a < 2 ^ 64 \<Longrightarrow> b < 2 ^ 64 \<Longrightarrow> a = b"
  by (rule be_bytes_inj [of 8]) simp_all

text \<open>A length-prefixed field can be read off the front of a byte string.\<close>

lemma prefixed_inj:
  assumes "be_bytes 4 (length a) @ a @ x = be_bytes 4 (length b) @ b @ y"
    and "length a < 2 ^ 32" and "length b < 2 ^ 32"
  shows "a = b \<and> x = y"
proof -
  have "be_bytes 4 (length a) = be_bytes 4 (length b)" and r: "a @ x = b @ y"
    using assms(1) by (simp_all add: append_eq_append_conv)
  then have "length a = length b" using be_bytes_4_inj assms(2,3) by blast
  with r show ?thesis by simp
qed

lemma commitment_to_bytes_inj:
  assumes "commitment_wf a" and "commitment_wf b" and "TeslaCommitment_to_bytes a = TeslaCommitment_to_bytes b"
  shows "a = b"
proof -
  have l: "length (co_anchor a) = length (co_anchor b)" using assms(1,2) by (simp add: commitment_wf_def)
  have 1: "co_anchor a = co_anchor b" "be_bytes 8 (co_t0_ns a) = be_bytes 8 (co_t0_ns b)"
    "be_bytes 8 (co_t_int_ns a) = be_bytes 8 (co_t_int_ns b)" "be_bytes 4 (co_d a) = be_bytes 4 (co_d b)"
    "be_bytes 4 (co_n_chain a) = be_bytes 4 (co_n_chain b)"
    "(case co_mac_alg a of HmacSha256 \<Rightarrow> (0 :: u8) | GmacAes128 \<Rightarrow> 1) =
     (case co_mac_alg b of HmacSha256 \<Rightarrow> 0 | GmacAes128 \<Rightarrow> 1)"
    and r: "be_bytes 4 (length (co_sender_identity a)) @ co_sender_identity a
       @ (u32_to_be (co_ssrc a) @ be_bytes 4 (length (co_group_id a)) @ co_group_id a @ be_bytes 8 (co_epoch a)) =
     be_bytes 4 (length (co_sender_identity b)) @ co_sender_identity b
       @ (u32_to_be (co_ssrc b) @ be_bytes 4 (length (co_group_id b)) @ co_group_id b @ be_bytes 8 (co_epoch b))"
    using assms(3) l by (simp_all add: TeslaCommitment_to_bytes_def)
  from prefixed_inj [OF r] assms(1,2)
  have 2: "co_sender_identity a = co_sender_identity b"
    and r2: "u32_to_be (co_ssrc a) @ be_bytes 4 (length (co_group_id a)) @ co_group_id a @ be_bytes 8 (co_epoch a) =
      u32_to_be (co_ssrc b) @ be_bytes 4 (length (co_group_id b)) @ co_group_id b @ be_bytes 8 (co_epoch b)"
    by (simp_all add: commitment_wf_def)
  have 3: "co_ssrc a = co_ssrc b"
    and r3: "be_bytes 4 (length (co_group_id a)) @ co_group_id a @ be_bytes 8 (co_epoch a) =
      be_bytes 4 (length (co_group_id b)) @ co_group_id b @ be_bytes 8 (co_epoch b)"
    using r2 by (simp_all add: append_eq_append_conv)
  from prefixed_inj [OF r3] assms(1,2)
  have 4: "co_group_id a = co_group_id b" "be_bytes 8 (co_epoch a) = be_bytes 8 (co_epoch b)"
    by (simp_all add: commitment_wf_def)
  have "co_t0_ns a = co_t0_ns b" "co_t_int_ns a = co_t_int_ns b" "co_epoch a = co_epoch b"
    using 1 4 assms(1,2) be_bytes_8_inj by (simp_all add: commitment_wf_def)
  moreover have "co_d a = co_d b" "co_n_chain a = co_n_chain b"
    using 1 assms(1,2) be_bytes_4_inj by (simp_all add: commitment_wf_def)
  moreover have "co_mac_alg a = co_mac_alg b" using 1(6) by (simp split: TeslaMacAlg.splits)
  ultimately show ?thesis using 1(1) 2 3 4(1) by simp
qed

section \<open>The sender\<close>

record TeslaSender =
  sn_params :: TeslaSchedule
  sn_chain :: TeslaChain
  sn_alg :: TeslaMacAlg
  sn_current_interval :: nat
  sn_prepared :: PreparedMac

definition TeslaSender_new :: "hmac \<Rightarrow> bytes \<Rightarrow> TeslaSchedule \<Rightarrow> TeslaMacAlg \<Rightarrow> TeslaSender outcome" where
  "TeslaSender_new M random params alg =
     (let chain = TeslaChain_generate M random (ts_n_chain params) in
      obind (TeslaChain_key chain 1) (\<lambda>k1.
      obind (TeslaMacAlg_prepare M alg k1) (\<lambda>prepared.
      Done \<lparr> sn_params = params, sn_chain = chain, sn_alg = alg, sn_current_interval = 1,
             sn_prepared = prepared \<rparr>)))"

definition TeslaSender_anchor :: "TeslaSender \<Rightarrow> ChainKey outcome" where
  "TeslaSender_anchor s = TeslaChain_anchor (sn_chain s)"

definition TeslaSender_authenticate ::
  "hmac \<Rightarrow> gmac \<Rightarrow> TeslaSender \<Rightarrow> bytes \<Rightarrow> nat \<Rightarrow> nat \<Rightarrow> (TeslaSender \<times> bytes) outcome" where
  "TeslaSender_authenticate M A s buf ext_index send_ns =
     obind (TeslaSchedule_interval_of (sn_params s) send_ns) (\<lambda>interval.
     obind (if interval \<noteq> sn_current_interval s
            then obind (TeslaChain_key (sn_chain s) interval) (\<lambda>k.
                 obind (TeslaMacAlg_prepare M (sn_alg s) k) (\<lambda>prepared.
                 Done (s\<lparr>sn_prepared := prepared, sn_current_interval := interval\<rparr>)))
            else Done s) (\<lambda>s'.
     let mac = PreparedMac_tag M A (sn_prepared s') ext_index buf in
     obind (TeslaChain_key (sn_chain s') (TeslaSchedule_disclosed_index (sn_params s') interval)) (\<lambda>disclosed.
     Done (s', append_extension buf interval disclosed mac))))"

text \<open>
  The sender's state for a chain with final key \<open>kf\<close>, with the MAC of interval \<open>i\<close> prepared; the
  datagram of a packet, independent of that state.
\<close>

definition sender_state :: "hmac \<Rightarrow> ChainKey \<Rightarrow> TeslaSchedule \<Rightarrow> TeslaMacAlg \<Rightarrow> nat \<Rightarrow> TeslaSender" where
  "sender_state M kf params alg i =
     \<lparr> sn_params = params, sn_chain = TeslaChain_from_final_key M kf (ts_n_chain params), sn_alg = alg,
       sn_current_interval = i,
       sn_prepared = interval_mac M alg (chain_at M kf (ts_n_chain params) i) \<rparr>"

definition packet_mac :: "hmac \<Rightarrow> gmac \<Rightarrow> ChainKey \<Rightarrow> TeslaSchedule \<Rightarrow> TeslaMacAlg \<Rightarrow> nat \<Rightarrow> nat \<Rightarrow> bytes \<Rightarrow> bytes" where
  "packet_mac M A kf params alg i ext_index buf =
     PreparedMac_tag M A (interval_mac M alg (chain_at M kf (ts_n_chain params) i)) ext_index buf"

definition datagram :: "hmac \<Rightarrow> gmac \<Rightarrow> ChainKey \<Rightarrow> TeslaSchedule \<Rightarrow> TeslaMacAlg \<Rightarrow> nat \<Rightarrow> nat \<Rightarrow> bytes \<Rightarrow> bytes" where
  "datagram M A kf params alg i ext_index buf =
     append_extension buf i (chain_at M kf (ts_n_chain params) (TeslaSchedule_disclosed_index params i))
       (packet_mac M A kf params alg i ext_index buf)"

lemma sender_new:
  "1 \<le> ts_n_chain params \<Longrightarrow> TeslaSender_new M kf params alg = Done (sender_state M kf params alg 1)"
  by (simp add: TeslaSender_new_def TeslaChain_generate_def from_final_key_key prepare_eq sender_state_def Let_def)

lemma disclosed_index_le: "TeslaSchedule_disclosed_index s i \<le> i"
  by (simp add: TeslaSchedule_disclosed_index_def)

lemma sender_authenticate:
  assumes "TeslaSchedule_interval_of params t = Done i"
  shows "TeslaSender_authenticate M A (sender_state M kf params alg j) buf ext t =
    Done (sender_state M kf params alg i, datagram M A kf params alg i ext buf)"
proof -
  have i: "i \<le> ts_n_chain params" using assms by (simp add: interval_of_iff)
  then have "TeslaSchedule_disclosed_index params i \<le> ts_n_chain params"
    using disclosed_index_le le_trans by blast
  then show ?thesis using assms i
    by (auto simp: TeslaSender_authenticate_def sender_state_def from_final_key_key prepare_eq datagram_def
        packet_mac_def Let_def)
qed

section \<open>Properties\<close>

text \<open>
  C38. The signature covers every field: two commitments within the ranges of their field types have
  the same signed bytes only if they are equal, although two fields have variable length. A verdict of
  \<^verbatim>\<open>verify\<close> on one commitment therefore never transfers to another.
\<close>

theorem commitment_encoding_injective:
  assumes "commitment_wf a" and "commitment_wf b"
  shows "TeslaCommitment_to_bytes a = TeslaCommitment_to_bytes b \<longleftrightarrow> a = b"
  using commitment_to_bytes_inj [OF assms] by blast

definition sample_commitment :: "bytes \<Rightarrow> bytes \<Rightarrow> TeslaCommitment" where
  "sample_commitment sender gid =
     \<lparr> co_anchor = chain_at sample_hmac (replicate 20 7) 9 0, co_t0_ns = 0, co_t_int_ns = 100, co_d = 2, co_n_chain = 9,
       co_mac_alg = HmacSha256, co_sender_identity = sender, co_ssrc = 9, co_group_id = gid, co_epoch = 4 \<rparr>"

lemma sample_commitment_wf:
  "length sender < 2 ^ 32 \<Longrightarrow> length gid < 2 ^ 32 \<Longrightarrow> commitment_wf (sample_commitment sender gid)"
  using length_chain_at [OF sample_mac_sound, of "replicate 20 7" 9 0]
  by (simp add: commitment_wf_def sample_commitment_def TESLA_KEY_LEN_def)

theorem commitment_encoding_injective_witness:
  "TeslaCommitment_to_bytes (sample_commitment [1, 2] [3]) \<noteq> TeslaCommitment_to_bytes (sample_commitment [1] [2, 3])"
  using commitment_encoding_injective [OF sample_commitment_wf [of "[1, 2]" "[3]"] sample_commitment_wf [of "[1]" "[2, 3]"]]
  by (simp add: sample_commitment_def)

text \<open>
  C39. What the TESLA sender emits: a new sender authenticates every packet sent within its
  schedule, in any order of intervals, and the datagram is the packet followed by its interval, the
  chain key of \<open>d\<close> intervals earlier (the anchor during the first \<open>d\<close>), and the tag under that
  interval's key. The cached key schedule never leaks into another interval.
\<close>

theorem tesla_sender_emits:
  assumes "1 \<le> ts_n_chain params" and "\<forall>(buf, ext, t)\<in>set pkts. \<exists>i. TeslaSchedule_interval_of params t = Done i"
  shows "\<exists>s. obind (TeslaSender_new M kf params alg)
      (\<lambda>s0. run_steps (\<lambda>s (buf, ext, t). TeslaSender_authenticate M A s buf ext t) s0 pkts) =
    Done (s, map (\<lambda>(buf, ext, t). let i = 1 + (t - ts_t0_ns params) div ts_t_int_ns params in
      append_extension buf i (chain_at M kf (ts_n_chain params) (i - ts_d params))
        (PreparedMac_tag M A (interval_mac M alg (chain_at M kf (ts_n_chain params) i)) ext buf)) pkts)"
proof -
  have "\<exists>s. run_steps (\<lambda>s (buf, ext, t). TeslaSender_authenticate M A s buf ext t) (sender_state M kf params alg j) pkts =
    Done (s, map (\<lambda>(buf, ext, t). let i = 1 + (t - ts_t0_ns params) div ts_t_int_ns params in
      append_extension buf i (chain_at M kf (ts_n_chain params) (i - ts_d params))
        (PreparedMac_tag M A (interval_mac M alg (chain_at M kf (ts_n_chain params) i)) ext buf)) pkts)" for j
    using assms(2)
  proof (induction pkts arbitrary: j)
    case Nil
    then show ?case by simp
  next
    case (Cons p pkts)
    obtain buf ext t where p: "p = (buf, ext, t)" by (cases p) auto
    obtain i where i: "TeslaSchedule_interval_of params t = Done i" using Cons.prems by (auto simp: p)
    have e: "Suc ((t - ts_t0_ns params) div ts_t_int_ns params) = i" using i by (simp add: interval_of_iff)
    have d: "TeslaSchedule_disclosed_index params i = i - ts_d params" by (simp add: TeslaSchedule_disclosed_index_def)
    show ?case using Cons.IH [of i] Cons.prems
      by (auto simp: p sender_authenticate [OF i] datagram_def packet_mac_def d Let_def e)
  qed
  then show ?thesis using sender_new [OF assms(1)] by simp
qed

definition sample_schedule :: TeslaSchedule where
  "sample_schedule = \<lparr> ts_t0_ns = 0, ts_t_int_ns = 100, ts_d = 2, ts_n_chain = 9, ts_d_t_ns = 5, ts_g_max = 4 \<rparr>"

theorem tesla_sender_emits_witness:
  "\<exists>s out. obind (TeslaSender_new sample_hmac (replicate 20 7) sample_schedule GmacAes128)
      (\<lambda>s0. run_steps (\<lambda>s (buf, ext, t). TeslaSender_authenticate sample_hmac sample_gmac s buf ext t) s0
        [([1], 0, 450), ([2], 1, 120)]) = Done (s, out) \<and> length out = 2"
proof -
  have "\<forall>(buf, ext, t)\<in>set [([1 :: u8], 0 :: nat, 450), ([2], 1, 120)].
      \<exists>i. TeslaSchedule_interval_of sample_schedule t = Done i"
    by (simp add: interval_of_iff sample_schedule_def)
  from tesla_sender_emits [OF _ this, of sample_hmac "replicate 20 7" GmacAes128 sample_gmac]
  show ?thesis by (auto simp: sample_schedule_def)
qed

end
