(* ===== verification/Tesla_Receiver.thy ===== *)
theory Tesla_Receiver
  imports Tesla_Sender Receiver "HOL-Library.AList"
begin

text \<open>
  The TESLA receiver: \<^verbatim>\<open>src/tesla/receiver.rs\<close>. It wraps the SRTP receiver of theory \<open>Receiver\<close>
  and keeps the packets whose MAC key is still secret in drawers, one per interval. The ordered
  map of drawers is an association list (nothing depends on its order).

  The invariant \<open>tesla_inv\<close> is the bookkeeping: \<open>pending\<close> counts the drawer entries, and every
  delivered packet is verified, forged or still waiting. \<open>drawers_genuine\<close> is the semantic part:
  waiting packets carry the MAC the sender's chain key gives, so the verdict is \<open>verified\<close>.
\<close>

section \<open>State\<close>

datatype TeslaDrop = TMalformed | TUnsafeLate | TBadDisclosure | TSrtp RecvDrop

record TeslaStats =
  delivered :: nat
  verified :: nat
  forged :: nat
  drops_malformed :: nat
  drops_unsafe :: nat
  drops_bad_disclosure :: nat
  drops_srtp :: nat
  peak_pending :: nat
  latencies_ns :: "nat list"

definition TeslaStats_default :: TeslaStats where
  "TeslaStats_default = \<lparr> delivered = 0, verified = 0, forged = 0, drops_malformed = 0, drops_unsafe = 0,
     drops_bad_disclosure = 0, drops_srtp = 0, peak_pending = 0, latencies_ns = [] \<rparr>"

record DrawerEntry =
  de_ext_index :: nat
  de_arrival_ns :: nat
  de_mac :: bytes
  de_covered :: bytes

record TeslaReceiver =
  tr_params :: TeslaSchedule
  tr_verifier :: ChainVerifier
  tr_alg :: TeslaMacAlg
  tr_inner :: ReceiverKeyManager
  tr_recovery :: IndexRecovery
  tr_drawers :: "(nat \<times> DrawerEntry list) list"
  tr_pending :: nat
  tr_stats :: TeslaStats

section \<open>Operations\<close>

definition TeslaReceiver_accept ::
  "(bytes \<Rightarrow> bytes \<Rightarrow> bytes \<Rightarrow> bool) \<Rightarrow> TeslaCommitment \<Rightarrow> bytes \<Rightarrow> bytes \<Rightarrow> nat \<Rightarrow> nat \<Rightarrow>
     ReceiverKeyManager \<Rightarrow> TeslaReceiver option outcome" where
  "TeslaReceiver_accept vs commitment signature sender_public_key d_t_ns g_max inner =
     (if \<not> TeslaCommitment_verify vs commitment signature sender_public_key then Done None
      else
        obind (TeslaCommitment_schedule commitment d_t_ns g_max) (\<lambda>params.
        Done (Some
          \<lparr> tr_params = params,
            tr_verifier = ChainVerifier_new (co_anchor commitment) (ts_n_chain params) (ts_g_max params),
            tr_alg = co_mac_alg commitment, tr_inner = inner, tr_recovery = IndexRecovery_default,
            tr_drawers = [], tr_pending = 0, tr_stats = TeslaStats_default \<rparr>)))"

definition TeslaReceiver_unsettled :: "TeslaReceiver \<Rightarrow> nat" where
  "TeslaReceiver_unsettled tr = tr_pending tr"

text \<open>One drawer entry gets its verdict.\<close>

definition settle_entry ::
  "hmac \<Rightarrow> gmac \<Rightarrow> PreparedMac \<Rightarrow> nat \<Rightarrow> TeslaReceiver \<Rightarrow> DrawerEntry \<Rightarrow> TeslaReceiver outcome" where
  "settle_entry M A prepared now_ns tr e =
     obind
       (if PreparedMac_tag M A prepared (de_ext_index e) (de_covered e) = de_mac e
        then obind (guard_panic (de_arrival_ns e \<le> now_ns) SubOverflow) (\<lambda>_.
             Done ((tr_stats tr)\<lparr>verified := verified (tr_stats tr) + 1,
                     latencies_ns := latencies_ns (tr_stats tr) @ [now_ns - de_arrival_ns e]\<rparr>))
        else Done ((tr_stats tr)\<lparr>forged := forged (tr_stats tr) + 1\<rparr>)) (\<lambda>stats.
     obind (guard_panic (tr_pending tr \<ge> 1) SubOverflow) (\<lambda>_.
     Done (tr\<lparr>tr_stats := stats, tr_pending := tr_pending tr - 1\<rparr>)))"

fun settle_entries ::
  "hmac \<Rightarrow> gmac \<Rightarrow> PreparedMac \<Rightarrow> nat \<Rightarrow> TeslaReceiver \<Rightarrow> DrawerEntry list \<Rightarrow> TeslaReceiver outcome" where
  "settle_entries M A prepared now_ns tr [] = Done tr"
| "settle_entries M A prepared now_ns tr (e # es) =
     obind (settle_entry M A prepared now_ns tr e) (\<lambda>tr'. settle_entries M A prepared now_ns tr' es)"

fun TeslaReceiver_settle ::
  "hmac \<Rightarrow> gmac \<Rightarrow> TeslaReceiver \<Rightarrow> (nat \<times> ChainKey) list \<Rightarrow> nat \<Rightarrow> (TeslaReceiver \<times> nat) outcome" where
  "TeslaReceiver_settle M A tr [] now_ns = Done (tr, 0)"
| "TeslaReceiver_settle M A tr ((interval, key) # keys) now_ns =
     (case map_of (tr_drawers tr) interval of
        None \<Rightarrow> TeslaReceiver_settle M A tr keys now_ns
      | Some entries \<Rightarrow>
          obind (TeslaMacAlg_prepare M (tr_alg tr) key) (\<lambda>prepared.
          obind (settle_entries M A prepared now_ns
                  (tr\<lparr>tr_drawers := AList.delete interval (tr_drawers tr)\<rparr>) entries) (\<lambda>tr'.
          obind (TeslaReceiver_settle M A tr' keys now_ns) (\<lambda>(tr'', settled).
          Done (tr'', length entries + settled)))))"

definition push_drawer :: "nat \<Rightarrow> DrawerEntry \<Rightarrow> (nat \<times> DrawerEntry list) list \<Rightarrow> (nat \<times> DrawerEntry list) list" where
  "push_drawer i e ds = AList.update i ((case map_of ds i of None \<Rightarrow> [] | Some es \<Rightarrow> es) @ [e]) ds"

definition count_tesla_drop :: "TeslaDrop \<Rightarrow> TeslaReceiver \<Rightarrow> TeslaReceiver" where
  "count_tesla_drop d tr =
     tr\<lparr>tr_stats := (case d of
          TMalformed \<Rightarrow> (tr_stats tr)\<lparr>drops_malformed := drops_malformed (tr_stats tr) + 1\<rparr>
        | TUnsafeLate \<Rightarrow> (tr_stats tr)\<lparr>drops_unsafe := drops_unsafe (tr_stats tr) + 1\<rparr>
        | TBadDisclosure \<Rightarrow> (tr_stats tr)\<lparr>drops_bad_disclosure := drops_bad_disclosure (tr_stats tr) + 1\<rparr>
        | TSrtp _ \<Rightarrow> (tr_stats tr)\<lparr>drops_srtp := drops_srtp (tr_stats tr) + 1\<rparr>)\<rparr>"

text \<open>The last part of \<open>process_arrival\<close>: the packet joins its interval's drawer.\<close>

definition enqueue_packet :: "nat \<Rightarrow> DrawerEntry \<Rightarrow> TeslaReceiver \<Rightarrow> TeslaReceiver" where
  "enqueue_packet interval e tr =
     (let pending = tr_pending tr + 1 in
      tr\<lparr>tr_drawers := push_drawer interval e (tr_drawers tr), tr_pending := pending,
         tr_stats := (tr_stats tr)\<lparr>peak_pending := max (peak_pending (tr_stats tr)) pending,
                                   delivered := delivered (tr_stats tr) + 1\<rparr>\<rparr>)"

definition TeslaReceiver_process_arrival ::
  "srtp_crypto \<Rightarrow> hkdf \<Rightarrow> hmac \<Rightarrow> gmac \<Rightarrow> TeslaReceiver \<Rightarrow> bytes \<Rightarrow> nat \<Rightarrow>
     (TeslaReceiver \<times> bytes \<times> (TeslaDrop + nat)) outcome" where
  "TeslaReceiver_process_arrival C H M A tr datagram_bytes arrival_ns =
     (let (buf, ext) = split_extension datagram_bytes in
      case ext of
        None \<Rightarrow> Done (count_tesla_drop TMalformed tr, buf, Inl TMalformed)
      | Some (interval, disclosed, mac) \<Rightarrow>
          if length buf < RTP_HEADER_LEN then Done (count_tesla_drop TMalformed tr, buf, Inl TMalformed)
          else if TeslaSchedule_accepts (tr_params tr) arrival_ns interval = UnsafeLate
          then Done (count_tesla_drop TUnsafeLate tr, buf, Inl TUnsafeLate)
          else
            (let ext_index = IndexRecovery_recover (tr_recovery tr) (header_seq buf);
                 covered = buf
             in obind (ReceiverKeyManager_unprotect C H (tr_inner tr) buf) (\<lambda>(inner, buf', res).
                let tr1 = tr\<lparr>tr_inner := inner\<rparr> in
                case res of
                  Inl dr \<Rightarrow> Done (count_tesla_drop (TSrtp dr) tr1, buf', Inl (TSrtp dr))
                | Inr _ \<Rightarrow>
                    (let (verifier, disclosure) = ChainVerifier_check M (tr_verifier tr1) disclosed
                           (TeslaSchedule_disclosed_index (tr_params tr1) interval);
                         tr2 = tr1\<lparr>tr_recovery := IndexRecovery_update (tr_recovery tr1) ext_index,
                                   tr_verifier := verifier\<rparr>;
                         entry = \<lparr> de_ext_index = ext_index, de_arrival_ns = arrival_ns, de_mac = mac,
                                   de_covered = covered \<rparr>
                     in case disclosure of
                          DNew keys \<Rightarrow>
                            obind (TeslaReceiver_settle M A tr2 keys arrival_ns) (\<lambda>(tr3, settled).
                            Done (enqueue_packet interval entry tr3, buf', Inr settled))
                        | DNotNew \<Rightarrow> Done (enqueue_packet interval entry tr2, buf', Inr 0)
                        | _ \<Rightarrow> Done (count_tesla_drop TBadDisclosure tr2, buf', Inl TBadDisclosure)))))"

section \<open>Bookkeeping\<close>

definition waiting :: "TeslaReceiver \<Rightarrow> nat" where
  "waiting tr = sum_list (map (length \<circ> snd) (tr_drawers tr))"

text \<open>\<open>now\<close> is a time no later than any arrival to come.\<close>

definition tesla_inv :: "nat \<Rightarrow> TeslaReceiver \<Rightarrow> bool" where
  "tesla_inv now tr \<longleftrightarrow> distinct (map fst (tr_drawers tr)) \<and> tr_pending tr = waiting tr \<and>
     delivered (tr_stats tr) = verified (tr_stats tr) + forged (tr_stats tr) + tr_pending tr \<and>
     (\<forall>(i, es)\<in>set (tr_drawers tr). \<forall>e\<in>set es. de_arrival_ns e \<le> now)"

lemma sum_delete:
  assumes "distinct (map fst ds)" and "map_of ds i = Some es"
  shows "sum_list (map (length \<circ> snd) ds) = length es + sum_list (map (length \<circ> snd) (AList.delete i ds))"
  using assms
proof (induction ds)
  case Nil
  then show ?case by simp
next
  case (Cons d ds)
  obtain j fs where d: "d = (j, fs)" by (cases d)
  show ?case
  proof (cases "j = i")
    case True
    then have "AList.delete i ds = ds" using Cons.prems(1) d by (auto intro: AList.delete_idem)
    then show ?thesis using True Cons.prems(2) d by simp
  next
    case False
    then show ?thesis using Cons d by simp
  qed
qed

lemma sum_push:
  assumes "distinct (map fst ds)"
  shows "sum_list (map (length \<circ> snd) (push_drawer i e ds)) = Suc (sum_list (map (length \<circ> snd) ds))"
proof -
  have u: "map_of ds i = Some es \<Longrightarrow>
      sum_list (map (length \<circ> snd) (AList.update i (es @ [e]) ds)) = Suc (sum_list (map (length \<circ> snd) ds))" for es
    using assms by (induction ds) (auto split: if_splits)
  have n: "map_of ds i = None \<Longrightarrow>
      sum_list (map (length \<circ> snd) (AList.update i [e] ds)) = Suc (sum_list (map (length \<circ> snd) ds))"
    by (induction ds) (auto split: if_splits)
  show ?thesis using u n by (auto simp: push_drawer_def split: option.splits)
qed

lemma distinct_push: "distinct (map fst ds) \<Longrightarrow> distinct (map fst (push_drawer i e ds))"
  by (simp add: push_drawer_def distinct_update)

lemma set_push:
  assumes "(j, es) \<in> set (push_drawer i e ds)" and "distinct (map fst ds)"
  shows "(j, es) \<in> set ds \<or> (j = i \<and> es = (case map_of ds i of None \<Rightarrow> [] | Some es \<Rightarrow> es) @ [e])"
proof -
  have "map_of (push_drawer i e ds) j = Some es"
    using assms distinct_push [OF assms(2)] by (simp add: map_of_eq_Some_iff)
  then show ?thesis unfolding push_drawer_def
    by (auto simp: update_conv' split: if_splits dest: map_of_SomeD)
qed

section \<open>Settling a drawer\<close>

definition matching :: "hmac \<Rightarrow> gmac \<Rightarrow> PreparedMac \<Rightarrow> DrawerEntry list \<Rightarrow> DrawerEntry list" where
  "matching M A prepared es =
     filter (\<lambda>e. PreparedMac_tag M A prepared (de_ext_index e) (de_covered e) = de_mac e) es"

definition count_verdicts :: "hmac \<Rightarrow> gmac \<Rightarrow> PreparedMac \<Rightarrow> nat \<Rightarrow> DrawerEntry list \<Rightarrow> TeslaStats \<Rightarrow> TeslaStats" where
  "count_verdicts M A prepared now es st =
     st\<lparr>verified := verified st + length (matching M A prepared es),
        forged := forged st + (length es - length (matching M A prepared es)),
        latencies_ns := latencies_ns st @ map (\<lambda>e. now - de_arrival_ns e) (matching M A prepared es)\<rparr>"

lemma length_matching: "length (matching M A p es) \<le> length es"
  by (simp add: matching_def)

lemma settle_entries_eq:
  assumes "\<forall>e\<in>set es. de_arrival_ns e \<le> now" and "length es \<le> tr_pending tr"
  shows "settle_entries M A p now tr es =
    Done (tr\<lparr>tr_stats := count_verdicts M A p now es (tr_stats tr), tr_pending := tr_pending tr - length es\<rparr>)"
  using assms
proof (induction es arbitrary: tr)
  case Nil
  then show ?case by (simp add: count_verdicts_def matching_def)
next
  case (Cons e es)
  let ?m = "PreparedMac_tag M A p (de_ext_index e) (de_covered e) = de_mac e"
  define st where "st = (if ?m then (tr_stats tr)\<lparr>verified := verified (tr_stats tr) + 1,
      latencies_ns := latencies_ns (tr_stats tr) @ [now - de_arrival_ns e]\<rparr>
    else (tr_stats tr)\<lparr>forged := forged (tr_stats tr) + 1\<rparr>)"
  define tr1 where "tr1 = tr\<lparr>tr_stats := st, tr_pending := tr_pending tr - 1\<rparr>"
  have "settle_entry M A p now tr e = Done tr1"
    using Cons.prems by (simp add: settle_entry_def tr1_def st_def)
  moreover have "count_verdicts M A p now es st = count_verdicts M A p now (e # es) (tr_stats tr)"
    using length_matching [of M A p es]
    by (cases ?m) (simp_all add: count_verdicts_def matching_def st_def Suc_diff_le)
  ultimately show ?case using Cons.IH [of tr1] Cons.prems by (simp add: tr1_def)
qed

text \<open>Everything but the drawers, the pending count and the statistics is left alone.\<close>

definition settings :: "TeslaReceiver \<Rightarrow> _" where
  "settings tr = (tr_params tr, tr_verifier tr, tr_alg tr, tr_inner tr, tr_recovery tr)"

definition close_drawer :: "hmac \<Rightarrow> gmac \<Rightarrow> nat \<Rightarrow> nat \<Rightarrow> ChainKey \<Rightarrow> DrawerEntry list \<Rightarrow> TeslaReceiver \<Rightarrow> TeslaReceiver" where
  "close_drawer M A now i k es tr =
     tr\<lparr>tr_drawers := AList.delete i (tr_drawers tr),
        tr_stats := count_verdicts M A (interval_mac M (tr_alg tr) k) now es (tr_stats tr),
        tr_pending := tr_pending tr - length es\<rparr>"

lemma drawer_entries:
  assumes "tesla_inv now tr" and "map_of (tr_drawers tr) i = Some es"
  shows "\<forall>e\<in>set es. de_arrival_ns e \<le> now" and "length es \<le> tr_pending tr"
  using assms sum_delete [of "tr_drawers tr" i es]
  by (auto simp: tesla_inv_def waiting_def dest!: map_of_SomeD)

lemma settle_step:
  assumes inv: "tesla_inv now tr" and es: "map_of (tr_drawers tr) i = Some es"
  shows "TeslaReceiver_settle M A tr ((i, k) # keys) now =
    obind (TeslaReceiver_settle M A (close_drawer M A now i k es tr) keys now)
      (\<lambda>(tr'', n). Done (tr'', length es + n))"
  using settle_entries_eq [OF drawer_entries(1) [OF inv es], of "tr\<lparr>tr_drawers := AList.delete i (tr_drawers tr)\<rparr>"]
    drawer_entries(2) [OF inv es]
  by (simp add: es prepare_eq close_drawer_def)

lemma close_drawer_inv:
  assumes inv: "tesla_inv now tr" and es: "map_of (tr_drawers tr) i = Some es"
  shows "tesla_inv now (close_drawer M A now i k es tr)"
proof -
  have d: "distinct (map fst (tr_drawers tr))" using inv by (simp add: tesla_inv_def)
  have "set (AList.delete i (tr_drawers tr)) \<subseteq> set (tr_drawers tr)"
    by (simp add: AList.delete_eq subset_eq)
  moreover have "length (matching M A (interval_mac M (tr_alg tr) k) es) \<le> length es" by (rule length_matching)
  ultimately show ?thesis
    using inv drawer_entries(2) [OF inv es] sum_delete [OF d es] distinct_delete [OF d]
    by (auto simp: tesla_inv_def close_drawer_def waiting_def count_verdicts_def) blast
qed

lemma settle_inv:
  "tesla_inv now tr \<Longrightarrow>
     \<exists>tr' n. TeslaReceiver_settle M A tr keys now = Done (tr', n) \<and> tesla_inv now tr' \<and>
       settings tr' = settings tr \<and> tr_pending tr = tr_pending tr' + n \<and>
       delivered (tr_stats tr') = delivered (tr_stats tr) \<and>
       map_of (tr_drawers tr') = (map_of (tr_drawers tr)) |` (- fst ` set keys)"
proof (induction keys arbitrary: tr)
  case Nil
  then show ?case by (simp add: restrict_map_def)
next
  case (Cons ik keys)
  obtain i k where ik: "ik = (i, k)" by (cases ik)
  show ?case
  proof (cases "map_of (tr_drawers tr) i")
    case None
    then have "(map_of (tr_drawers tr)) |` (- fst ` set keys) = (map_of (tr_drawers tr)) |` (- fst ` set ((i, k) # keys))"
      by (auto simp: restrict_map_def fun_eq_iff)
    then show ?thesis using Cons.IH [OF Cons.prems] None by (simp add: ik)
  next
    case (Some es)
    let ?c = "close_drawer M A now i k es tr"
    obtain tr' n where s: "TeslaReceiver_settle M A ?c keys now = Done (tr', n)" "tesla_inv now tr'"
      "settings tr' = settings ?c" "tr_pending ?c = tr_pending tr' + n"
      "delivered (tr_stats tr') = delivered (tr_stats ?c)"
      "map_of (tr_drawers tr') = (map_of (tr_drawers ?c)) |` (- fst ` set keys)"
      using Cons.IH [OF close_drawer_inv [OF Cons.prems Some], of M A k] by blast
    have "map_of (tr_drawers ?c) = (map_of (tr_drawers tr)) |` (- {i})"
      by (simp add: close_drawer_def delete_conv' restrict_map_def fun_eq_iff)
    then have "map_of (tr_drawers tr') = (map_of (tr_drawers tr)) |` (- fst ` set ((i, k) # keys))"
      using s(6) by (simp add: restrict_map_def fun_eq_iff)
    moreover have "settings ?c = settings tr" "delivered (tr_stats ?c) = delivered (tr_stats tr)"
      "tr_pending tr = tr_pending ?c + length es"
      using drawer_entries(2) [OF Cons.prems Some]
      by (simp_all add: settings_def close_drawer_def count_verdicts_def)
    ultimately show ?thesis using s settle_step [OF Cons.prems Some, of M A k keys] by (simp add: ik)
  qed
qed

section \<open>One arrival\<close>

text \<open>
  What a datagram can do: be refused before the SRTP layer, be refused by it, be refused for its
  disclosed key, or be delivered. \<open>after_inner\<close> is the state once the SRTP layer accepted.
\<close>

definition after_inner :: "hmac \<Rightarrow> TeslaReceiver \<Rightarrow> ReceiverKeyManager \<Rightarrow> bytes \<Rightarrow> nat \<Rightarrow> ChainKey \<Rightarrow> TeslaReceiver" where
  "after_inner M tr inner buf i k =
     tr\<lparr>tr_inner := inner,
        tr_recovery := IndexRecovery_update (tr_recovery tr) (IndexRecovery_recover (tr_recovery tr) (header_seq buf)),
        tr_verifier := fst (ChainVerifier_check M (tr_verifier tr) k (TeslaSchedule_disclosed_index (tr_params tr) i))\<rparr>"

definition drawer_entry :: "TeslaReceiver \<Rightarrow> bytes \<Rightarrow> bytes \<Rightarrow> nat \<Rightarrow> DrawerEntry" where
  "drawer_entry tr buf mac arrival =
     \<lparr> de_ext_index = IndexRecovery_recover (tr_recovery tr) (header_seq buf), de_arrival_ns = arrival,
       de_mac = mac, de_covered = buf \<rparr>"

definition newly_trusted :: "Disclosure \<Rightarrow> (nat \<times> ChainKey) list" where
  "newly_trusted d = (case d of DNew keys \<Rightarrow> keys | _ \<Rightarrow> [])"

lemma process_split:
  assumes "TeslaReceiver_process_arrival C H M A tr dg arrival = Done (tr', out, res)"
  obtains (early) d where "tr' = count_tesla_drop d tr" "res = Inl d" "d = TMalformed \<or> d = TUnsafeLate"
  | (inner) inn b d where "tr' = count_tesla_drop (TSrtp d) (tr\<lparr>tr_inner := inn\<rparr>)" "res = Inl (TSrtp d)"
      "ReceiverKeyManager_unprotect C H (tr_inner tr) b = Done (inn, out, Inl d)"
  | (disclosure) inn b i k where "tr' = count_tesla_drop TBadDisclosure (after_inner M tr inn b i k)"
      "res = Inl TBadDisclosure"
  | (deliver) inn b i k mac g d tr3 n where
      "split_extension dg = (b, Some (i, k, mac))" "TeslaSchedule_accepts (tr_params tr) arrival i = Safe"
      "ReceiverKeyManager_unprotect C H (tr_inner tr) b = Done (inn, out, Inr g)"
      "snd (ChainVerifier_check M (tr_verifier tr) k (TeslaSchedule_disclosed_index (tr_params tr) i)) = d"
      "(\<exists>keys. d = DNew keys) \<or> d = DNotNew"
      "TeslaReceiver_settle M A (after_inner M tr inn b i k) (newly_trusted d) arrival = Done (tr3, n)"
      "tr' = enqueue_packet i (drawer_entry tr b mac arrival) tr3" "res = Inr n"
proof -
  obtain b ext where sp: "split_extension dg = (b, ext)" by (cases "split_extension dg")
  show thesis
  proof (cases ext)
    case None
    then show thesis using assms sp early by (auto simp: TeslaReceiver_process_arrival_def)
  next
    case (Some x)
    then obtain i k mac where x: "ext = Some (i, k, mac)" by (cases x) auto
    show thesis
    proof (cases "length b < RTP_HEADER_LEN \<or> TeslaSchedule_accepts (tr_params tr) arrival i = UnsafeLate")
      case True
      then show thesis using assms sp x early by (auto simp: TeslaReceiver_process_arrival_def split: if_splits)
    next
      case False
      then obtain inn o2 r where u: "ReceiverKeyManager_unprotect C H (tr_inner tr) b = Done (inn, o2, r)"
        using assms by (auto simp: TeslaReceiver_process_arrival_def sp x Let_def outcome_simps)
      have safe: "TeslaSchedule_accepts (tr_params tr) arrival i = Safe"
        using False by (cases "TeslaSchedule_accepts (tr_params tr) arrival i") auto
      show thesis
      proof (cases r)
        case (Inl d)
        then show thesis using assms False u
          by (intro inner [of d inn b]) (auto simp: TeslaReceiver_process_arrival_def sp x Let_def)
      next
        case (Inr g)
        obtain v d where c: "ChainVerifier_check M (tr_verifier tr) k
            (TeslaSchedule_disclosed_index (tr_params tr) i) = (v, d)"
          by (cases "ChainVerifier_check M (tr_verifier tr) k (TeslaSchedule_disclosed_index (tr_params tr) i)")
        have a: "tr\<lparr>tr_inner := inn, tr_recovery := IndexRecovery_update (tr_recovery tr)
            (IndexRecovery_recover (tr_recovery tr) (header_seq b)), tr_verifier := v\<rparr> = after_inner M tr inn b i k"
          by (simp add: after_inner_def c)
        note P = assms [unfolded TeslaReceiver_process_arrival_def sp x]
        have o2: "o2 = out" using P False u Inr c
          by (cases d) (auto simp: Let_def outcome_simps)
        note u = u [unfolded o2 Inr]
        show thesis
        proof (cases d)
          case (DNew keys)
          then obtain tr3 n where "TeslaReceiver_settle M A (after_inner M tr inn b i k) keys arrival = Done (tr3, n)"
            "tr' = enqueue_packet i (drawer_entry tr b mac arrival) tr3" "res = Inr n"
            using P False u c by (auto simp: Let_def outcome_simps a drawer_entry_def)
          then show thesis
            by (intro deliver [OF sp [unfolded x] safe u]) (auto simp: c DNew newly_trusted_def)
        next
          case DNotNew
          then show thesis using P False u c
            by (intro deliver [OF sp [unfolded x] safe u, of DNotNew "after_inner M tr inn b i k" 0])
              (auto simp: Let_def a newly_trusted_def drawer_entry_def)
        qed (use P False u c in \<open>auto simp: Let_def a intro: disclosure\<close>)
      qed
    qed
  qed
qed

lemma count_tesla_drop_inv: "tesla_inv now tr \<Longrightarrow> tesla_inv now (count_tesla_drop d tr)"
  by (simp add: tesla_inv_def count_tesla_drop_def waiting_def split: TeslaDrop.splits)

lemma tesla_inv_cong:
  "tr_drawers tr' = tr_drawers tr \<Longrightarrow> tr_pending tr' = tr_pending tr \<Longrightarrow> tr_stats tr' = tr_stats tr \<Longrightarrow>
     tesla_inv now tr \<Longrightarrow> tesla_inv now tr'"
  by (simp add: tesla_inv_def waiting_def)

lemma after_inner_state [simp]:
  "tr_drawers (after_inner M tr inn b i k) = tr_drawers tr" "tr_pending (after_inner M tr inn b i k) = tr_pending tr"
  "tr_stats (after_inner M tr inn b i k) = tr_stats tr" "tr_params (after_inner M tr inn b i k) = tr_params tr"
  "tr_alg (after_inner M tr inn b i k) = tr_alg tr"
  by (simp_all add: after_inner_def)

lemma after_inner_inv: "tesla_inv now tr \<Longrightarrow> tesla_inv now (after_inner M tr inn b i k)"
  by (rule tesla_inv_cong) simp_all

lemma tesla_inv_later: "tesla_inv now tr \<Longrightarrow> now \<le> t \<Longrightarrow> tesla_inv t tr"
  unfolding tesla_inv_def by (fastforce dest: order_trans)

lemma enqueue_inv:
  assumes inv: "tesla_inv now tr" and t: "de_arrival_ns e \<le> now"
  shows "tesla_inv now (enqueue_packet i e tr)"
proof -
  have d: "distinct (map fst (tr_drawers tr))" using inv by (simp add: tesla_inv_def)
  have old: "\<forall>e\<in>set es. de_arrival_ns e \<le> now" if "(j, es) \<in> set (tr_drawers tr)" for j es
    using inv that by (auto simp: tesla_inv_def)
  have "\<forall>e'\<in>set es. de_arrival_ns e' \<le> now" if "(j, es) \<in> set (push_drawer i e (tr_drawers tr))" for j es
    using set_push [OF that d] old t by (auto split: option.splits dest!: map_of_SomeD)
  then show ?thesis using inv sum_push [OF d] distinct_push [OF d]
    by (auto simp: tesla_inv_def enqueue_packet_def waiting_def Let_def)
qed

lemma process_inv:
  assumes inv: "tesla_inv now tr" and t: "now \<le> arrival"
    and p: "TeslaReceiver_process_arrival C H M A tr dg arrival = Done (tr', out, res)"
  shows "tesla_inv arrival tr'"
proof -
  have inv': "tesla_inv arrival tr" by (rule tesla_inv_later [OF inv t])
  show ?thesis
  proof (cases rule: process_split [OF p])
    case (1 d)
    then show ?thesis by (simp add: count_tesla_drop_inv inv')
  next
    case (2 inn b d)
    have "tesla_inv arrival (tr\<lparr>tr_inner := inn\<rparr>)" by (rule tesla_inv_cong [OF _ _ _ inv']) simp_all
    then show ?thesis by (simp add: 2 count_tesla_drop_inv)
  next
    case (3 inn b i k)
    then show ?thesis by (simp add: count_tesla_drop_inv after_inner_inv inv')
  next
    case (4 inn b i k mac g d tr3 n)
    have "tesla_inv arrival (after_inner M tr inn b i k)" by (rule after_inner_inv [OF inv'])
    from settle_inv [OF this, of M A "newly_trusted d"] have "tesla_inv arrival tr3" using 4(6) by auto
    then show ?thesis unfolding 4(7) by (rule enqueue_inv) (simp add: drawer_entry_def)
  qed
qed

text \<open>Nothing in the TESLA layer panics when arrival times do not decrease; only the SRTP layer can.\<close>

lemma process_panic:
  assumes inv: "tesla_inv now tr" and t: "now \<le> arrival"
    and p: "TeslaReceiver_process_arrival C H M A tr dg arrival = Panic e"
  shows "ReceiverKeyManager_unprotect C H (tr_inner tr) (fst (split_extension dg)) = Panic e"
proof -
  obtain b ext where sp: "split_extension dg = (b, ext)" by (cases "split_extension dg")
  have "ext \<noteq> None" using p by (cases ext) (auto simp: TeslaReceiver_process_arrival_def sp)
  then obtain i k mac where x: "ext = Some (i, k, mac)" by (cases ext) auto
  note P = p [unfolded TeslaReceiver_process_arrival_def sp x]
  have ns: "\<not> length b < RTP_HEADER_LEN" "TeslaSchedule_accepts (tr_params tr) arrival i \<noteq> UnsafeLate"
    using P by (auto split: if_splits)
  show ?thesis
  proof (cases "ReceiverKeyManager_unprotect C H (tr_inner tr) b")
    case (Panic e')
    then show ?thesis using P ns by (simp add: Let_def sp)
  next
    case (Done y)
    then obtain inn o2 r where u: "ReceiverKeyManager_unprotect C H (tr_inner tr) b = Done (inn, o2, r)"
      by (cases y) auto
    obtain v d where c: "ChainVerifier_check M (tr_verifier tr) k
        (TeslaSchedule_disclosed_index (tr_params tr) i) = (v, d)"
      by (cases "ChainVerifier_check M (tr_verifier tr) k (TeslaSchedule_disclosed_index (tr_params tr) i)")
    let ?tr2 = "tr\<lparr>tr_inner := inn, tr_recovery := IndexRecovery_update (tr_recovery tr)
        (IndexRecovery_recover (tr_recovery tr) (header_seq b)), tr_verifier := v\<rparr>"
    have "tesla_inv arrival ?tr2" by (rule tesla_inv_cong [OF _ _ _ tesla_inv_later [OF inv t]]) simp_all
    then have "\<exists>tr3 n. TeslaReceiver_settle M A ?tr2 keys arrival = Done (tr3, n)" for keys
      using settle_inv by blast
    then show ?thesis using P ns u c
      by (cases r; cases d) (auto simp: Let_def, (metis obind.simps(2) outcome.distinct(1) prod.case)+)
  qed
qed

section \<open>Accounting\<close>

definition tesla_handled :: "TeslaStats \<Rightarrow> nat" where
  "tesla_handled st = delivered st + drops_malformed st + drops_unsafe st + drops_bad_disclosure st + drops_srtp st"

lemma count_tesla_drop_handled:
  "tesla_handled (tr_stats (count_tesla_drop d tr)) = Suc (tesla_handled (tr_stats tr))"
  by (cases d) (simp_all add: count_tesla_drop_def tesla_handled_def)

lemma settle_entry_handled:
  "settle_entry M A p now tr e = Done tr' \<Longrightarrow> tesla_handled (tr_stats tr') = tesla_handled (tr_stats tr)"
  by (auto simp: settle_entry_def tesla_handled_def outcome_simps split: if_splits)

lemma settle_entries_handled:
  "settle_entries M A p now tr es = Done tr' \<Longrightarrow> tesla_handled (tr_stats tr') = tesla_handled (tr_stats tr)"
  by (induction es arbitrary: tr) (auto simp: outcome_simps dest!: settle_entry_handled)

lemma settle_handled:
  "TeslaReceiver_settle M A tr keys now = Done (tr', n) \<Longrightarrow>
     tesla_handled (tr_stats tr') = tesla_handled (tr_stats tr)"
  by (induction keys arbitrary: tr n)
    (auto simp: outcome_simps split: option.splits dest!: settle_entries_handled)

lemma process_handled:
  assumes "TeslaReceiver_process_arrival C H M A tr dg arrival = Done (tr', out, res)"
  shows "tesla_handled (tr_stats tr') = Suc (tesla_handled (tr_stats tr))"
proof (cases rule: process_split [OF assms])
  case (4 inn b i k mac g d tr3 n)
  then show ?thesis using settle_handled [OF 4(6)]
    by (simp add: enqueue_packet_def tesla_handled_def Let_def)
qed (simp_all add: count_tesla_drop_handled)

section \<open>Verdicts\<close>

text \<open>
  \<open>drawers_genuine\<close>: every waiting packet of an interval of the chain carries the MAC the sender
  computes for it; \<open>on_stream\<close>: the receiver runs the sender's schedule and algorithm and trusts a
  key of the sender's chain.
\<close>

definition drawers_genuine :: "hmac \<Rightarrow> gmac \<Rightarrow> ChainKey \<Rightarrow> TeslaReceiver \<Rightarrow> bool" where
  "drawers_genuine M A kf tr \<longleftrightarrow>
     (\<forall>i es. map_of (tr_drawers tr) i = Some es \<longrightarrow>
        (\<forall>e\<in>set es. de_mac e = packet_mac M A kf (tr_params tr) (tr_alg tr) i (de_ext_index e) (de_covered e)))"

definition on_stream :: "hmac \<Rightarrow> ChainKey \<Rightarrow> TeslaReceiver \<Rightarrow> bool" where
  "on_stream M kf tr \<longleftrightarrow> on_chain M kf (tr_verifier tr) \<and> cv_n_chain (tr_verifier tr) = ts_n_chain (tr_params tr)"

lemma settle_genuine:
  "tesla_inv now tr \<Longrightarrow> drawers_genuine M A kf tr \<Longrightarrow>
     \<forall>(i, k)\<in>set keys. k = chain_at M kf (ts_n_chain (tr_params tr)) i \<Longrightarrow>
     TeslaReceiver_settle M A tr keys now = Done (tr', n) \<Longrightarrow>
     forged (tr_stats tr') = forged (tr_stats tr) \<and> verified (tr_stats tr') = verified (tr_stats tr) + n"
proof (induction keys arbitrary: tr n)
  case Nil
  then show ?case by simp
next
  case (Cons ik keys)
  obtain i k where ik: "ik = (i, k)" by (cases ik)
  show ?case
  proof (cases "map_of (tr_drawers tr) i")
    case None
    then show ?thesis using Cons by (simp add: ik)
  next
    case (Some es)
    let ?c = "close_drawer M A now i k es tr"
    have k: "k = chain_at M kf (ts_n_chain (tr_params tr)) i" using Cons.prems(3) by (simp add: ik)
    have all: "matching M A (interval_mac M (tr_alg tr) k) es = es"
      using Cons.prems(2) Some unfolding matching_def drawers_genuine_def k
      by (intro filter_True) (auto simp: packet_mac_def)
    have g: "drawers_genuine M A kf ?c"
      using Cons.prems(2) by (auto simp: drawers_genuine_def close_drawer_def delete_conv')
    have p: "tr_params ?c = tr_params tr" by (simp add: close_drawer_def)
    from Cons.prems(4) obtain m where m: "TeslaReceiver_settle M A ?c keys now = Done (tr', m)" "n = length es + m"
      unfolding ik settle_step [OF Cons.prems(1) Some] by (auto simp: outcome_simps)
    have "forged (tr_stats tr') = forged (tr_stats ?c) \<and> verified (tr_stats tr') = verified (tr_stats ?c) + m"
      by (rule Cons.IH [OF close_drawer_inv [OF Cons.prems(1) Some] g _ m(1)]) (use Cons.prems(3) p in simp)
    then show ?thesis using m(2) all by (simp add: close_drawer_def count_verdicts_def)
  qed
qed

lemma split_datagram:
  assumes "mac_sound M A" and "length kf = TESLA_KEY_LEN" and "i < 2 ^ 32" and "buf \<noteq> []"
  shows "split_extension (datagram M A kf params alg i ext buf) =
    (buf, Some (i, chain_at M kf (ts_n_chain params) (TeslaSchedule_disclosed_index params i),
       packet_mac M A kf params alg i ext buf))"
  unfolding datagram_def
  by (rule split_append_extension) (use assms in \<open>simp_all add: length_chain_at packet_mac_def length_tag\<close>)

lemma enqueue_genuine:
  assumes "drawers_genuine M A kf tr" and "de_mac e = packet_mac M A kf (tr_params tr) (tr_alg tr) i (de_ext_index e) (de_covered e)"
  shows "drawers_genuine M A kf (enqueue_packet i e tr)"
  using assms unfolding drawers_genuine_def enqueue_packet_def Let_def push_drawer_def
  by (auto simp: update_conv' split: option.splits if_splits) metis

lemma drawers_genuine_cong:
  "tr_drawers tr' = tr_drawers tr \<Longrightarrow> tr_params tr' = tr_params tr \<Longrightarrow> tr_alg tr' = tr_alg tr \<Longrightarrow>
     drawers_genuine M A kf tr \<Longrightarrow> drawers_genuine M A kf tr'"
  by (simp add: drawers_genuine_def)

lemma settingsD:
  assumes "settings tr' = settings tr"
  shows "tr_params tr' = tr_params tr" "tr_verifier tr' = tr_verifier tr" "tr_alg tr' = tr_alg tr"
    "tr_inner tr' = tr_inner tr" "tr_recovery tr' = tr_recovery tr"
  using assms by (simp_all add: settings_def)

text \<open>The check of a disclosed chain key that is not too far ahead.\<close>

lemma check_chain_key:
  assumes v: "on_chain M kf v" and j: "j \<le> cv_n_chain v" and g: "j - cv_trusted_index v \<le> cv_g_max v"
    and c: "ChainVerifier_check M v (chain_at M kf (cv_n_chain v) j) j = (v', d)"
  shows "on_chain M kf v'" "cv_n_chain v' = cv_n_chain v" "cv_g_max v' = cv_g_max v"
    "cv_trusted_index v' = max (cv_trusted_index v) j" "(\<exists>keys. d = DNew keys) \<or> d = DNotNew"
    "newly_trusted d = map (\<lambda>i. (i, chain_at M kf (cv_n_chain v) i)) [Suc (cv_trusted_index v)..<Suc j]"
proof -
  have "on_chain M kf v' \<and> cv_n_chain v' = cv_n_chain v \<and> cv_g_max v' = cv_g_max v \<and>
    cv_trusted_index v' = max (cv_trusted_index v) j \<and> ((\<exists>keys. d = DNew keys) \<or> d = DNotNew) \<and>
    newly_trusted d = map (\<lambda>i. (i, chain_at M kf (cv_n_chain v) i)) [Suc (cv_trusted_index v)..<Suc j]"
  proof (cases "cv_trusted_index v < j")
    case True
    from check_genuine [OF v True j g] c show ?thesis using True by (auto simp: newly_trusted_def simp del: upt_Suc)
  next
    case False
    then show ?thesis using c v by (auto simp: check_cases newly_trusted_def)
  qed
  then show "on_chain M kf v'" "cv_n_chain v' = cv_n_chain v" "cv_g_max v' = cv_g_max v"
    "cv_trusted_index v' = max (cv_trusted_index v) j" "(\<exists>keys. d = DNew keys) \<or> d = DNotNew"
    "newly_trusted d = map (\<lambda>i. (i, chain_at M kf (cv_n_chain v) i)) [Suc (cv_trusted_index v)..<Suc j]"
    by blast+
qed

lemma process_deliver:
  assumes "split_extension dg = (b, Some (i, k, mac))" and "12 \<le> length b"
    and "TeslaSchedule_accepts (tr_params tr) arrival i = Safe"
    and "ReceiverKeyManager_unprotect C H (tr_inner tr) b = Done (inn, out, Inr g)"
    and c: "snd (ChainVerifier_check M (tr_verifier tr) k (TeslaSchedule_disclosed_index (tr_params tr) i)) = d"
    and d: "(\<exists>keys. d = DNew keys) \<or> d = DNotNew"
    and s: "TeslaReceiver_settle M A (after_inner M tr inn b i k) (newly_trusted d) arrival = Done (tr3, n)"
  shows "TeslaReceiver_process_arrival C H M A tr dg arrival =
    Done (enqueue_packet i (drawer_entry tr b mac arrival) tr3, out, Inr n)"
proof -
  obtain v where v: "ChainVerifier_check M (tr_verifier tr) k (TeslaSchedule_disclosed_index (tr_params tr) i) = (v, d)"
    using c by (metis prod.collapse)
  have a: "tr\<lparr>tr_inner := inn, tr_recovery := IndexRecovery_update (tr_recovery tr)
      (IndexRecovery_recover (tr_recovery tr) (header_seq b)), tr_verifier := v\<rparr> = after_inner M tr inn b i k"
    by (simp add: after_inner_def v)
  show ?thesis using d
  proof
    assume "\<exists>keys. d = DNew keys"
    then show ?thesis using assms v
      by (auto simp: TeslaReceiver_process_arrival_def RTP_HEADER_LEN_def Let_def a newly_trusted_def drawer_entry_def)
  next
    assume "d = DNotNew"
    then show ?thesis using assms v
      by (auto simp: TeslaReceiver_process_arrival_def RTP_HEADER_LEN_def Let_def a newly_trusted_def drawer_entry_def)
  qed
qed

lemma process_genuine:
  assumes inv: "tesla_inv now tr" and t: "now \<le> arrival" and G: "drawers_genuine M A kf tr" and S: "on_stream M kf tr"
    and M: "mac_sound M A" "length kf = TESLA_KEY_LEN"
    and i: "i \<le> ts_n_chain (tr_params tr)" "ts_n_chain (tr_params tr) < 2 ^ 32"
    and j: "j = TeslaSchedule_disclosed_index (tr_params tr) i"
      "j - cv_trusted_index (tr_verifier tr) \<le> cv_g_max (tr_verifier tr)"
    and safe: "TeslaSchedule_accepts (tr_params tr) arrival i = Safe"
    and u: "12 \<le> length buf" "ReceiverKeyManager_unprotect C H (tr_inner tr) buf = Done (inn, out, Inr g)"
    and e: "IndexRecovery_recover (tr_recovery tr) (header_seq buf) = ext"
  obtains tr' n where
    "TeslaReceiver_process_arrival C H M A tr (datagram M A kf (tr_params tr) (tr_alg tr) i ext buf) arrival =
      Done (tr', out, Inr n)"
    "tesla_inv arrival tr'" "drawers_genuine M A kf tr'" "on_stream M kf tr'"
    "forged (tr_stats tr') = forged (tr_stats tr)" "verified (tr_stats tr') = verified (tr_stats tr) + n"
    "delivered (tr_stats tr') = Suc (delivered (tr_stats tr))"
    "cv_trusted_index (tr_verifier tr') = max (cv_trusted_index (tr_verifier tr)) j"
    "\<And>m. map_of (tr_drawers tr') m \<noteq> None \<Longrightarrow> map_of (tr_drawers tr) m \<noteq> None \<or> m = i"
    "\<And>m. cv_trusted_index (tr_verifier tr) < m \<Longrightarrow> m \<le> j \<Longrightarrow> m \<noteq> i \<Longrightarrow> map_of (tr_drawers tr') m = None"
    "tr_params tr' = tr_params tr" "tr_alg tr' = tr_alg tr" "tr_inner tr' = inn"
    "tr_recovery tr' = IndexRecovery_update (tr_recovery tr) ext"
    "cv_g_max (tr_verifier tr') = cv_g_max (tr_verifier tr)"
proof -
  let ?v = "tr_verifier tr" and ?N = "ts_n_chain (tr_params tr)"
  let ?k = "chain_at M kf ?N j" and ?mac = "packet_mac M A kf (tr_params tr) (tr_alg tr) i ext buf"
  let ?a = "after_inner M tr inn buf i ?k"
  have oc: "on_chain M kf ?v" "cv_n_chain ?v = ?N" using S by (simp_all add: on_stream_def)
  have sp: "split_extension (datagram M A kf (tr_params tr) (tr_alg tr) i ext buf) = (buf, Some (i, ?k, ?mac))"
    unfolding j(1) by (rule split_datagram [OF M]) (use i u(1) in auto)
  obtain v' d where c: "ChainVerifier_check M ?v ?k j = (v', d)" by (cases "ChainVerifier_check M ?v ?k j")
  have jn: "j \<le> cv_n_chain ?v" using disclosed_index_le [of "tr_params tr" i] i(1) by (simp add: j(1) oc(2))
  note K = check_chain_key [OF oc(1) jn j(2), unfolded oc(2), OF c]
  have inva: "tesla_inv arrival ?a" by (rule after_inner_inv [OF tesla_inv_later [OF inv t]])
  obtain tr3 n where s: "TeslaReceiver_settle M A ?a (newly_trusted d) arrival = Done (tr3, n)" "tesla_inv arrival tr3"
    "settings tr3 = settings ?a" "delivered (tr_stats tr3) = delivered (tr_stats ?a)"
    "map_of (tr_drawers tr3) = (map_of (tr_drawers ?a)) |` (- fst ` set (newly_trusted d))"
    using settle_inv [OF inva, of M A "newly_trusted d"] by blast
  note D = settingsD [OF s(3)]
  have Ga: "drawers_genuine M A kf ?a" by (rule drawers_genuine_cong [OF _ _ _ G]) simp_all
  have sg: "forged (tr_stats tr3) = forged (tr_stats ?a) \<and> verified (tr_stats tr3) = verified (tr_stats ?a) + n"
    by (rule settle_genuine [OF inva Ga _ s(1)]) (auto simp: K(6))
  have G3: "drawers_genuine M A kf tr3"
    using Ga by (auto simp: drawers_genuine_def s(5) D restrict_map_def split: if_splits)
  let ?e = "drawer_entry tr buf ?mac arrival" and ?t = "enqueue_packet i (drawer_entry tr buf ?mac arrival) tr3"
  have q: "tr_verifier ?t = v'" "tr_params ?t = tr_params tr" "tr_alg ?t = tr_alg tr" "tr_inner ?t = inn"
    "tr_recovery ?t = IndexRecovery_update (tr_recovery tr) ext"
    using D by (simp_all add: enqueue_packet_def Let_def after_inner_def c e flip: j(1))
  have "TeslaReceiver_process_arrival C H M A tr (datagram M A kf (tr_params tr) (tr_alg tr) i ext buf) arrival =
      Done (?t, out, Inr n)"
    by (rule process_deliver [OF sp u(1) safe u(2) _ K(5) s(1)]) (simp add: c flip: j(1))
  moreover have "tesla_inv arrival ?t" by (rule enqueue_inv [OF s(2)]) (simp add: drawer_entry_def)
  moreover have "drawers_genuine M A kf ?t"
    by (rule enqueue_genuine [OF G3]) (simp add: drawer_entry_def e D)
  moreover have "on_stream M kf ?t" unfolding on_stream_def q using K(1,2) oc(2) by simp
  moreover have "map_of (tr_drawers ?t) m = None" if "cv_trusted_index ?v < m" "m \<le> j" "m \<noteq> i" for m
  proof -
    have "m \<in> fst ` set (newly_trusted d)" using that by (auto simp: K(6) image_iff)
    then have "map_of (tr_drawers tr3) m = None" by (simp add: s(5) restrict_map_def)
    then show ?thesis using that(3) by (simp add: enqueue_packet_def Let_def push_drawer_def update_conv')
  qed
  moreover have "map_of (tr_drawers tr) m \<noteq> None \<or> m = i" if "map_of (tr_drawers ?t) m \<noteq> None" for m
    using that s(5)
    by (auto simp: enqueue_packet_def Let_def push_drawer_def update_conv' restrict_map_def split: if_splits)
  ultimately show thesis
    by (intro that [of ?t n]) (use sg s(4) q K in \<open>simp_all add: enqueue_packet_def Let_def\<close>)
qed

section \<open>A whole stream of genuine datagrams\<close>

text \<open>
  A packet on the wire: its sending time, its stream index, its protected bytes and its arrival
  time. \<open>tesla_arrivals\<close> says what the network and the clocks are assumed to do, from a point where
  the last arrival was at \<open>now\<close> and the chain is trusted up to index \<open>trusted\<close>: arrival times do not
  decrease, the clocks differ by at most \<open>D_t\<close>, every packet passes the safety test, and no more than
  \<open>g\<close> chain keys are lost in a row.
\<close>

fun tesla_arrivals :: "TeslaSchedule \<Rightarrow> nat \<Rightarrow> nat \<Rightarrow> nat \<Rightarrow> (nat \<times> nat \<times> bytes \<times> nat) list \<Rightarrow> bool" where
  "tesla_arrivals s g now trusted [] \<longleftrightarrow> True"
| "tesla_arrivals s g now trusted ((t, ext, buf, a) # ps) \<longleftrightarrow>
     (case TeslaSchedule_interval_of s t of
        Panic _ \<Rightarrow> False
      | Done i \<Rightarrow>
          now \<le> a \<and> t \<le> a + ts_d_t_ns s \<and> a + ts_d_t_ns s < 2 ^ 64 - 1 \<and>
          TeslaSchedule_accepts s a i = Safe \<and> TeslaSchedule_disclosed_index s i - trusted \<le> g \<and>
          12 \<le> length buf \<and> header_seq buf = of_nat ext \<and> ext < 2 ^ 64 \<and>
          tesla_arrivals s g a (max trusted (TeslaSchedule_disclosed_index s i)) ps)"

definition sent_interval :: "TeslaSchedule \<Rightarrow> nat \<Rightarrow> nat" where
  "sent_interval s t = 1 + (t - ts_t0_ns s) div ts_t_int_ns s"

text \<open>The datagram the sender emits for such a packet, with its arrival time.\<close>

definition arriving ::
  "hmac \<Rightarrow> gmac \<Rightarrow> ChainKey \<Rightarrow> TeslaSchedule \<Rightarrow> TeslaMacAlg \<Rightarrow> nat \<times> nat \<times> bytes \<times> nat \<Rightarrow> bytes \<times> nat" where
  "arriving M A kf s alg p =
     (case p of (t, ext, buf, a) \<Rightarrow> (datagram M A kf s alg (sent_interval s t) ext buf, a))"

definition stream_rel ::
  "hmac \<Rightarrow> gmac \<Rightarrow> ChainKey \<Rightarrow> TeslaSchedule \<Rightarrow> TeslaMacAlg \<Rightarrow> nat \<Rightarrow> nat \<Rightarrow> nat \<Rightarrow> nat option \<Rightarrow> TeslaReceiver \<Rightarrow> bool" where
  "stream_rel M A kf s alg g now trusted hi tr \<longleftrightarrow>
     tesla_inv now tr \<and> drawers_genuine M A kf tr \<and> on_stream M kf tr \<and> forged (tr_stats tr) = 0 \<and>
     tr_params tr = s \<and> tr_alg tr = alg \<and> cv_g_max (tr_verifier tr) = g \<and>
     cv_trusted_index (tr_verifier tr) = trusted \<and> ir_highest (tr_recovery tr) = hi \<and>
     (\<forall>m\<le>trusted. map_of (tr_drawers tr) m = None) \<and>
     (trusted = 0 \<or> (\<exists>t i. t \<le> now + ts_d_t_ns s \<and> TeslaSchedule_interval_of s t = Done i \<and>
        trusted = TeslaSchedule_disclosed_index s i))"

lemma stream_step:
  assumes rel: "stream_rel M A kf s alg g now trusted hi tr" and ok: "schedule_ok s" "ts_n_chain s < 2 ^ 32"
    and M: "mac_sound M A" "length kf = TESLA_KEY_LEN"
    and arr: "tesla_arrivals s g now trusted ((t, ext, buf, a) # ps)" and n: "near_run hi (ext # es)"
    and u: "ReceiverKeyManager_unprotect C H (tr_inner tr) buf = Done (inn, out, Inr gen)"
  shows "\<exists>tr' v. TeslaReceiver_process_arrival C H M A tr (datagram M A kf s alg (sent_interval s t) ext buf) a =
      Done (tr', out, Inr v) \<and> tr_inner tr' = inn \<and>
    delivered (tr_stats tr') = Suc (delivered (tr_stats tr)) \<and>
    stream_rel M A kf s alg g a (max trusted (TeslaSchedule_disclosed_index s (sent_interval s t)))
      (Some (case hi of None \<Rightarrow> ext | Some h \<Rightarrow> max h ext)) tr'"
proof -
  define i where "i = sent_interval s t"
  define j where "j = TeslaSchedule_disclosed_index s i"
  have R: "tesla_inv now tr" "drawers_genuine M A kf tr" "on_stream M kf tr" "forged (tr_stats tr) = 0"
    "tr_params tr = s" "tr_alg tr = alg" "cv_g_max (tr_verifier tr) = g" "cv_trusted_index (tr_verifier tr) = trusted"
    "ir_highest (tr_recovery tr) = hi"
    and N: "\<And>m. m \<le> trusted \<Longrightarrow> map_of (tr_drawers tr) m = None"
    and T: "trusted = 0 \<or> (\<exists>t i. t \<le> now + ts_d_t_ns s \<and> TeslaSchedule_interval_of s t = Done i \<and>
        trusted = TeslaSchedule_disclosed_index s i)"
    using rel unfolding stream_rel_def by blast+
  have i: "TeslaSchedule_interval_of s t = Done i"
    using arr by (auto simp: interval_of_iff i_def sent_interval_def split: outcome.splits)
  have P: "now \<le> a" "t \<le> a + ts_d_t_ns s" "a + ts_d_t_ns s < 2 ^ 64 - 1" "TeslaSchedule_accepts s a i = Safe"
    "j - trusted \<le> g" "12 \<le> length buf" "header_seq buf = of_nat ext" "ext < 2 ^ 64"
    using arr unfolding tesla_arrivals.simps i outcome.case j_def by blast+
  have i0: "0 < i" "i \<le> ts_n_chain s" using i by (auto simp: interval_of_iff)
  have ji: "j < i" using i0(1) ok(1) by (auto simp: j_def TeslaSchedule_disclosed_index_def schedule_ok_def)
  have fresh: "trusted < i"
    using T
  proof
    assume "\<exists>t i. t \<le> now + ts_d_t_ns s \<and> TeslaSchedule_interval_of s t = Done i \<and>
        trusted = TeslaSchedule_disclosed_index s i"
    then obtain t' i' where t': "t' \<le> now + ts_d_t_ns s" "TeslaSchedule_interval_of s t' = Done i'"
      "trusted = TeslaSchedule_disclosed_index s i'" by blast
    have "t' \<le> a + ts_d_t_ns s" using t'(1) P(1) by linarith
    from accepts_before_disclosure [OF P(4,3) this t'(2)] show ?thesis
      unfolding t'(3) by (simp add: disclosed_index_less [OF i0(1)])
  qed (use i0 in simp)
  have e: "IndexRecovery_recover (tr_recovery tr) (header_seq buf) = ext"
  proof (cases hi)
    case None
    then show ?thesis using n R(9) by (simp add: P(7) recover_first unat_of_nat_u16)
  next
    case (Some h)
    then show ?thesis unfolding P(7) using n R(9) P(8) by (intro recover_near) auto
  qed
  show ?thesis
  proof (rule process_genuine [where i = i and j = j and C = C and H = H and buf = buf and inn = inn and out = out
        and g = gen and ext = ext, OF R(1) P(1) R(2,3) M])
    fix tr' v
    assume D: "TeslaReceiver_process_arrival C H M A tr (datagram M A kf (tr_params tr) (tr_alg tr) i ext buf) a =
        Done (tr', out, Inr v)" "tesla_inv a tr'" "drawers_genuine M A kf tr'" "on_stream M kf tr'"
      "forged (tr_stats tr') = forged (tr_stats tr)" "delivered (tr_stats tr') = Suc (delivered (tr_stats tr))"
      "cv_trusted_index (tr_verifier tr') = max (cv_trusted_index (tr_verifier tr)) j"
      "\<And>m. map_of (tr_drawers tr') m \<noteq> None \<Longrightarrow> map_of (tr_drawers tr) m \<noteq> None \<or> m = i"
      "\<And>m. cv_trusted_index (tr_verifier tr) < m \<Longrightarrow> m \<le> j \<Longrightarrow> m \<noteq> i \<Longrightarrow> map_of (tr_drawers tr') m = None"
      "tr_params tr' = tr_params tr" "tr_alg tr' = tr_alg tr" "tr_inner tr' = inn"
      "tr_recovery tr' = IndexRecovery_update (tr_recovery tr) ext"
      "cv_g_max (tr_verifier tr') = cv_g_max (tr_verifier tr)"
    have "map_of (tr_drawers tr') m = None" if m: "m \<le> max trusted j" for m
    proof (cases "m \<le> trusted")
      case True
      then have "m \<noteq> i" using fresh by simp
      then show ?thesis using D(8) [of m] N [OF True] by blast
    next
      case False
      then show ?thesis using D(9) [of m] m ji R(8) by auto
    qed
    moreover have "max trusted j = 0 \<or> (\<exists>t i. t \<le> a + ts_d_t_ns s \<and> TeslaSchedule_interval_of s t = Done i \<and>
        max trusted j = TeslaSchedule_disclosed_index s i)"
    proof (cases "trusted \<le> j")
      case True
      then have "max trusted j = TeslaSchedule_disclosed_index s i" by (simp add: j_def)
      then show ?thesis using i P(2) by blast
    next
      case False
      then have "max trusted j = trusted" "trusted \<noteq> 0" by simp_all
      then show ?thesis using T P(1) by (metis add_le_mono1 order_trans)
    qed
    ultimately have "stream_rel M A kf s alg g a (max trusted j) (Some (case hi of None \<Rightarrow> ext | Some h \<Rightarrow> max h ext)) tr'"
      unfolding stream_rel_def using D R by (simp add: update_highest split: option.splits)
    then show ?thesis using D(1,6,12) R(5,6) by (auto simp: i_def j_def)
  qed (use i0 ok P u e R in \<open>simp_all add: j_def\<close>)
qed

definition trusted_after :: "TeslaSchedule \<Rightarrow> nat \<Rightarrow> (nat \<times> nat \<times> bytes \<times> nat) list \<Rightarrow> nat" where
  "trusted_after s trusted ps =
     fold (\<lambda>(t, ext, buf, a) tru. max tru (TeslaSchedule_disclosed_index s (sent_interval s t))) ps trusted"

lemma interval_sent: "TeslaSchedule_interval_of s t = Done i \<Longrightarrow> i = sent_interval s t"
  by (simp add: interval_of_iff sent_interval_def)

lemma near_run_step:
  "near_run hi (i # is) \<Longrightarrow> near_run (Some (case hi of None \<Rightarrow> i | Some h \<Rightarrow> max h i)) is"
  by (cases hi) auto

lemma stream_run:
  assumes ok: "schedule_ok s" "ts_n_chain s < 2 ^ 32" and M: "mac_sound M A" "length kf = TESLA_KEY_LEN"
  shows "stream_rel M A kf s alg g now trusted hi tr \<Longrightarrow> tesla_arrivals s g now trusted ps \<Longrightarrow>
    near_run hi (map (\<lambda>(t, ext, buf, a). ext) ps) \<Longrightarrow>
    run_steps (ReceiverKeyManager_unprotect C H) (tr_inner tr) (map (\<lambda>(t, ext, buf, a). buf) ps) = Done (inn, outs) \<Longrightarrow>
    \<forall>x\<in>set outs. \<exists>gen. snd x = Inr gen \<Longrightarrow>
    \<exists>tr' outs' now' hi'. run_steps (\<lambda>tr (dg, a). TeslaReceiver_process_arrival C H M A tr dg a) tr
        (map (arriving M A kf s alg) ps) = Done (tr', outs') \<and>
      map fst outs' = map fst outs \<and> (\<forall>x\<in>set outs'. \<exists>v. snd x = Inr v) \<and>
      delivered (tr_stats tr') = delivered (tr_stats tr) + length ps \<and>
      stream_rel M A kf s alg g now' (trusted_after s trusted ps) hi' tr'"
proof (induction ps arbitrary: now trusted hi tr outs)
  case Nil
  then show ?case by (auto simp: trusted_after_def)
next
  case (Cons p ps)
  obtain t ext buf a where p: "p = (t, ext, buf, a)" by (cases p) auto
  from Cons.prems(4) obtain inn1 o1 os where
    u: "ReceiverKeyManager_unprotect C H (tr_inner tr) buf = Done (inn1, o1)"
    and r: "run_steps (ReceiverKeyManager_unprotect C H) inn1 (map (\<lambda>(t, ext, buf, a). buf) ps) = Done (inn, os)"
    and outs: "outs = o1 # os"
    by (auto simp: p outcome_simps)
  from Cons.prems(5) obtain x gen where gen: "o1 = (x, Inr gen)" by (cases o1) (auto simp: outs)
  note u = u [unfolded gen]
  define hi1 where "hi1 = Some (case hi of None \<Rightarrow> ext | Some h \<Rightarrow> max h ext)"
  define tr1 where "tr1 = max trusted (TeslaSchedule_disclosed_index s (sent_interval s t))"
  obtain trx v where st: "TeslaReceiver_process_arrival C H M A tr (datagram M A kf s alg (sent_interval s t) ext buf) a =
      Done (trx, x, Inr v)" "tr_inner trx = inn1" "delivered (tr_stats trx) = Suc (delivered (tr_stats tr))"
    "stream_rel M A kf s alg g a tr1 hi1 trx"
    using stream_step [OF Cons.prems(1) ok M Cons.prems(2) [unfolded p] Cons.prems(3) [unfolded p list.map prod.case] u]
    unfolding hi1_def tr1_def by blast
  have arr: "tesla_arrivals s g a tr1 ps"
    using Cons.prems(2) by (auto simp: p tr1_def split: outcome.splits dest: interval_sent)
  have near: "near_run hi1 (map (\<lambda>(t, ext, buf, a). ext) ps)"
    unfolding hi1_def by (rule near_run_step [OF Cons.prems(3) [unfolded p list.map prod.case]])
  have all: "\<forall>x\<in>set os. \<exists>gen. snd x = Inr gen" using Cons.prems(5) by (simp add: outs)
  from Cons.IH [OF st(4) arr near r [folded st(2)] all] obtain tr' outs' now' hi' where
    ih: "run_steps (\<lambda>tr (dg, a). TeslaReceiver_process_arrival C H M A tr dg a) trx
        (map (arriving M A kf s alg) ps) = Done (tr', outs')"
      "map fst outs' = map fst os" "\<forall>x\<in>set outs'. \<exists>v. snd x = Inr v"
      "delivered (tr_stats tr') = delivered (tr_stats trx) + length ps"
      "stream_rel M A kf s alg g now' (trusted_after s tr1 ps) hi' tr'" by blast
  have "trusted_after s trusted (p # ps) = trusted_after s tr1 ps" by (simp add: trusted_after_def p tr1_def)
  moreover have "run_steps (\<lambda>tr (dg, a). TeslaReceiver_process_arrival C H M A tr dg a) tr
      (map (arriving M A kf s alg) (p # ps)) = Done (tr', (x, Inr v) # outs')"
    by (simp add: p arriving_def st(1)) (simp add: ih(1))
  ultimately show ?case using ih(2-5) st(3)
    by (intro exI [of _ tr'] exI [of _ "(x, Inr v) # outs'"] exI [of _ now'] exI [of _ hi'])
      (simp add: outs gen del: run_steps.simps list.map(2), simp)
qed

section \<open>Properties\<close>

lemma accept_state:
  assumes "TeslaReceiver_accept vs c sg pk d_t g inner = Done (Some tr)"
  shows "TeslaSchedule_new (co_t0_ns c) (co_t_int_ns c) (co_d c) (co_n_chain c) d_t g = Done (tr_params tr)"
    and "ts_n_chain (tr_params tr) = co_n_chain c" "ts_g_max (tr_params tr) = g" "ts_d_t_ns (tr_params tr) = d_t"
    and "tr_verifier tr = ChainVerifier_new (co_anchor c) (co_n_chain c) g" "tr_alg tr = co_mac_alg c"
    and "tr_inner tr = inner" "tr_recovery tr = IndexRecovery_default" "tr_drawers tr = []" "tr_pending tr = 0"
    and "tr_stats tr = TeslaStats_default" "vs (TeslaCommitment_to_bytes c) pk sg"
  using assms
  by (auto simp: TeslaReceiver_accept_def TeslaCommitment_verify_def TeslaCommitment_schedule_def TeslaSchedule_new_def
      outcome_simps split: if_splits)

lemma accept_rel:
  assumes "TeslaReceiver_accept vs c sg pk d_t g inner = Done (Some tr)"
    and "co_anchor c = chain_at M kf (co_n_chain c) 0"
  shows "stream_rel M A kf (tr_params tr) (co_mac_alg c) g 0 0 None tr"
  using accept_state [OF assms(1)] assms(2)
  by (simp add: stream_rel_def tesla_inv_def waiting_def drawers_genuine_def on_stream_def on_chain_def
      ChainVerifier_new_def IndexRecovery_default_def TeslaStats_default_def)

text \<open>
  C12. A genuine stream is authenticated: a receiver that accepted the commitment of a sender's chain
  delivers every datagram of that sender that arrives in time with the SRTP layer's plaintext, calls
  none of them forged, keeps count of every one as verified or still waiting, and nothing waits any
  more for an interval whose key the stream has disclosed.
\<close>

theorem tesla_stream_verified:
  assumes "TeslaReceiver_accept vs c sg pk d_t g inner = Done (Some tr)"
    and "co_anchor c = chain_at M kf (co_n_chain c) 0" and "co_n_chain c < 2 ^ 32"
    and "mac_sound M A" and "length kf = TESLA_KEY_LEN"
    and "tesla_arrivals (tr_params tr) g 0 0 ps" and "near_run None (map (\<lambda>(t, ext, buf, a). ext) ps)"
    and "run_steps (ReceiverKeyManager_unprotect C H) inner (map (\<lambda>(t, ext, buf, a). buf) ps) = Done (inn, outs)"
    and "\<forall>x\<in>set outs. \<exists>gen. snd x = Inr gen"
  shows "\<exists>tr' outs'. run_steps (\<lambda>tr (dg, a). TeslaReceiver_process_arrival C H M A tr dg a) tr
      (map (arriving M A kf (tr_params tr) (co_mac_alg c)) ps) = Done (tr', outs') \<and>
    map fst outs' = map fst outs \<and> (\<forall>x\<in>set outs'. \<exists>v. snd x = Inr v) \<and>
    delivered (tr_stats tr') = length ps \<and> forged (tr_stats tr') = 0 \<and>
    verified (tr_stats tr') + TeslaReceiver_unsettled tr' = length ps \<and>
    cv_trusted_index (tr_verifier tr') = trusted_after (tr_params tr) 0 ps \<and>
    (\<forall>m\<le>trusted_after (tr_params tr) 0 ps. map_of (tr_drawers tr') m = None)"
proof -
  note S = accept_state [OF assms(1)]
  have ok: "schedule_ok (tr_params tr)" "ts_n_chain (tr_params tr) < 2 ^ 32"
    using new_schedule_ok [OF S(1)] assms(3) S(2) by simp_all
  obtain tr' outs' now' hi' where r: "run_steps (\<lambda>tr (dg, a). TeslaReceiver_process_arrival C H M A tr dg a) tr
      (map (arriving M A kf (tr_params tr) (co_mac_alg c)) ps) = Done (tr', outs')"
    "map fst outs' = map fst outs" "\<forall>x\<in>set outs'. \<exists>v. snd x = Inr v"
    "delivered (tr_stats tr') = delivered (tr_stats tr) + length ps"
    "stream_rel M A kf (tr_params tr) (co_mac_alg c) g now' (trusted_after (tr_params tr) 0 ps) hi' tr'"
    using stream_run [OF ok assms(4,5) accept_rel [OF assms(1,2)] assms(6,7) _ assms(9), of C H inn] assms(8) S(7)
    by blast
  from r(5) have "delivered (tr_stats tr') = verified (tr_stats tr') + tr_pending tr'"
    "forged (tr_stats tr') = 0" "cv_trusted_index (tr_verifier tr') = trusted_after (tr_params tr) 0 ps"
    "\<forall>m\<le>trusted_after (tr_params tr) 0 ps. map_of (tr_drawers tr') m = None"
    by (simp_all add: stream_rel_def tesla_inv_def)
  then show ?thesis using r(1-4) S(11)
    by (intro exI [of _ tr'] exI [of _ outs']) (simp add: TeslaReceiver_unsettled_def TeslaStats_default_def)
qed

text \<open>An example: one packet of interval 2 for the example receiver of theory \<open>Receiver\<close>.\<close>

definition sample_arrival :: "nat \<times> nat \<times> bytes \<times> nat" where
  "sample_arrival = (150, 3, seal_packet sample_crypto (gen_key sample_hkdf sample_seed 3)
     (gen_salt sample_hkdf sample_seed 3) 3 (sample_packet 3 0), 160)"

lemma sample_accept:
  "\<exists>tr. TeslaReceiver_accept (\<lambda>_ _ _. True) (sample_commitment [1] [2]) [] [] 5 4 inner = Done (Some tr) \<and>
     tr_params tr = sample_schedule"
  by (simp add: TeslaReceiver_accept_def TeslaCommitment_verify_def TeslaCommitment_schedule_def TeslaSchedule_new_def
      sample_commitment_def sample_schedule_def)

lemma sample_arrival_ok: "tesla_arrivals sample_schedule 4 0 0 [sample_arrival]"
proof -
  have "TeslaSchedule_interval_of sample_schedule 150 = Done 2"
    by (simp add: interval_of_iff sample_schedule_def)
  moreover have "TeslaSchedule_accepts sample_schedule 160 2 = Safe"
    by (simp add: TeslaSchedule_accepts_def upper_bound_eq sample_schedule_def)
  moreover note seal_packet_header [OF sample_packet_facts(1) [of 3 0], of sample_crypto "gen_key sample_hkdf sample_seed 3"
      "gen_salt sample_hkdf sample_seed 3" 3]
  ultimately show ?thesis
    by (simp add: sample_arrival_def TeslaSchedule_disclosed_index_def sample_packet_facts plain_header_def)
      (simp add: sample_schedule_def)
qed

theorem tesla_stream_verified_witness:
  "\<exists>inner tr tr' outs'. sample_receiver = Done inner \<and>
     TeslaReceiver_accept (\<lambda>_ _ _. True) (sample_commitment [1] [2]) [] [] 5 4 inner = Done (Some tr) \<and>
     run_steps (\<lambda>tr (dg, a). TeslaReceiver_process_arrival sample_crypto sample_hkdf sample_hmac sample_gmac tr dg a) tr
       (map (arriving sample_hmac sample_gmac (replicate 20 7) (tr_params tr) (co_mac_alg (sample_commitment [1] [2])))
          [sample_arrival]) = Done (tr', outs') \<and>
     delivered (tr_stats tr') = length [sample_arrival] \<and> forged (tr_stats tr') = 0"
proof -
  obtain inner where r: "sample_receiver = Done inner" using sample_receiver_exists by blast
  obtain tr where tr: "TeslaReceiver_accept (\<lambda>_ _ _. True) (sample_commitment [1] [2]) [] [] 5 4 inner = Done (Some tr)"
    and s: "tr_params tr = sample_schedule" using sample_accept by blast
  obtain inn where u: "ReceiverKeyManager_unprotect sample_crypto sample_hkdf inner
      (seal_packet sample_crypto (gen_key sample_hkdf sample_seed 3) (gen_salt sample_hkdf sample_seed 3) 3 (sample_packet 3 0)) =
    Done (inn, sample_packet 3 0, Inr 3)" using sample_receiver_accepts [OF r] by blast
  have run: "run_steps (ReceiverKeyManager_unprotect sample_crypto sample_hkdf) inner
      (map (\<lambda>(t, ext, buf, a). buf) [sample_arrival]) = Done (inn, [(sample_packet 3 0, Inr 3)])"
    using u by (simp add: sample_arrival_def)
  have a: "tesla_arrivals (tr_params tr) 4 0 0 [sample_arrival]" unfolding s by (rule sample_arrival_ok)
  have c: "co_anchor (sample_commitment [1] [2]) = chain_at sample_hmac (replicate 20 7) (co_n_chain (sample_commitment [1] [2])) 0"
    "co_n_chain (sample_commitment [1] [2]) < 2 ^ 32"
    by (simp_all add: sample_commitment_def)
  have n: "near_run None (map (\<lambda>(t, ext, buf, a). ext) [sample_arrival])" by (simp add: sample_arrival_def)
  have k: "length (replicate 20 (7 :: u8)) = TESLA_KEY_LEN" by (simp add: TESLA_KEY_LEN_def)
  show ?thesis
    using r tr tesla_stream_verified [OF tr c sample_mac_sound k a n run] by auto
qed

section \<open>Arbitrary datagrams\<close>

lemma settle_entries_drawers:
  "settle_entries M A p now tr es = Done tr' \<Longrightarrow> tr_drawers tr' = tr_drawers tr \<and> tr_params tr' = tr_params tr"
  by (induction es arbitrary: tr) (auto simp: settle_entry_def outcome_simps split: if_splits)

lemma settle_drawers:
  "TeslaReceiver_settle M A tr keys now = Done (tr', n) \<Longrightarrow>
     set (tr_drawers tr') \<subseteq> set (tr_drawers tr) \<and> tr_params tr' = tr_params tr"
proof (induction keys arbitrary: tr n)
  case Nil
  then show ?case by simp
next
  case (Cons ik keys)
  obtain i k where ik: "ik = (i, k)" by (cases ik)
  show ?case
  proof (cases "map_of (tr_drawers tr) i")
    case None
    then show ?thesis using Cons by (simp add: ik)
  next
    case (Some es)
    then obtain p tr1 m where
      e: "settle_entries M A p now (tr\<lparr>tr_drawers := AList.delete i (tr_drawers tr)\<rparr>) es = Done tr1"
      and r: "TeslaReceiver_settle M A tr1 keys now = Done (tr', m)"
      using Cons.prems by (auto simp: ik outcome_simps)
    have "set (AList.delete i (tr_drawers tr)) \<subseteq> set (tr_drawers tr)"
      by (simp add: AList.delete_eq subset_eq)
    then show ?thesis using Cons.IH [OF r] settle_entries_drawers [OF e] by auto
  qed
qed

text \<open>Every waiting packet passed the safety test when it arrived.\<close>

definition waiting_safe :: "TeslaReceiver \<Rightarrow> bool" where
  "waiting_safe tr \<longleftrightarrow> distinct (map fst (tr_drawers tr)) \<and>
     (\<forall>i es e. (i, es) \<in> set (tr_drawers tr) \<longrightarrow> e \<in> set es \<longrightarrow>
        TeslaSchedule_accepts (tr_params tr) (de_arrival_ns e) i = Safe)"

lemma waiting_safe_sub:
  assumes "waiting_safe tr" and "set (tr_drawers tr') \<subseteq> set (tr_drawers tr)" and "tr_params tr' = tr_params tr"
    and "distinct (map fst (tr_drawers tr'))"
  shows "waiting_safe tr'"
  using assms unfolding waiting_safe_def by (metis subsetD)

lemma settle_distinct:
  "TeslaReceiver_settle M A tr keys now = Done (tr', n) \<Longrightarrow> distinct (map fst (tr_drawers tr)) \<Longrightarrow>
     distinct (map fst (tr_drawers tr'))"
  by (induction keys arbitrary: tr n)
    (auto simp: outcome_simps distinct_delete split: option.splits dest!: settle_entries_drawers)

lemma enqueue_safe:
  assumes "waiting_safe tr" and "TeslaSchedule_accepts (tr_params tr) (de_arrival_ns e) i = Safe"
  shows "waiting_safe (enqueue_packet i e tr)"
proof -
  have d: "distinct (map fst (tr_drawers tr))" using assms(1) by (simp add: waiting_safe_def)
  have "\<forall>e'\<in>set es. TeslaSchedule_accepts (tr_params tr) (de_arrival_ns e') j = Safe"
    if "(j, es) \<in> set (push_drawer i e (tr_drawers tr))" for j es
    using set_push [OF that d] assms by (auto simp: waiting_safe_def split: option.splits dest!: map_of_SomeD)
  then show ?thesis using distinct_push [OF d]
    by (auto simp: waiting_safe_def enqueue_packet_def Let_def)
qed

lemma process_safe:
  assumes w: "waiting_safe tr" and p: "TeslaReceiver_process_arrival C H M A tr dg arrival = Done (tr', out, res)"
  shows "waiting_safe tr' \<and> tr_params tr' = tr_params tr"
proof (cases rule: process_split [OF p])
  case (4 inn b i k mac g d tr3 n)
  have "waiting_safe (after_inner M tr inn b i k)" using w by (simp add: waiting_safe_def)
  then have "waiting_safe tr3" "tr_params tr3 = tr_params tr"
    using waiting_safe_sub [of "after_inner M tr inn b i k" tr3] settle_drawers [OF 4(6)] settle_distinct [OF 4(6)]
    by (auto simp: waiting_safe_def)
  then show ?thesis using enqueue_safe [of tr3 "drawer_entry tr b mac arrival" i] 4(2,7)
    by (simp add: drawer_entry_def) (simp add: enqueue_packet_def Let_def)
qed (use w in \<open>auto simp: waiting_safe_def count_tesla_drop_def\<close>)

text \<open>
  C13. No forgery window: over any run of a receiver on arbitrary datagrams with arbitrary arrival
  times, a packet waiting for interval \<open>i\<close> arrived at a moment when, for every sender clock reading
  \<open>t\<close> the clock error allows, the sender had not disclosed a key of index \<open>i\<close> or later. A tag that later
  matches was therefore computed by someone who held the key before its disclosure.
\<close>

theorem tesla_waiting_undisclosed:
  assumes "TeslaReceiver_accept vs c sg pk d_t g inner = Done (Some tr)"
    and "run_steps (\<lambda>tr (dg, a). TeslaReceiver_process_arrival C H M A tr dg a) tr dgs = Done (tr', outs)"
    and "(i, es) \<in> set (tr_drawers tr')" and "e \<in> set es" and "0 < i"
    and "de_arrival_ns e + d_t < 2 ^ 64 - 1" and "t \<le> de_arrival_ns e + d_t"
    and "TeslaSchedule_interval_of (tr_params tr) t = Done j"
  shows "TeslaSchedule_disclosed_index (tr_params tr) j < i"
proof -
  note S = accept_state [OF assms(1)]
  have "waiting_safe tr' \<and> tr_params tr' = tr_params tr"
  proof (rule run_steps_invariant [where I = "\<lambda>x. waiting_safe x \<and> tr_params x = tr_params tr", OF _ _ assms(2)])
    show "waiting_safe tr \<and> tr_params tr = tr_params tr" by (simp add: waiting_safe_def S(9))
  next
    fix s x s' y
    assume I: "waiting_safe s \<and> tr_params s = tr_params tr"
      and p: "(case x of (dg, a) \<Rightarrow> TeslaReceiver_process_arrival C H M A s dg a) = Done (s', y)"
    obtain dg a where x: "x = (dg, a)" by (cases x)
    show "waiting_safe s' \<and> tr_params s' = tr_params tr"
      using process_safe [of s C H M A dg a s' "fst y" "snd y"] I p by (simp add: x)
  qed
  then have "TeslaSchedule_accepts (tr_params tr) (de_arrival_ns e) i = Safe"
    using assms(3,4) by (auto simp: waiting_safe_def)
  from accepts_before_disclosure [OF this _ _ assms(8)] assms(5-7) S(4) show ?thesis
    by (simp add: disclosed_index_less)
qed

lemma sample_run:
  obtains inner tr tr' outs e where "sample_receiver = Done inner"
    and "TeslaReceiver_accept (\<lambda>_ _ _. True) (sample_commitment [1] [2]) [] [] 5 4 inner = Done (Some tr)"
    and "tr_params tr = sample_schedule"
    and "run_steps (\<lambda>tr (dg, a). TeslaReceiver_process_arrival sample_crypto sample_hkdf sample_hmac sample_gmac tr dg a) tr
       [arriving sample_hmac sample_gmac (replicate 20 7) sample_schedule HmacSha256 sample_arrival] = Done (tr', outs)"
    and "tr_drawers tr' = [(2, [e])]" and "de_arrival_ns e = 160" and "outs = [(sample_packet 3 0, Inr 0)]"
    and "\<exists>b k mac. split_extension (fst (arriving sample_hmac sample_gmac (replicate 20 7) sample_schedule HmacSha256
        sample_arrival)) = (b, Some (2, k, mac))"
proof -
  obtain inner where r: "sample_receiver = Done inner" using sample_receiver_exists by blast
  obtain tr where tr: "TeslaReceiver_accept (\<lambda>_ _ _. True) (sample_commitment [1] [2]) [] [] 5 4 inner = Done (Some tr)"
    and s: "tr_params tr = sample_schedule" using sample_accept by blast
  note S = accept_state [OF tr]
  let ?buf = "seal_packet sample_crypto (gen_key sample_hkdf sample_seed 3) (gen_salt sample_hkdf sample_seed 3) 3 (sample_packet 3 0)"
  define k where "k = chain_at sample_hmac (replicate 20 7) 9 0"
  define mac where "mac = packet_mac sample_hmac sample_gmac (replicate 20 7) sample_schedule HmacSha256 2 3 ?buf"
  obtain inn where u: "ReceiverKeyManager_unprotect sample_crypto sample_hkdf (tr_inner tr) ?buf =
      Done (inn, sample_packet 3 0, Inr 3)" using sample_receiver_accepts [OF r] S(7) by auto
  have len: "12 \<le> length ?buf"
    using seal_packet_header(2) [OF sample_packet_facts(1)] by (simp add: plain_header_def)
  then have ne: "?buf \<noteq> []" by auto
  have si: "sent_interval sample_schedule 150 = 2" by (simp add: sent_interval_def sample_schedule_def)
  have dg: "arriving sample_hmac sample_gmac (replicate 20 7) sample_schedule HmacSha256 sample_arrival =
      (datagram sample_hmac sample_gmac (replicate 20 7) sample_schedule HmacSha256 2 3 ?buf, 160)"
    by (simp add: arriving_def sample_arrival_def si)
  have d0: "TeslaSchedule_disclosed_index sample_schedule 2 = 0" "ts_n_chain sample_schedule = 9"
    by (simp_all add: TeslaSchedule_disclosed_index_def sample_schedule_def)
  have sp: "split_extension (datagram sample_hmac sample_gmac (replicate 20 7) sample_schedule HmacSha256 2 3 ?buf) =
      (?buf, Some (2, k, mac))"
    unfolding k_def mac_def
    using split_datagram [OF sample_mac_sound, of "replicate 20 7" 2 ?buf sample_schedule HmacSha256 3] ne d0
    by (simp add: TESLA_KEY_LEN_def)
  have safe: "TeslaSchedule_accepts (tr_params tr) 160 2 = Safe"
    unfolding s by (simp add: TeslaSchedule_accepts_def upper_bound_eq sample_schedule_def)
  have chk: "snd (ChainVerifier_check sample_hmac (tr_verifier tr) k (TeslaSchedule_disclosed_index (tr_params tr) 2)) = DNotNew"
    by (simp add: s d0 S(5) ChainVerifier_new_def check_cases)
  let ?e = "drawer_entry tr ?buf mac 160" and ?a = "after_inner sample_hmac tr inn ?buf 2 k"
  have "TeslaReceiver_settle sample_hmac sample_gmac ?a (newly_trusted DNotNew) 160 = Done (?a, 0)"
    by (simp add: newly_trusted_def)
  from process_deliver [OF sp len safe u chk _ this]
  have run: "run_steps (\<lambda>tr (dg, a). TeslaReceiver_process_arrival sample_crypto sample_hkdf sample_hmac sample_gmac tr dg a) tr
       [arriving sample_hmac sample_gmac (replicate 20 7) sample_schedule HmacSha256 sample_arrival] =
     Done (enqueue_packet 2 ?e ?a, [(sample_packet 3 0, Inr 0)])"
    by (simp add: dg)
  have "tr_drawers (enqueue_packet 2 ?e ?a) = [(2, [?e])]"
    by (simp add: enqueue_packet_def Let_def push_drawer_def S(9))
  moreover have "de_arrival_ns ?e = 160" by (simp add: drawer_entry_def)
  ultimately show thesis by (rule that [OF r tr s run]) (auto simp: dg sp)
qed

theorem tesla_waiting_undisclosed_witness:
  "\<exists>inner tr tr' outs e. sample_receiver = Done inner \<and>
     run_steps (\<lambda>tr (dg, a). TeslaReceiver_process_arrival sample_crypto sample_hkdf sample_hmac sample_gmac tr dg a) tr
       [arriving sample_hmac sample_gmac (replicate 20 7) sample_schedule HmacSha256 sample_arrival] = Done (tr', outs) \<and>
     tr_drawers tr' = [(2, [e])] \<and> TeslaSchedule_disclosed_index sample_schedule 2 < 2"
proof (rule sample_run)
  fix inner tr tr' outs e
  assume R: "sample_receiver = Done inner"
    "TeslaReceiver_accept (\<lambda>_ _ _. True) (sample_commitment [1] [2]) [] [] 5 4 inner = Done (Some tr)"
    "tr_params tr = sample_schedule"
    "run_steps (\<lambda>tr (dg, a). TeslaReceiver_process_arrival sample_crypto sample_hkdf sample_hmac sample_gmac tr dg a) tr
       [arriving sample_hmac sample_gmac (replicate 20 7) sample_schedule HmacSha256 sample_arrival] = Done (tr', outs)"
    "tr_drawers tr' = [(2, [e])]" "de_arrival_ns e = 160"
  have i: "TeslaSchedule_interval_of (tr_params tr) 165 = Done 2"
    unfolding R(3) by (simp add: interval_of_iff sample_schedule_def)
  have "TeslaSchedule_disclosed_index (tr_params tr) 2 < 2"
    by (rule tesla_waiting_undisclosed [OF R(2,4) _ _ _ _ _ i, of 2 "[e]" e]) (simp_all add: R(5,6))
  then show ?thesis using R(1,4,5) unfolding R(3) by blast
qed

section \<open>Books and verdicts\<close>

lemma accept_inv:
  assumes "TeslaReceiver_accept vs c sg pk d_t g inner = Done (Some tr)"
  shows "tesla_inv 0 tr"
  using accept_state(9-11) [OF assms] by (simp add: tesla_inv_def waiting_def TeslaStats_default_def)

lemma tesla_run_inv:
  "run_steps (\<lambda>tr (dg, a). TeslaReceiver_process_arrival C H M A tr dg a) tr dgs = Done (tr', outs) \<Longrightarrow>
     tesla_inv now tr \<Longrightarrow> sorted (now # map snd dgs) \<Longrightarrow>
     tesla_inv (last (now # map snd dgs)) tr' \<and>
     tesla_handled (tr_stats tr') = tesla_handled (tr_stats tr) + length dgs"
proof (induction dgs arbitrary: tr now outs)
  case Nil
  then show ?case by simp
next
  case (Cons x dgs)
  obtain dg a where x: "x = (dg, a)" by (cases x)
  from Cons.prems(1) obtain tr1 o1 r1 os where
    p: "TeslaReceiver_process_arrival C H M A tr dg a = Done (tr1, o1, r1)"
    and r: "run_steps (\<lambda>tr (dg, a). TeslaReceiver_process_arrival C H M A tr dg a) tr1 dgs = Done (tr', os)"
    by (auto simp: x outcome_simps)
  have inv: "tesla_inv a tr1" by (rule process_inv [OF Cons.prems(2) _ p]) (use Cons.prems(3) in \<open>simp add: x\<close>)
  show ?case using Cons.IH [OF r inv] Cons.prems(3) process_handled [OF p] by (simp add: x)
qed

text \<open>
  C31. Books balance: after any run with arrival times in order, every datagram was delivered or
  counted under one drop reason, and every delivered packet is verified, called forged, or still in
  exactly one drawer.
\<close>

theorem tesla_accounting:
  assumes "TeslaReceiver_accept vs c sg pk d_t g inner = Done (Some tr)"
    and "run_steps (\<lambda>tr (dg, a). TeslaReceiver_process_arrival C H M A tr dg a) tr dgs = Done (tr', outs)"
    and "sorted (map snd dgs)"
  shows "delivered (tr_stats tr') + drops_malformed (tr_stats tr') + drops_unsafe (tr_stats tr') +
      drops_bad_disclosure (tr_stats tr') + drops_srtp (tr_stats tr') = length dgs \<and>
    delivered (tr_stats tr') = verified (tr_stats tr') + forged (tr_stats tr') + TeslaReceiver_unsettled tr' \<and>
    TeslaReceiver_unsettled tr' = sum_list (map (length \<circ> snd) (tr_drawers tr'))"
  using tesla_run_inv [OF assms(2) accept_inv [OF assms(1)]] assms(3) accept_state(11) [OF assms(1)]
  by (simp add: tesla_inv_def tesla_handled_def TeslaReceiver_unsettled_def waiting_def TeslaStats_default_def)

theorem tesla_accounting_witness:
  "\<exists>inner tr tr' outs. sample_receiver = Done inner \<and>
     run_steps (\<lambda>tr (dg, a). TeslaReceiver_process_arrival sample_crypto sample_hkdf sample_hmac sample_gmac tr dg a) tr
       [arriving sample_hmac sample_gmac (replicate 20 7) sample_schedule HmacSha256 sample_arrival] = Done (tr', outs) \<and>
     TeslaReceiver_unsettled tr' = sum_list (map (length \<circ> snd) (tr_drawers tr'))"
proof (rule sample_run)
  fix inner tr tr' outs
  assume R: "sample_receiver = Done inner"
    "TeslaReceiver_accept (\<lambda>_ _ _. True) (sample_commitment [1] [2]) [] [] 5 4 inner = Done (Some tr)"
    "run_steps (\<lambda>tr (dg, a). TeslaReceiver_process_arrival sample_crypto sample_hkdf sample_hmac sample_gmac tr dg a) tr
       [arriving sample_hmac sample_gmac (replicate 20 7) sample_schedule HmacSha256 sample_arrival] = Done (tr', outs)"
  show ?thesis using R(1,3) tesla_accounting [OF R(2,3)] by auto
qed

text \<open>
  C32. The TESLA layer adds no panic: at any point of a run with arrival times in order, if processing
  a datagram panics then the SRTP layer below panicked on the packet in front of the extension; the
  subtractions of latencies and of the pending counter never underflow.
\<close>

theorem tesla_panics_only_below:
  assumes "TeslaReceiver_accept vs c sg pk d_t g inner = Done (Some tr)"
    and "run_steps (\<lambda>tr (dg, a). TeslaReceiver_process_arrival C H M A tr dg a) tr dgs = Done (tr', outs)"
    and "sorted (map snd dgs @ [a])"
    and "TeslaReceiver_process_arrival C H M A tr' dg a = Panic e"
  shows "ReceiverKeyManager_unprotect C H (tr_inner tr') (fst (split_extension dg)) = Panic e"
proof (rule process_panic [OF _ _ assms(4)])
  have "sorted (0 # map snd dgs)" using assms(3) by (simp add: sorted_append)
  then show "tesla_inv (last (0 # map snd dgs)) tr'"
    using tesla_run_inv [OF assms(2) accept_inv [OF assms(1)]] by blast
  show "last (0 # map snd dgs) \<le> a" using assms(3) by (auto simp: sorted_append last_map)
qed

lemma sample_panic:
  assumes "sample_receiver = Done inner" and "tr_inner tr = inner" and "tr_params tr = sample_schedule"
  shows "TeslaReceiver_process_arrival sample_crypto sample_hkdf sample_hmac sample_gmac tr
    (append_extension (sample_packet 3 0) 2 (replicate 20 0) (replicate 10 0)) 160 = Panic ExplicitPanic"
proof -
  have "ReceiverKeyManager_unprotect sample_crypto sample_hkdf inner (sample_packet 3 0) = Panic ExplicitPanic"
  proof (rule sample_receiver_state)
    fix rk
    assume S: "sample_receiver = Done rk" "recv_inv sample_hkdf sample_seed rk" "rk_ssrc rk = 9"
      "\<And>q ts. map_generation rk q ts = Done (Inr (unat q, Some (unat q)))"
      "\<And>g. reachable_gen rk g \<longleftrightarrow> g < 10" "\<And>j. \<not> rdbx_blocked (session_rdbx (rk_session rk)) j"
    have "inner = rk" using S(1) assms(1) by (metis outcome.inject(2))
    then show ?thesis
      using unprotect_malformed [OF S(2) sample_packet_facts(1) [of 3 0] _ S(4)] S(3,5,6)
      by (auto simp: sample_packet_facts)
  qed
  moreover have "split_extension (append_extension (sample_packet 3 0) 2 (replicate 20 0) (replicate 10 0)) =
      (sample_packet 3 0, Some (2, replicate 20 0, replicate 10 0))"
    using sample_packet_facts(5) [of 3 0] by (intro split_append_extension) (auto simp: tesla_len_defs)
  moreover have "TeslaSchedule_accepts sample_schedule 160 2 = Safe"
    by (simp add: TeslaSchedule_accepts_def upper_bound_eq sample_schedule_def)
  ultimately show ?thesis
    using assms(2,3) by (simp add: TeslaReceiver_process_arrival_def sample_packet_facts RTP_HEADER_LEN_def Let_def)
qed

theorem tesla_panics_only_below_witness:
  "\<exists>inner. sample_receiver = Done inner \<and>
     ReceiverKeyManager_unprotect sample_crypto sample_hkdf inner (sample_packet 3 0) = Panic ExplicitPanic"
proof -
  obtain inner where r: "sample_receiver = Done inner" using sample_receiver_exists by blast
  obtain tr where tr: "TeslaReceiver_accept (\<lambda>_ _ _. True) (sample_commitment [1] [2]) [] [] 5 4 inner = Done (Some tr)"
    and s: "tr_params tr = sample_schedule" using sample_accept by blast
  have i: "tr_inner tr = inner" by (rule accept_state(7) [OF tr])
  have sp: "split_extension (append_extension (sample_packet 3 0) 2 (replicate 20 0) (replicate 10 0)) =
      (sample_packet 3 0, Some (2, replicate 20 0, replicate 10 0))"
    using sample_packet_facts(5) [of 3 0] by (intro split_append_extension) (auto simp: tesla_len_defs)
  have "ReceiverKeyManager_unprotect sample_crypto sample_hkdf inner (sample_packet 3 0) = Panic ExplicitPanic"
    using tesla_panics_only_below [OF tr run_steps.simps(1) _ sample_panic [OF r i s]] by (simp add: sp i)
  then show ?thesis using r by blast
qed

definition drawer :: "TeslaReceiver \<Rightarrow> nat \<Rightarrow> DrawerEntry list" where
  "drawer tr i = (case map_of (tr_drawers tr) i of None \<Rightarrow> [] | Some es \<Rightarrow> es)"

lemma settle_verdicts:
  "tesla_inv now tr \<Longrightarrow> distinct (map fst keys) \<Longrightarrow>
     TeslaReceiver_settle M A tr keys now = Done (tr', n) \<Longrightarrow>
     verified (tr_stats tr') = verified (tr_stats tr) +
       (\<Sum>(i, k)\<leftarrow>keys. length (matching M A (interval_mac M (tr_alg tr) k) (drawer tr i))) \<and>
     n = (\<Sum>(i, k)\<leftarrow>keys. length (drawer tr i))"
proof (induction keys arbitrary: tr n)
  case Nil
  then show ?case by simp
next
  case (Cons ik keys)
  obtain i k where ik: "ik = (i, k)" by (cases ik)
  show ?case
  proof (cases "map_of (tr_drawers tr) i")
    case None
    then show ?thesis using Cons by (simp add: ik drawer_def matching_def)
  next
    case (Some es)
    let ?c = "close_drawer M A now i k es tr"
    from Cons.prems(3) obtain m where m: "TeslaReceiver_settle M A ?c keys now = Done (tr', m)" "n = length es + m"
      unfolding ik settle_step [OF Cons.prems(1) Some] by (auto simp: outcome_simps)
    have alg: "tr_alg ?c = tr_alg tr" by (simp add: close_drawer_def)
    have d: "drawer ?c j = drawer tr j" if "(j, k') \<in> set keys" for j k'
      using that Cons.prems(2) by (force simp: drawer_def close_drawer_def delete_conv' ik)
    have "(\<Sum>(j, k)\<leftarrow>keys. length (matching M A (interval_mac M (tr_alg ?c) k) (drawer ?c j))) =
        (\<Sum>(j, k)\<leftarrow>keys. length (matching M A (interval_mac M (tr_alg tr) k) (drawer tr j)))"
      by (rule arg_cong [where f = sum_list], rule map_cong)
        (auto simp: d alg split: prod.splits)
    moreover have "(\<Sum>(j, k)\<leftarrow>keys. length (drawer ?c j)) = (\<Sum>(j, k)\<leftarrow>keys. length (drawer tr j))"
      by (rule arg_cong [where f = sum_list], rule map_cong) (auto simp: d split: prod.splits)
    ultimately show ?thesis
      using Cons.IH [OF close_drawer_inv [OF Cons.prems(1) Some] _ m(1)] Cons.prems(2) Some m(2)
      by (simp add: ik drawer_def [of tr i] close_drawer_def count_verdicts_def)
  qed
qed

lemma newly_trusted_distinct: "distinct (map fst (newly_trusted (snd (ChainVerifier_check M v k j))))"
proof (cases "ChainVerifier_check M v k j")
  case (Pair v' d)
  then show ?thesis using check_new_facts [of M v k j v'] by (cases d) (simp_all add: newly_trusted_def del: upt_Suc)
qed

text \<open>
  C30. Verdicts: when a delivered datagram discloses new chain keys, every packet waiting for one of
  those intervals gets a verdict at once, and it is counted as verified exactly when its tag is the
  one computed with that interval's key over the bytes received and the stream index they had.
\<close>

theorem tesla_verdicts:
  assumes "TeslaReceiver_accept vs c sg pk d_t g inner = Done (Some tr0)"
    and "run_steps (\<lambda>tr (dg, a). TeslaReceiver_process_arrival C H M A tr dg a) tr0 dgs = Done (tr, outs)"
    and "sorted (map snd dgs @ [a])" and "split_extension dg = (b, Some (i, k, mac))"
    and "TeslaReceiver_process_arrival C H M A tr dg a = Done (tr', out, Inr n)"
  shows "let keys = newly_trusted (snd (ChainVerifier_check M (tr_verifier tr) k
        (TeslaSchedule_disclosed_index (tr_params tr) i))) in
    verified (tr_stats tr') = verified (tr_stats tr) + (\<Sum>(j, kj)\<leftarrow>keys. length (filter
      (\<lambda>e. PreparedMac_tag M A (interval_mac M (tr_alg tr) kj) (de_ext_index e) (de_covered e) = de_mac e) (drawer tr j))) \<and>
    n = (\<Sum>(j, kj)\<leftarrow>keys. length (drawer tr j))"
proof (cases rule: process_split [OF assms(5)])
  case (4 inn b' i' k' mac' gen d tr3 m)
  have "sorted (0 # map snd dgs)" using assms(3) by (simp add: sorted_append)
  then have "tesla_inv (last (0 # map snd dgs)) tr"
    using tesla_run_inv [OF assms(2) accept_inv [OF assms(1)]] by blast
  moreover have "last (0 # map snd dgs) \<le> a" using assms(3) by (auto simp: sorted_append last_map)
  ultimately have inv: "tesla_inv a (after_inner M tr inn b' i' k')"
    by (intro after_inner_inv) (rule tesla_inv_later)
  have e: "b' = b" "i' = i" "k' = k" using 4(1) assms(4) by simp_all
  have dr: "drawer (after_inner M tr inn b i k) j = drawer tr j" for j by (simp add: drawer_def)
  have "distinct (map fst (newly_trusted d))" using newly_trusted_distinct 4(4) by metis
  from settle_verdicts [OF inv this 4(6)] 4(4,7,8)
  show ?thesis by (simp add: e dr Let_def matching_def enqueue_packet_def)
qed simp_all

theorem tesla_verdicts_witness:
  "\<exists>inner tr tr' k. sample_receiver = Done inner \<and>
     run_steps (\<lambda>tr (dg, a). TeslaReceiver_process_arrival sample_crypto sample_hkdf sample_hmac sample_gmac tr dg a) tr
       [arriving sample_hmac sample_gmac (replicate 20 7) sample_schedule HmacSha256 sample_arrival] =
       Done (tr', [(sample_packet 3 0, Inr 0)]) \<and>
     0 = (\<Sum>(j, kj)\<leftarrow>newly_trusted (snd (ChainVerifier_check sample_hmac (tr_verifier tr) k
        (TeslaSchedule_disclosed_index (tr_params tr) 2))). length (drawer tr j))"
proof (rule sample_run)
  fix inner tr tr' outs
  let ?x = "arriving sample_hmac sample_gmac (replicate 20 7) sample_schedule HmacSha256 sample_arrival"
  assume R: "sample_receiver = Done inner"
    "TeslaReceiver_accept (\<lambda>_ _ _. True) (sample_commitment [1] [2]) [] [] 5 4 inner = Done (Some tr)"
    "run_steps (\<lambda>tr (dg, a). TeslaReceiver_process_arrival sample_crypto sample_hkdf sample_hmac sample_gmac tr dg a) tr
       [?x] = Done (tr', outs)"
    "outs = [(sample_packet 3 0, Inr 0)]" "\<exists>b k mac. split_extension (fst ?x) = (b, Some (2, k, mac))"
  obtain b k mac where sp: "split_extension (fst ?x) = (b, Some (2, k, mac))" using R(5) by blast
  have p: "TeslaReceiver_process_arrival sample_crypto sample_hkdf sample_hmac sample_gmac tr (fst ?x) (snd ?x) =
      Done (tr', sample_packet 3 0, Inr 0)"
    using R(3,4) by (auto simp: case_prod_beta outcome_simps)
  show ?thesis
    using R(1,3,4) tesla_verdicts [OF R(2) run_steps.simps(1) _ sp p] by (auto simp: Let_def)
qed

end
