(* ===== verification/Stream_Model.thy ===== *)
theory Stream_Model
  imports Delivery
begin

text \<open>
  The modelled media stream and its sender: \<^verbatim>\<open>src/simulation/sender.rs\<close>. Packet numbers and times
  are \<open>u64\<close> in the code and \<open>nat\<close> here, with the wrap-around of products and sums written out.

  Shown here: every packet of the stream is a plain RTP packet carrying its number, send times
  never decrease, and the packets of the stream meet the conditions under which theory
  \<open>Delivery\<close> proves delivery, so that what the simulated sender produces is known datagram by
  datagram.
\<close>

section \<open>Definitions\<close>

definition GCM_TAG_LEN :: nat where
  "GCM_TAG_LEN = 16"

definition FRAME_BYTES :: nat where
  "FRAME_BYTES = 1920 * 1080 * 5 div 2"

definition FRAME_PERIOD :: u32 where
  "FRAME_PERIOD = 1500"

definition FPS :: nat where
  "FPS = 60"

definition START_TS :: u32 where
  "START_TS = 0"

record StreamModel =
  sm_payload_size :: nat
  sm_ppf :: nat
  sm_ssrc :: u32

definition StreamModel_new :: "nat \<Rightarrow> u32 \<Rightarrow> StreamModel outcome" where
  "StreamModel_new payload_size ssrc =
     obind (guard_panic (payload_size \<ge> 8) AssertFailed) (\<lambda>_.
     Done \<lparr> sm_payload_size = payload_size, sm_ppf = max (FRAME_BYTES div payload_size) 1, sm_ssrc = ssrc \<rparr>)"

definition StreamModel_timestamp :: "StreamModel \<Rightarrow> nat \<Rightarrow> u32" where
  "StreamModel_timestamp m i = START_TS + of_nat (i div sm_ppf m) * FRAME_PERIOD"

definition StreamModel_send_ns :: "StreamModel \<Rightarrow> nat \<Rightarrow> nat" where
  "StreamModel_send_ns m i =
     (let f = i div sm_ppf m;
          p = i mod sm_ppf m;
          frame_start = wrap64 (f * 1000000000) div FPS;
          offset = wrap64 (p * 1000000000) div wrap64 (FPS * sm_ppf m)
      in wrap64 (frame_start + offset))"

definition StreamModel_payload :: "StreamModel \<Rightarrow> nat \<Rightarrow> bytes" where
  "StreamModel_payload m i = (let payload = replicate (sm_payload_size m) 0 in le_bytes 8 i @ drop 8 payload)"

definition StreamModel_plain_packet :: "StreamModel \<Rightarrow> nat \<Rightarrow> bytes" where
  "StreamModel_plain_packet m i =
     [0x80, 96] @ u16_to_be (of_nat i) @ u32_to_be (StreamModel_timestamp m i) @ u32_to_be (sm_ssrc m)
       @ StreamModel_payload m i"

record SimulatedSender =
  si_model :: StreamModel
  si_crypto :: RekeyingStream
  si_next_i :: nat

definition SimulatedSender_new ::
  "srtp_crypto \<Rightarrow> hkdf \<Rightarrow> StreamModel \<Rightarrow> Granularity \<Rightarrow> StreamRatchet \<Rightarrow> SimulatedSender outcome" where
  "SimulatedSender_new C H model granularity ratchet =
     obind (RekeyingStream_new C H granularity (sm_ssrc model) ratchet) (\<lambda>crypto.
     Done \<lparr> si_model = model, si_crypto = crypto, si_next_i = 0 \<rparr>)"

definition SimulatedSender_next_protected ::
  "srtp_crypto \<Rightarrow> hkdf \<Rightarrow> SimulatedSender \<Rightarrow> (SimulatedSender \<times> nat \<times> bytes) outcome" where
  "SimulatedSender_next_protected C H s =
     (let i = si_next_i s; buf = StreamModel_plain_packet (si_model s) i in
      obind (RekeyingStream_protect C H (si_crypto s) buf) (\<lambda>(crypto, buf', res).
      obind (expect_ok res) (\<lambda>_.
      Done (s\<lparr>si_crypto := crypto, si_next_i := i + 1\<rparr>, i, buf'))))"

section \<open>The packets\<close>

lemma plain_packet_header:
  "StreamModel_plain_packet m i =
     rtp_header 0x80 96 (of_nat i) (StreamModel_timestamp m i) (sm_ssrc m) @ StreamModel_payload m i"
  by (simp add: StreamModel_plain_packet_def rtp_header_def)

lemma plain_packet_fields:
  "header_seq (StreamModel_plain_packet m i) = of_nat i"
  "header_timestamp (StreamModel_plain_packet m i) = StreamModel_timestamp m i"
  "header_ssrc (StreamModel_plain_packet m i) = sm_ssrc m"
  "length (StreamModel_plain_packet m i) = 12 + (8 + (sm_payload_size m - 8))"
  by (simp_all add: plain_packet_header rtp_header_fields) (simp add: StreamModel_payload_def Let_def)

lemma plain_packet_plain: "plain_header (StreamModel_plain_packet m i)"
  unfolding plain_packet_header plain_header_def rtp_header_fields by simp

lemma plain_packet_inj:
  assumes "i < 2 ^ 64" and "j < 2 ^ 64" and "StreamModel_plain_packet m i = StreamModel_plain_packet m j"
  shows "i = j"
proof -
  have "StreamModel_payload m i = StreamModel_payload m j"
    using assms(3) unfolding plain_packet_header by (simp add: append_eq_append_conv)
  then have "be_bytes 8 i = be_bytes 8 j"
    by (simp add: StreamModel_payload_def Let_def append_eq_append_conv le_bytes_def)
  then show ?thesis using assms by (intro be_bytes_inj [of 8]) simp_all
qed

section \<open>The stream as input of the rekeying sender\<close>

definition stream_packets :: "StreamModel \<Rightarrow> nat \<Rightarrow> bytes list" where
  "stream_packets m n = map (StreamModel_plain_packet m) [0..<n]"

lemma stream_packets_nth: "i < n \<Longrightarrow> stream_packets m n ! i = StreamModel_plain_packet m i"
  by (simp add: stream_packets_def)

lemma length_stream_packets [simp]: "length (stream_packets m n) = n"
  by (simp add: stream_packets_def)

lemma stream_media_ok:
  assumes "n \<le> 2 ^ 48" and "sm_payload_size m + 36 < 2 ^ 31"
  shows "media_ok (sm_ssrc m) 0 (stream_packets m n)"
  using assms by (simp add: media_ok_def stream_packets_nth plain_packet_plain plain_packet_fields less_imp_diff_less)

lemma frame_steps_div:
  assumes "0 < ppf"
  shows "frame_steps (a div ppf) (map (\<lambda>i. i div ppf) [Suc a..<n])"
proof (induction "n - a" arbitrary: a)
  case 0
  then show ?case by simp
next
  case (Suc l)
  show ?case
  proof (cases "Suc a < n")
    case True
    have "Suc a div ppf = a div ppf \<or> Suc a div ppf = Suc (a div ppf)" by (simp add: div_Suc)
    moreover have "frame_steps (Suc a div ppf) (map (\<lambda>i. i div ppf) [Suc (Suc a)..<n])"
      using Suc.hyps(1) [of "Suc a"] Suc.hyps(2) by simp
    ultimately show ?thesis using True by (subst upt_conv_Cons) auto
  qed simp
qed

lemma frame_sequence_div:
  assumes "0 < ppf"
  shows "frame_sequence (map (\<lambda>i. i div ppf) [0..<n])"
proof (cases n)
  case 0
  then show ?thesis by (simp add: frame_sequence_def)
next
  case (Suc m)
  then have "[0..<n] = 0 # [Suc 0..<n]" by (subst upt_conv_Cons) simp_all
  then show ?thesis using frame_steps_div [OF assms, of 0 n] by (simp add: frame_sequence_def)
qed

lemma timestamp_frame: "StreamModel_timestamp m i = frame_ts START_TS FRAME_PERIOD (i div sm_ppf m)"
  by (simp add: StreamModel_timestamp_def frame_ts_def FRAME_PERIOD_def)

lemma stream_timestamps_ok:
  assumes "0 < sm_ppf m" and "(n - 1) div sm_ppf m * 1500 < 2 ^ 32"
  shows "timestamps_ok gr START_TS FRAME_PERIOD (stream_packets m n)"
  unfolding timestamps_ok_def
proof (intro impI conjI exI [of _ "map (\<lambda>i. i div sm_ppf m) [0..<n]"])
  show "FRAME_PERIOD \<noteq> 0" by (simp add: FRAME_PERIOD_def)
  show "frame_sequence (map (\<lambda>i. i div sm_ppf m) [0..<n])" by (rule frame_sequence_div [OF assms(1)])
  show "map header_timestamp (stream_packets m n) =
      map (frame_ts START_TS FRAME_PERIOD) (map (\<lambda>i. i div sm_ppf m) [0..<n])"
    by (simp add: stream_packets_def plain_packet_fields timestamp_frame)
  have "i div sm_ppf m * 1500 < 2 ^ 32" if "i < n" for i
  proof -
    have "i div sm_ppf m \<le> (n - 1) div sm_ppf m" using that by (intro div_le_mono) simp
    then show ?thesis using assms(2) by (meson le_less_trans mult_le_mono1)
  qed
  then show "\<forall>f\<in>set (map (\<lambda>i. i div sm_ppf m) [0..<n]). f * unat FRAME_PERIOD < 2 ^ 32"
    by (simp add: FRAME_PERIOD_def)
qed

section \<open>What the simulated sender produces\<close>

lemma next_protected_run:
  "run_steps (RekeyingStream_protect C H) cr (map (StreamModel_plain_packet m) [a..<a + n]) =
     Done (cr', map (\<lambda>b. (b, Inr ())) outs) \<Longrightarrow>
   run_steps (\<lambda>s (_ :: unit). SimulatedSender_next_protected C H s)
     \<lparr> si_model = m, si_crypto = cr, si_next_i = a \<rparr> (replicate n ()) =
     Done (\<lparr> si_model = m, si_crypto = cr', si_next_i = a + n \<rparr>, zip [a..<a + n] outs)"
proof (induction n arbitrary: a cr outs)
  case 0
  then show ?case by simp
next
  case (Suc n)
  have l: "[a..<a + Suc n] = a # [Suc a..<Suc a + n]" by (subst upt_conv_Cons) simp_all
  from Suc.prems obtain cr1 o1 os where
    p: "RekeyingStream_protect C H cr (StreamModel_plain_packet m a) = Done (cr1, o1, Inr ())"
    and r: "run_steps (RekeyingStream_protect C H) cr1 (map (StreamModel_plain_packet m) [Suc a..<Suc a + n]) =
      Done (cr', map (\<lambda>b. (b, Inr ())) os)" and o: "outs = o1 # os"
    unfolding l by (cases outs) (auto simp: outcome_simps simp del: upt_Suc)
  have "SimulatedSender_next_protected C H \<lparr> si_model = m, si_crypto = cr, si_next_i = a \<rparr> =
      Done (\<lparr> si_model = m, si_crypto = cr1, si_next_i = Suc a \<rparr>, a, o1)"
    by (simp add: SimulatedSender_next_protected_def p)
  then show ?case using Suc.IH [OF r] unfolding l o by (simp del: upt_Suc)
qed

lemma simulated_sender_run:
  assumes ok: "ratchet_ok H seed" and u: "usable gr" and n: "n \<le> 2 ^ 48" "sm_payload_size m + 36 < 2 ^ 31"
  shows "\<exists>s. obind (SimulatedSender_new C H m gr (ratchet_at H seed 0))
      (\<lambda>s0. run_steps (\<lambda>s (_ :: unit). SimulatedSender_next_protected C H s) s0 (replicate n ())) =
    Done (s, map (\<lambda>i. (i, sent_packet C H seed gr 0 (stream_packets m n) i)) [0..<n])"
proof -
  let ?outs = "map (sent_packet C H seed gr 0 (stream_packets m n)) [0..<n]"
  obtain cr where "run_steps (RekeyingStream_protect C H)
      (rekeying_state H seed gr (sm_ssrc m) [] dir_unknown (srtp_rdbx_init 128)) (stream_packets m n) =
    Done (cr, map (\<lambda>b. (b, Inr ())) ?outs)"
    using protect_run [OF ok u stream_media_ok [OF n], of C] by (auto simp: comp_def)
  then have "run_steps (\<lambda>s (_ :: unit). SimulatedSender_next_protected C H s)
      \<lparr> si_model = m, si_crypto = rekeying_state H seed gr (sm_ssrc m) [] dir_unknown (srtp_rdbx_init 128), si_next_i = 0 \<rparr>
      (replicate n ()) = Done (\<lparr> si_model = m, si_crypto = cr, si_next_i = n \<rparr>, zip [0..<n] ?outs)"
    using next_protected_run [of C H _ m 0 n cr ?outs] by (simp add: stream_packets_def)
  then show ?thesis by (auto simp: SimulatedSender_new_def new_state [OF ok] zip_map2 zip_same_conv_map)
qed

section \<open>Properties\<close>

lemma div_add_div_le: "a div k + b div k \<le> (a + b) div (k :: nat)"
proof (cases "k = 0")
  case False
  have "(a div k + b div k) * k \<le> a + b" by (simp add: add_mult_distrib add_mono)
  then show ?thesis using False by (simp add: less_eq_div_iff_mult_less_eq)
qed simp

lemma send_ns_eq:
  assumes "(i div sm_ppf m + 1) * 1000000000 < 2 ^ 64" and "sm_ppf m * 1000000000 < 2 ^ 64" and "0 < sm_ppf m"
  shows "StreamModel_send_ns m i =
      i div sm_ppf m * 1000000000 div 60 + i mod sm_ppf m * 1000000000 div (60 * sm_ppf m)"
    and "StreamModel_send_ns m i \<le> (i div sm_ppf m + 1) * 1000000000 div 60"
proof -
  define f p T where "f = i div sm_ppf m" and "p = i mod sm_ppf m" and "T = (1000000000 :: nat)"
  have p: "p < sm_ppf m" using assms(3) by (simp add: p_def)
  then have "p * T \<le> sm_ppf m * T" by simp
  then have "p * T < 2 ^ 64" using assms(2) by (simp add: T_def)
  moreover have fT: "f * T < 2 ^ 64" using assms(1) by (simp add: f_def T_def)
  moreover have "60 * sm_ppf m < 2 ^ 64" using assms(2) by simp
  ultimately have w: "wrap64 (p * T) = p * T" "wrap64 (f * T) = f * T" "wrap64 (60 * sm_ppf m) = 60 * sm_ppf m"
    by simp_all
  have "p * T div (60 * sm_ppf m) \<le> sm_ppf m * T div (sm_ppf m * 60)"
    unfolding mult.commute [of 60] using p by (intro div_le_mono mult_le_mono1) simp
  also have "\<dots> = T div 60" using assms(3) by simp
  finally have "f * T div 60 + p * T div (60 * sm_ppf m) \<le> f * T div 60 + T div 60" by simp
  also have "\<dots> \<le> (f + 1) * T div 60" using div_add_div_le [of "f * T" 60 T] by simp
  finally have le: "f * T div 60 + p * T div (60 * sm_ppf m) \<le> (f + 1) * T div 60" .
  also have "\<dots> < 2 ^ 64" using assms(1) unfolding f_def [symmetric] T_def [symmetric]
    by (meson div_le_dividend le_less_trans)
  finally have "wrap64 (f * T div 60 + p * T div (60 * sm_ppf m)) = f * T div 60 + p * T div (60 * sm_ppf m)"
    by (rule wrap64_id)
  then show e: "StreamModel_send_ns m i =
      i div sm_ppf m * 1000000000 div 60 + i mod sm_ppf m * 1000000000 div (60 * sm_ppf m)"
    unfolding StreamModel_send_ns_def Let_def f_def [symmetric] p_def [symmetric] T_def [symmetric] FPS_def w by simp
  show "StreamModel_send_ns m i \<le> (i div sm_ppf m + 1) * 1000000000 div 60"
    unfolding e using le by (simp only: f_def p_def T_def)
qed

text \<open>
  Pacing: as long as times fit into 64 bits, send times never decrease along the stream, and all
  packets of frame \<open>f\<close> leave between the start of frame \<open>f\<close> and the start of frame \<open>f + 1\<close>.
\<close>

lemma send_times_paced:
  assumes "0 < sm_ppf m" and "sm_ppf m * 1000000000 < 2 ^ 64" and "(j div sm_ppf m + 1) * 1000000000 < 2 ^ 64"
    and "i \<le> j"
  shows "StreamModel_send_ns m i \<le> StreamModel_send_ns m j \<and>
    j div sm_ppf m * 1000000000 div FPS \<le> StreamModel_send_ns m j \<and>
    StreamModel_send_ns m j \<le> (j div sm_ppf m + 1) * 1000000000 div FPS"
proof -
  define T where "T = (1000000000 :: nat)"
  have f: "i div sm_ppf m \<le> j div sm_ppf m" by (rule div_le_mono [OF assms(4)])
  then have bi: "(i div sm_ppf m + 1) * 1000000000 < 2 ^ 64" using assms(3) by simp
  note I = send_ns_eq [OF bi assms(2,1)] and J = send_ns_eq [OF assms(3,2,1)]
  have "StreamModel_send_ns m i \<le> StreamModel_send_ns m j"
  proof (cases "i div sm_ppf m = j div sm_ppf m")
    case True
    then have "i mod sm_ppf m \<le> j mod sm_ppf m"
      using assms(4) by (metis add_le_cancel_left div_mult_mod_eq)
    then show ?thesis unfolding I(1) J(1) True by (intro add_left_mono div_le_mono mult_le_mono1)
  next
    case False
    then have "(i div sm_ppf m + 1) * 1000000000 div 60 \<le> j div sm_ppf m * 1000000000 div 60"
      using f by (intro div_le_mono mult_le_mono1) simp
    then show ?thesis using I(2) J(1) by linarith
  qed
  then show ?thesis using J by (simp add: FPS_def)
qed

text \<open>
  Packets identify themselves: two packets of a stream are equal as byte strings only if they
  have the same number, so comparing a decrypted packet with packet \<open>i\<close> is a complete check.
\<close>

lemma plain_packets_distinct:
  assumes "i < 2 ^ 64" and "j < 2 ^ 64"
  shows "StreamModel_plain_packet m i = StreamModel_plain_packet m j \<longleftrightarrow> i = j"
  using plain_packet_inj [OF assms] by blast

end
