(* ===== verification/Network.thy ===== *)
theory Network
  imports Delivery "HOL-Library.Log_Nat" "HOL-Library.Multiset"
begin

text \<open>
  The simulated network: \<^verbatim>\<open>src/simulation/network.rs\<close>. The random generator is a parameter \<open>R\<close>: how
  it is seeded, how it draws a \<^verbatim>\<open>f64\<close> from the unit interval and a number from a closed range. A
  probability is the rational number its \<^verbatim>\<open>f64\<close> denotes, on which comparison is exact. The
  percentile positions are computed as the hardware does: products are rounded to 53 significant
  bits, ties to even, and \<^verbatim>\<open>round\<close> goes to the nearest integer, ties away from zero.

  Shown here: packets and copies are conserved by the counters, the schedule is a selection of the
  packets ordered by arrival, the percentiles never index out of range, and the measured lateness
  and gaps are exactly what a receiver's window and seek cap have to cover.
\<close>

section \<open>Definitions\<close>

record 'g rng =
  rng_seed_from_u64 :: "nat \<Rightarrow> 'g"
  rng_f64 :: "'g \<Rightarrow> rat \<times> 'g"
  rng_range :: "'g \<Rightarrow> nat \<Rightarrow> nat \<times> 'g"

datatype LossModel = Loss_None | Loss_Independent rat | Loss_GilbertElliott rat rat

record PathConfig =
  pa_base_delay_ns :: nat
  pa_jitter_ns :: nat
  pa_loss :: LossModel

record NetworkConfig =
  nc_path_a :: PathConfig
  nc_path_b :: "PathConfig option"
  nc_seed :: nat

record DisplacementStats =
  ds_reordered :: nat
  ds_max_lateness :: nat
  ds_p50 :: nat
  ds_p99 :: nat
  ds_p99_9 :: nat
  ds_gaps :: nat
  ds_max_gap :: nat

definition DisplacementStats_default :: DisplacementStats where
  "DisplacementStats_default = \<lparr> ds_reordered = 0, ds_max_lateness = 0, ds_p50 = 0, ds_p99 = 0, ds_p99_9 = 0,
     ds_gaps = 0, ds_max_gap = 0 \<rparr>"

record NetworkStats =
  ns_sent :: nat
  ns_delivered :: nat
  ns_lost_a :: nat
  ns_lost_b :: nat
  ns_lost_packets :: nat
  ns_wins_a :: nat
  ns_wins_b :: nat
  ns_duplicates_dropped :: nat
  ns_displacement :: DisplacementStats

definition NetworkStats_default :: NetworkStats where
  "NetworkStats_default = \<lparr> ns_sent = 0, ns_delivered = 0, ns_lost_a = 0, ns_lost_b = 0, ns_lost_packets = 0,
     ns_wins_a = 0, ns_wins_b = 0, ns_duplicates_dropped = 0, ns_displacement = DisplacementStats_default \<rparr>"

record LossState =
  ls_model :: LossModel
  ls_in_bad :: bool

definition LossState_new :: "LossModel \<Rightarrow> LossState" where
  "LossState_new model = \<lparr> ls_model = model, ls_in_bad = False \<rparr>"

definition LossState_next_lost :: "'g rng \<Rightarrow> LossState \<Rightarrow> 'g \<Rightarrow> LossState \<times> bool \<times> 'g" where
  "LossState_next_lost R ls g =
     (case ls_model ls of
        Loss_None \<Rightarrow> (ls, False, g)
      | Loss_Independent p \<Rightarrow> (let (x, g') = rng_f64 R g in (ls, x < p, g'))
      | Loss_GilbertElliott p_good_to_bad p_bad_to_good \<Rightarrow>
          (let lost = ls_in_bad ls; (x, g') = rng_f64 R g in
           if ls_in_bad ls then (if x < p_bad_to_good then ls\<lparr>ls_in_bad := False\<rparr> else ls, lost, g')
           else (if x < p_good_to_bad then ls\<lparr>ls_in_bad := True\<rparr> else ls, lost, g')))"

definition copy_arrival :: "'g rng \<Rightarrow> PathConfig \<Rightarrow> nat \<Rightarrow> LossState \<Rightarrow> 'g \<Rightarrow> LossState \<times> nat option \<times> 'g" where
  "copy_arrival R path send_ns loss g =
     (let (loss', lost, g') = LossState_next_lost R loss g in
      if lost then (loss', None, g')
      else (let (jitter, g'') = rng_range R g' (pa_jitter_ns path) in
            (loss', Some (wrap64 (send_ns + pa_base_delay_ns path + jitter)), g'')))"

text \<open>The \<^verbatim>\<open>match\<close> on the two copies of packet \<open>i\<close>: what is counted and what joins the schedule.\<close>

definition merge_copies ::
  "bool \<Rightarrow> nat \<Rightarrow> nat option \<Rightarrow> nat option \<Rightarrow> (nat \<times> nat) list \<times> NetworkStats \<Rightarrow> (nat \<times> nat) list \<times> NetworkStats" where
  "merge_copies dual i a b acc =
     (case acc of (schedule, st) \<Rightarrow>
      let lose_b = (\<lambda>st. if dual then st\<lparr>ns_lost_b := ns_lost_b st + 1\<rparr> else st) in
      case (a, b) of
        (None, None) \<Rightarrow>
          (let st1 = lose_b (st\<lparr>ns_lost_a := ns_lost_a st + 1\<rparr>) in
           (schedule, st1\<lparr>ns_lost_packets := ns_lost_packets st1 + 1\<rparr>))
      | (Some t, None) \<Rightarrow>
          (let st1 = lose_b st in (schedule @ [(t, i)], st1\<lparr>ns_wins_a := ns_wins_a st1 + 1\<rparr>))
      | (None, Some t) \<Rightarrow>
          (schedule @ [(t, i)], st\<lparr>ns_lost_a := ns_lost_a st + 1, ns_wins_b := ns_wins_b st + 1\<rparr>)
      | (Some ta, Some tb) \<Rightarrow>
          (let st1 = (if ta \<le> tb then st\<lparr>ns_wins_a := ns_wins_a st + 1\<rparr> else st\<lparr>ns_wins_b := ns_wins_b st + 1\<rparr>) in
           (schedule @ [(min ta tb, i)], st1\<lparr>ns_duplicates_dropped := ns_duplicates_dropped st1 + 1\<rparr>)))"

definition disturb_step ::
  "'g rng \<Rightarrow> (nat \<Rightarrow> nat) \<Rightarrow> NetworkConfig \<Rightarrow> nat \<Rightarrow>
     LossState \<times> LossState option \<times> 'g \<times> (nat \<times> nat) list \<times> NetworkStats \<Rightarrow>
     LossState \<times> LossState option \<times> 'g \<times> (nat \<times> nat) list \<times> NetworkStats" where
  "disturb_step R send_ns cfg i acc =
     (case acc of (loss_a, loss_b, g, schedule, st) \<Rightarrow>
      let s = send_ns i;
          (loss_a', a, g') = copy_arrival R (nc_path_a cfg) s loss_a g;
          (loss_b', b, g'') =
            (case (nc_path_b cfg, loss_b) of
               (Some path, Some state) \<Rightarrow>
                 (let (state', t, g'') = copy_arrival R path s state g' in (Some state', t, g''))
             | _ \<Rightarrow> (loss_b, None, g'))
      in (loss_a', loss_b', g'', merge_copies (nc_path_b cfg \<noteq> None) i a b (schedule, st)))"

subsection \<open>Displacement\<close>

text \<open>One arrival: its lateness, its gap, and the new reference point.\<close>

definition displacement_step ::
  "nat \<Rightarrow> nat option \<times> nat list \<times> nat \<times> nat \<Rightarrow> nat option \<times> nat list \<times> nat \<times> nat" where
  "displacement_step idx acc =
     (case acc of (max_seen, lateness, gaps, max_gap) \<Rightarrow>
      let d = (case max_seen of Some m \<Rightarrow> if idx < m then m - idx else 0 | None \<Rightarrow> 0);
          skipped = (case max_seen of None \<Rightarrow> idx | Some m \<Rightarrow> if idx > m then idx - m - 1 else 0);
          (gaps', max_gap') = (if skipped > 0 then (gaps + 1, max max_gap skipped) else (gaps, max_gap));
          max_seen' = (case max_seen of None \<Rightarrow> Some idx | Some m \<Rightarrow> if idx > m then Some idx else max_seen)
      in (max_seen', lateness @ [d], gaps', max_gap'))"

text \<open>A natural number rounded to 53 significant bits, ties to even.\<close>

definition round53 :: "nat \<Rightarrow> nat" where
  "round53 x =
     (let s = floorlog 2 x - 53; q = x div 2 ^ s; r = x mod 2 ^ s in
      if 2 * r > 2 ^ s \<or> (2 * r = 2 ^ s \<and> s > 0 \<and> odd q) then (q + 1) * 2 ^ s else q * 2 ^ s)"

text \<open>
  \<open>(n as f64 * q).round() as usize\<close> for a \<open>q\<close> in the unit interval whose \<^verbatim>\<open>f64\<close> is \<open>k / 2^53\<close>.
\<close>

definition f64_mul_round :: "nat \<Rightarrow> nat \<Rightarrow> nat" where
  "f64_mul_round n k = (2 * round53 (round53 n * k) + 2 ^ 53) div 2 ^ 54"

definition pct :: "nat list \<Rightarrow> nat \<Rightarrow> nat outcome" where
  "pct lateness k =
     (let j = f64_mul_round (length lateness - 1) k in
      obind (guard_panic (j < length lateness) OutOfBounds) (\<lambda>_. Done (lateness ! j)))"

definition measure_displacement :: "(nat \<times> nat) list \<Rightarrow> DisplacementStats outcome" where
  "measure_displacement schedule =
     (let (max_seen, lateness, gaps, max_gap) =
            fold (\<lambda>(t, idx). displacement_step idx) schedule (None, [], 0, 0)
      in if lateness = [] then Done DisplacementStats_default
         else
           (let reordered = length (filter (\<lambda>d. d > 0) lateness); sorted = sort lateness in
            obind (pct sorted 4503599627370496) (\<lambda>p50.
            obind (pct sorted 8917127262193582) (\<lambda>p99.
            obind (pct sorted 8998192055486251) (\<lambda>p99_9.
            Done \<lparr> ds_reordered = reordered, ds_max_lateness = last sorted, ds_p50 = p50, ds_p99 = p99,
                   ds_p99_9 = p99_9, ds_gaps = gaps, ds_max_gap = max_gap \<rparr>)))))"

definition disturb ::
  "'g rng \<Rightarrow> nat \<Rightarrow> (nat \<Rightarrow> nat) \<Rightarrow> NetworkConfig \<Rightarrow> ((nat \<times> nat) list \<times> NetworkStats) outcome" where
  "disturb R n send_ns cfg =
     (let g = rng_seed_from_u64 R (nc_seed cfg);
          loss_a = LossState_new (pa_loss (nc_path_a cfg));
          loss_b = map_option (\<lambda>p. LossState_new (pa_loss p)) (nc_path_b cfg);
          (_, _, _, schedule, st) =
            fold (disturb_step R send_ns cfg) [0..<n] (loss_a, loss_b, g, [], NetworkStats_default\<lparr>ns_sent := n\<rparr>);
          schedule' = sort_key fst schedule
      in obind (measure_displacement schedule') (\<lambda>disp.
         Done (schedule', st\<lparr>ns_delivered := length schedule', ns_displacement := disp\<rparr>)))"

section \<open>Percentile positions\<close>

lemma round53_le:
  assumes "x \<le> n * 2 ^ 53" and "n < 2 ^ 53"
  shows "round53 x \<le> n * 2 ^ 53"
proof -
  define s where "s = floorlog 2 x - 53"
  define q where "q = x div 2 ^ s"
  define r where "r = x mod 2 ^ s"
  have "x < 2 ^ 106"
  proof -
    have "x \<le> n * 2 ^ 53" by (rule assms(1))
    also have "\<dots> < 2 ^ 53 * 2 ^ 53" using assms(2) by simp
    finally show ?thesis by simp
  qed
  then have "floorlog 2 x \<le> 106" by (intro floorlog_leI) simp_all
  then have "s \<le> 53" by (simp add: s_def)
  then obtain t where t: "n * 2 ^ 53 = t * 2 ^ s"
    by (metis dvd_def dvd_mult le_imp_power_dvd mult.commute)
  have x: "x = q * 2 ^ s + r" by (simp only: q_def r_def div_mult_mod_eq)
  have q: "q \<le> t" unfolding q_def using assms(1) t by (metis div_le_mono nonzero_mult_div_cancel_right power_not_zero zero_neq_numeral)
  have res: "round53 x = (if 2 * r > 2 ^ s \<or> (2 * r = 2 ^ s \<and> s > 0 \<and> odd q) then (q + 1) * 2 ^ s else q * 2 ^ s)"
    by (simp add: round53_def Let_def s_def q_def r_def)
  show ?thesis
  proof (cases "q = t")
    case True
    then have "r = 0" using assms(1) t x by simp
    then show ?thesis unfolding res t True by simp
  next
    case False
    then have "(q + 1) * 2 ^ s \<le> t * 2 ^ s" using q by (intro mult_le_mono1) simp
    moreover have "q * 2 ^ s \<le> t * 2 ^ s" using q by simp
    ultimately show ?thesis unfolding res t by simp
  qed
qed

lemma round53_exact: "x < 2 ^ 53 \<Longrightarrow> round53 x = x"
proof -
  assume "x < 2 ^ 53"
  then have "floorlog 2 x \<le> 53" by (intro floorlog_leI) simp_all
  then show "round53 x = x" by (simp add: round53_def Let_def)
qed

lemma f64_mul_round_le:
  assumes "n < 2 ^ 53" and "k \<le> 2 ^ 53"
  shows "f64_mul_round n k \<le> n"
proof -
  have "round53 (n * k) \<le> n * 2 ^ 53" by (rule round53_le) (use assms in \<open>simp_all add: mult_le_mono2\<close>)
  then have "2 * round53 (n * k) + 2 ^ 53 \<le> n * 2 ^ 54 + 2 ^ 53" by simp
  then have "(2 * round53 (n * k) + 2 ^ 53) div 2 ^ 54 \<le> (n * 2 ^ 54 + 2 ^ 53) div 2 ^ 54" by (rule div_le_mono)
  also have "\<dots> = n" by simp
  finally show ?thesis by (simp add: f64_mul_round_def round53_exact [OF assms(1)])
qed

lemma pct_in_range:
  assumes "xs \<noteq> []" and "length xs \<le> 2 ^ 53" and "k \<le> 2 ^ 53"
  obtains x where "pct xs k = Done x" and "x \<in> set xs"
proof -
  have n: "length xs - 1 < 2 ^ 53" "0 < length xs" using assms(1,2) by (cases xs; simp)+
  have "f64_mul_round (length xs - 1) k < length xs" using f64_mul_round_le [OF n(1) assms(3)] n(2) by linarith
  then show thesis by (intro that [of "xs ! f64_mul_round (length xs - 1) k"]) (simp_all add: pct_def Let_def)
qed

text \<open>
  The percentile position is rounded to the nearest rank, also downwards: with one late packet among
  52, the value recorded as the 99th percentile is 0, although only 51 of 52 packets, 98.1 percent,
  had that lateness or less.
\<close>

lemma p99_rank_rounds_down: "pct (replicate 51 0 @ [1]) 8917127262193582 = Done 0"
proof -
  have "floorlog 2 454773490371872682 = 59" by (intro order.antisym floorlog_leI floorlog_geI) simp_all
  then have "round53 (51 * 8917127262193582) = 454773490371872704" by (simp add: round53_def)
  moreover have "round53 51 = 51" by (rule round53_exact) simp
  ultimately have "f64_mul_round 51 8917127262193582 = 50" by (simp add: f64_mul_round_def)
  then show ?thesis by (simp add: pct_def nth_append)
qed

section \<open>The displacement walk\<close>

definition displacement_walk :: "nat list \<Rightarrow> nat option \<times> nat list \<times> nat \<times> nat \<Rightarrow> nat option \<times> nat list \<times> nat \<times> nat" where
  "displacement_walk is acc = fold displacement_step is acc"

lemma fold_schedule: "fold (\<lambda>(t, idx). displacement_step idx) schedule acc = displacement_walk (map snd schedule) acc"
  by (induction schedule arbitrary: acc) (auto simp: displacement_walk_def)

text \<open>
  \<open>displaced_at_most l g hi is\<close>: in arrival order \<open>is\<close>, after highest index \<open>hi\<close>, no packet lies more
  than \<open>l\<close> behind the highest index before it, and none skips more than \<open>g\<close> packets.
\<close>

fun displaced_at_most :: "nat \<Rightarrow> nat \<Rightarrow> nat option \<Rightarrow> nat list \<Rightarrow> bool" where
  "displaced_at_most l g hi [] \<longleftrightarrow> True"
| "displaced_at_most l g None (i # is) \<longleftrightarrow> i \<le> g \<and> displaced_at_most l g (Some i) is"
| "displaced_at_most l g (Some h) (i # is) \<longleftrightarrow>
     h - i \<le> l \<and> i - h - 1 \<le> g \<and> displaced_at_most l g (Some (max h i)) is"

lemma walk_grows:
  "displacement_walk is (hi, lat, gaps, mg) = (hi', lat', gaps', mg') \<Longrightarrow>
     (\<exists>ys. lat' = lat @ ys \<and> length ys = length is) \<and> mg \<le> mg'"
proof (induction "is" arbitrary: hi lat gaps mg)
  case Nil
  then show ?case by (simp add: displacement_walk_def)
next
  case (Cons i "is")
  obtain h1 lat1 g1 m1 where s: "displacement_step i (hi, lat, gaps, mg) = (h1, lat1, g1, m1)"
    by (metis prod_cases4)
  have "displacement_walk is (h1, lat1, g1, m1) = (hi', lat', gaps', mg')"
    using Cons.prems s by (simp add: displacement_walk_def)
  from Cons.IH [OF this] obtain ys where "lat' = lat1 @ ys" "length ys = length is" "m1 \<le> mg'" by blast
  moreover have "\<exists>d. lat1 = lat @ [d]" "mg \<le> m1"
    using s by (auto simp: displacement_step_def Let_def split: if_splits)
  ultimately show ?case by force
qed

lemma walk_bounds:
  "displacement_walk is (hi, lat, gaps, mg) = (hi', lat', gaps', mg') \<Longrightarrow>
     (\<forall>d\<in>set lat'. d \<le> l) \<Longrightarrow> mg' \<le> g \<Longrightarrow> displaced_at_most l g hi is"
proof (induction "is" arbitrary: hi lat gaps mg)
  case Nil
  then show ?case by simp
next
  case (Cons i "is")
  obtain h1 lat1 g1 m1 where s: "displacement_step i (hi, lat, gaps, mg) = (h1, lat1, g1, m1)"
    by (metis prod_cases4)
  have w: "displacement_walk is (h1, lat1, g1, m1) = (hi', lat', gaps', mg')"
    using Cons.prems(1) s by (simp add: displacement_walk_def)
  have ih: "displaced_at_most l g h1 is" by (rule Cons.IH [OF w Cons.prems(2,3)])
  from walk_grows [OF w] have m: "m1 \<le> g" "set lat1 \<subseteq> set lat'" using Cons.prems(3) by auto
  show ?case
  proof (cases hi)
    case None
    then have "h1 = Some i" "i \<le> m1" using s by (auto simp: displacement_step_def Let_def split: if_splits)
    then show ?thesis using None ih m by simp
  next
    case (Some h)
    then have "h1 = Some (max h i)" "h - i \<in> set lat1" "i - h - 1 \<le> m1"
      using s by (auto simp: displacement_step_def Let_def max_def split: if_splits)
    then show ?thesis using Some ih m Cons.prems(2) by auto
  qed
qed

lemma sorted_le_last: "sorted xs \<Longrightarrow> x \<in> set xs \<Longrightarrow> x \<le> last xs"
  by (induction xs rule: rev_induct) (auto simp: sorted_append)

lemma measure_done:
  assumes "length schedule \<le> 2 ^ 53"
  obtains d where "measure_displacement schedule = Done d"
    and "displaced_at_most (ds_max_lateness d) (ds_max_gap d) None (map snd schedule)"
    and "ds_p50 d \<le> ds_max_lateness d" "ds_p99 d \<le> ds_max_lateness d" "ds_p99_9 d \<le> ds_max_lateness d"
proof -
  obtain hi lat gaps mg where w: "displacement_walk (map snd schedule) (None, [], 0, 0) = (hi, lat, gaps, mg)"
    by (metis prod_cases4)
  have len: "length lat = length schedule" using walk_grows [OF w] by auto
  note M = measure_displacement_def [of schedule, unfolded fold_schedule w prod.case Let_def]
  show thesis
  proof (cases "lat = []")
    case True
    then have "schedule = []" using len by simp
    then show thesis using True by (intro that [OF M [unfolded if_P [OF True]]]) (simp_all add: DisplacementStats_default_def displacement_walk_def)
  next
    case False
    define xs where "xs = sort lat"
    have x: "xs \<noteq> []" "length xs \<le> 2 ^ 53" "sorted xs" "set xs = set lat"
      using False len assms by (simp_all add: xs_def flip: length_greater_0_conv)
    have k: "(4503599627370496 :: nat) \<le> 2 ^ 53" "(8917127262193582 :: nat) \<le> 2 ^ 53"
      "(8998192055486251 :: nat) \<le> 2 ^ 53" by simp_all
    obtain a where a: "pct xs 4503599627370496 = Done a" "a \<in> set xs" by (rule pct_in_range [OF x(1,2) k(1)])
    obtain b where b: "pct xs 8917127262193582 = Done b" "b \<in> set xs" by (rule pct_in_range [OF x(1,2) k(2)])
    obtain c where c: "pct xs 8998192055486251 = Done c" "c \<in> set xs" by (rule pct_in_range [OF x(1,2) k(3)])
    let ?d = "\<lparr> ds_reordered = length (filter (\<lambda>d. 0 < d) lat), ds_max_lateness = last xs, ds_p50 = a, ds_p99 = b,
      ds_p99_9 = c, ds_gaps = gaps, ds_max_gap = mg \<rparr>"
    have top: "\<forall>d\<in>set lat. d \<le> last xs" using sorted_le_last [OF x(3)] x(4) by simp
    have "measure_displacement schedule = Done ?d"
      using False a(1) b(1) c(1) by (simp add: M flip: xs_def)
    then show thesis
    proof (rule that)
      show "displaced_at_most (ds_max_lateness ?d) (ds_max_gap ?d) None (map snd schedule)"
        using walk_bounds [OF w top order.refl] by simp
      show "ds_p50 ?d \<le> ds_max_lateness ?d" "ds_p99 ?d \<le> ds_max_lateness ?d" "ds_p99_9 ?d \<le> ds_max_lateness ?d"
        using sorted_le_last [OF x(3)] a(2) b(2) c(2) by simp_all
    qed
  qed
qed

lemma measure_values:
  assumes "measure_displacement schedule = Done d" and "lat \<noteq> []"
    and "displacement_walk (map snd schedule) (None, [], 0, 0) = (hi, lat, gaps, mg)"
  shows "ds_max_lateness d = last (sort lat) \<and> ds_max_gap d = mg"
  using assms(1,2) unfolding measure_displacement_def fold_schedule assms(3) prod.case Let_def
  by (auto simp: outcome_simps)

section \<open>The sending loop\<close>

text \<open>The books after the first \<open>j\<close> packets: \<open>dual\<close> says whether there is a second path.\<close>

definition books_ok :: "bool \<Rightarrow> nat \<Rightarrow> nat \<Rightarrow> (nat \<times> nat) list \<Rightarrow> NetworkStats \<Rightarrow> bool" where
  "books_ok dual n j schedule st \<longleftrightarrow>
     distinct (map snd schedule) \<and> (\<forall>i\<in>set (map snd schedule). i < j) \<and> ns_sent st = n \<and>
     length schedule + ns_lost_packets st = j \<and> ns_wins_a st + ns_wins_b st = length schedule \<and>
     ns_lost_a st + ns_lost_b st + length schedule + ns_duplicates_dropped st = (if dual then 2 * j else j) \<and>
     (\<not> dual \<longrightarrow> ns_lost_b st = 0 \<and> ns_wins_b st = 0 \<and> ns_duplicates_dropped st = 0)"

lemma merge_copies_books:
  assumes ok: "books_ok dual n j schedule st" and b: "\<not> dual \<Longrightarrow> b = None"
    and m: "merge_copies dual j a b (schedule, st) = (schedule', st')"
  shows "books_ok dual n (Suc j) schedule' st'"
proof -
  have f: "j \<notin> set (map snd schedule)" and l: "i < Suc j" if "i \<in> set (map snd schedule)" for i
    using ok that by (auto simp: books_ok_def less_Suc_eq)
  have d: "distinct (map snd schedule)" using ok by (simp add: books_ok_def)
  have fresh: "j \<notin> set (map snd schedule)" using ok by (auto simp: books_ok_def)
  show ?thesis
  proof (cases a)
    case None
    then show ?thesis using m ok b d fresh l
      by (cases b; cases dual) (auto simp: merge_copies_def books_ok_def Let_def less_Suc_eq)
  next
    case (Some t)
    then show ?thesis using m ok b d fresh l
      by (cases b; cases dual) (auto simp: merge_copies_def books_ok_def Let_def less_Suc_eq split: if_splits)
  qed
qed

lemma disturb_loop_books:
  assumes "books_ok (nc_path_b cfg \<noteq> None) n j schedule st"
  shows "\<exists>la' lb' g' schedule' st'. fold (disturb_step R send_ns cfg) [j..<j + m] (la, lb, g, schedule, st) =
      (la', lb', g', schedule', st') \<and> books_ok (nc_path_b cfg \<noteq> None) n (j + m) schedule' st'"
  using assms
proof (induction m arbitrary: j la lb g schedule st)
  case 0
  then show ?case by simp
next
  case (Suc m)
  have l: "[j..<j + Suc m] = j # [Suc j..<Suc j + m]" by (subst upt_conv_Cons) simp_all
  obtain la1 lb1 g1 schedule1 st1 where s: "disturb_step R send_ns cfg j (la, lb, g, schedule, st) = (la1, lb1, g1, schedule1, st1)"
    by (metis prod_cases5)
  obtain a b where m1: "merge_copies (nc_path_b cfg \<noteq> None) j a b (schedule, st) = (schedule1, st1)"
    and b: "nc_path_b cfg = None \<Longrightarrow> b = None"
    using s by (auto simp: disturb_step_def Let_def split: prod.splits option.splits)
  have "books_ok (nc_path_b cfg \<noteq> None) n (Suc j) schedule1 st1"
    by (rule merge_copies_books [OF Suc.prems _ m1]) (use b in simp)
  from Suc.IH [OF this, of la1 lb1 g1] show ?case unfolding l by (simp add: s del: upt_Suc)
qed

lemma disturb_books:
  assumes "n \<le> 2 ^ 53"
  obtains schedule st d where "disturb R n send_ns cfg = Done (schedule, st\<lparr>ns_delivered := length schedule, ns_displacement := d\<rparr>)"
    and "sorted (map fst schedule)" and "books_ok (nc_path_b cfg \<noteq> None) n n schedule st"
    and "displaced_at_most (ds_max_lateness d) (ds_max_gap d) None (map snd schedule)"
    and "ds_p50 d \<le> ds_max_lateness d" "ds_p99 d \<le> ds_max_lateness d" "ds_p99_9 d \<le> ds_max_lateness d"
proof -
  define la where "la = LossState_new (pa_loss (nc_path_a cfg))"
  define lb where "lb = map_option (\<lambda>p. LossState_new (pa_loss p)) (nc_path_b cfg)"
  have "books_ok (nc_path_b cfg \<noteq> None) n 0 [] (NetworkStats_default\<lparr>ns_sent := n\<rparr>)"
    by (simp add: books_ok_def NetworkStats_default_def)
  from disturb_loop_books [OF this, of R send_ns n la lb "rng_seed_from_u64 R (nc_seed cfg)"]
  obtain la' lb' g' sch st where f: "fold (disturb_step R send_ns cfg) [0..<n]
      (la, lb, rng_seed_from_u64 R (nc_seed cfg), [], NetworkStats_default\<lparr>ns_sent := n\<rparr>) = (la', lb', g', sch, st)"
    and ok: "books_ok (nc_path_b cfg \<noteq> None) n n sch st" by auto
  define schedule where "schedule = sort_key fst sch"
  have ms: "mset schedule = mset sch" by (simp add: schedule_def)
  have len: "length schedule = length sch" by (simp add: schedule_def)
  have "set (map snd schedule) = set (map snd sch)" by (simp add: schedule_def)
  moreover have "distinct (map snd schedule) = distinct (map snd sch)"
    using ms by (metis mset_eq_imp_distinct_iff mset_map)
  ultimately have ok': "books_ok (nc_path_b cfg \<noteq> None) n n schedule st"
    using ok len by (simp add: books_ok_def)
  have "length schedule \<le> 2 ^ 53" using ok' assms by (auto simp: books_ok_def)
  from measure_done [OF this] obtain d where d: "measure_displacement schedule = Done d"
    "displaced_at_most (ds_max_lateness d) (ds_max_gap d) None (map snd schedule)"
    "ds_p50 d \<le> ds_max_lateness d" "ds_p99 d \<le> ds_max_lateness d" "ds_p99_9 d \<le> ds_max_lateness d" by blast
  have "disturb R n send_ns cfg = Done (schedule, st\<lparr>ns_delivered := length schedule, ns_displacement := d\<rparr>)"
    unfolding disturb_def Let_def la_def [symmetric] lb_def [symmetric] f
    by (simp add: d(1) len flip: schedule_def)
  then show thesis by (rule that [OF _ _ ok' d(2-5)]) (simp add: schedule_def)
qed

section \<open>What the receiver has to cover\<close>

lemma boundary_count_append_le:
  "boundary_count gr prev cnt (xs @ ys) \<le> boundary_count gr prev cnt xs + length ys"
proof (induction xs arbitrary: prev cnt)
  case Nil
  have "boundary_count gr prev cnt ys \<le> length ys" for prev cnt
    by (induction ys arbitrary: prev cnt) (auto intro: le_SucI)
  then show ?case by simp
qed simp

lemma packet_gen_gap:
  assumes "i \<le> j"
  shows "packet_gen gr pkts j \<le> packet_gen gr pkts i + (j - i)"
proof -
  have "take (Suc j) pkts = take (Suc i) pkts @ take (j - i) (drop (Suc i) pkts)"
    using assms by (metis Suc_diff_Suc Suc_le_mono diff_Suc_Suc le_add_diff_inverse take_add)
  then have "packet_gen gr pkts j \<le> packet_gen gr pkts i + length (take (j - i) (drop (Suc i) pkts))"
    unfolding packet_gen_def by (metis boundary_count_append_le length_map map_append)
  then show ?thesis by simp
qed

lemma packet_gen_first: "packet_gen gr pkts 0 = 0"
  by (cases pkts) (auto simp: packet_gen_def crosses_boundary_def split: Granularity.splits)

lemma displaced_arrivals_ok:
  assumes k: "l < k" "l < W" "l < 32768" and c: "g < cap" "g < 32767"
  shows "displaced_at_most l g hi is \<Longrightarrow> distinct is \<Longrightarrow> set is \<inter> set seen = {} \<Longrightarrow>
    arrivals_ok k cap W (packet_gen gr pkts) 0 hi seen is"
proof (induction "is" arbitrary: hi seen)
  case Nil
  then show ?case by simp
next
  case (Cons i "is")
  let ?G = "packet_gen gr pkts"
  show ?case
  proof (cases hi)
    case None
    then have "i \<le> g" "displaced_at_most l g (Some i) is" using Cons.prems(1) by simp_all
    moreover have "?G i \<le> i" using packet_gen_gap [of 0 i gr pkts] by (simp add: packet_gen_first)
    ultimately show ?thesis using None Cons.IH [of "Some i" "i # seen"] Cons.prems(2,3) c by auto
  next
    case (Some h)
    then have d: "h - i \<le> l" "i - h - 1 \<le> g" "displaced_at_most l g (Some (max h i)) is"
      using Cons.prems(1) by simp_all
    have 1: "\<bar>int i - int h\<bar> < 32768" using d(1,2) k c by linarith
    have 2: "?G i \<le> ?G h \<Longrightarrow> ?G h < ?G i + k"
      using packet_gen_gap [of i h gr pkts] packet_gen_mono [of h i gr pkts] d(1) k(1) by (cases "i \<le> h") auto
    have 3: "?G i - ?G h \<le> cap" if "?G h < ?G i"
    proof -
      have "h \<le> i" using that packet_gen_mono [of i h gr pkts] by (meson leI less_imp_le not_le)
      then have "?G i \<le> ?G h + (i - h)" by (rule packet_gen_gap)
      then show ?thesis using d(2) c(1) by linarith
    qed
    show ?thesis
      using Some Cons.IH [OF d(3), of "i # seen"] Cons.prems(2,3) 1 2 3 d(1) k by (auto simp: near_def)
  qed
qed

lemma disturb_served:
  assumes "n \<le> 2 ^ 53" and "disturb R n send_ns cfg = Done (schedule, st)" and "d = ns_displacement st"
    and "ds_max_lateness d < k" and "ds_max_lateness d < W" and "ds_max_lateness d < 32768"
    and "ds_max_gap d < cap" and "ds_max_gap d < 32767"
  shows "arrivals_ok k cap W (packet_gen gr pkts) 0 None [] (map snd schedule) \<and>
    (\<forall>i\<in>set (map snd schedule). i < n) \<and>
    ds_p50 d \<le> ds_max_lateness d \<and> ds_p99 d \<le> ds_max_lateness d \<and> ds_p99_9 d \<le> ds_max_lateness d"
proof (rule disturb_books [OF assms(1), of R send_ns cfg])
  fix schedule' st' d'
  assume B: "disturb R n send_ns cfg = Done (schedule', st'\<lparr>ns_delivered := length schedule', ns_displacement := d'\<rparr>)"
    "books_ok (nc_path_b cfg \<noteq> None) n n schedule' st'"
    "displaced_at_most (ds_max_lateness d') (ds_max_gap d') None (map snd schedule')"
    "ds_p50 d' \<le> ds_max_lateness d'" "ds_p99 d' \<le> ds_max_lateness d'" "ds_p99_9 d' \<le> ds_max_lateness d'"
  have e: "schedule' = schedule" "d' = d" using B(1) assms(2,3) by auto
  have dist: "distinct (map snd schedule)" "\<forall>i\<in>set (map snd schedule). i < n" using B(2) by (simp_all add: books_ok_def e)
  from displaced_arrivals_ok [OF assms(4-8) B(3) [unfolded e] dist(1), of "[]"] B(4-6) dist(2) show ?thesis
    by (simp add: e)
qed

section \<open>Properties\<close>

text \<open>
  C26. Conservation: for every generator, loss model and send-time function, the simulated network
  returns (no percentile index is out of range); its schedule lists distinct packets of the stream in
  order of arrival; sent packets are delivered or lost; every delivery is a win of one path; and the
  copies lost, delivered and dropped as duplicates are all the copies sent.
\<close>

theorem network_conserves_packets:
  assumes "n \<le> 2 ^ 53"
  shows "\<exists>schedule st. disturb R n send_ns cfg = Done (schedule, st) \<and>
    sorted (map fst schedule) \<and> distinct (map snd schedule) \<and> set (map snd schedule) \<subseteq> {..<n} \<and>
    ns_sent st = n \<and> ns_delivered st = length schedule \<and> ns_delivered st + ns_lost_packets st = n \<and>
    ns_wins_a st + ns_wins_b st = ns_delivered st \<and>
    ns_lost_a st + ns_lost_b st + ns_delivered st + ns_duplicates_dropped st =
      (if nc_path_b cfg = None then n else 2 * n)"
  by (rule disturb_books [OF assms, of R send_ns cfg]) (auto simp: books_ok_def)

definition sample_rng :: "nat rng" where
  "sample_rng = \<lparr> rng_seed_from_u64 = (\<lambda>s. s), rng_f64 = (\<lambda>g. (of_nat (g mod 10) / 10, g + 7)),
     rng_range = (\<lambda>g n. (g mod (n + 1), g + 3)) \<rparr>"

definition sample_network :: NetworkConfig where
  "sample_network =
     \<lparr> nc_path_a = \<lparr> pa_base_delay_ns = 100, pa_jitter_ns = 30, pa_loss = Loss_Independent (1 / 4) \<rparr>,
       nc_path_b = Some \<lparr> pa_base_delay_ns = 120, pa_jitter_ns = 0, pa_loss = Loss_None \<rparr>, nc_seed = 5 \<rparr>"

theorem network_conserves_packets_witness:
  "\<exists>schedule st. disturb sample_rng 20 (\<lambda>i. 10 * i) sample_network = Done (schedule, st) \<and>
     ns_delivered st + ns_lost_packets st = 20"
  using network_conserves_packets [of 20 sample_rng "\<lambda>i. 10 * i" sample_network] by auto

text \<open>
  What is measured is what a receiver has to cover: the recorded percentiles never exceed the
  recorded maximum, and if a receiver keeps more keys and a longer replay window than the maximal
  lateness, and seeks further than the maximal gap, then the schedule is an arrival order it can
  serve, at every keying granularity.
\<close>

lemma displacement_bounds_receiver:
  assumes "n \<le> 2 ^ 53" and "disturb R n send_ns cfg = Done (schedule, st)" and "d = ns_displacement st"
    and "ds_max_lateness d < k" and "ds_max_lateness d < W" and "ds_max_lateness d < 32768"
    and "ds_max_gap d < cap" and "ds_max_gap d < 32767"
  shows "arrivals_ok k cap W (packet_gen gr pkts) 0 None [] (map snd schedule) \<and>
    ds_p50 d \<le> ds_max_lateness d \<and> ds_p99 d \<le> ds_max_lateness d \<and> ds_p99_9 d \<le> ds_max_lateness d"
  using disturb_served [OF assms] by blast

text \<open>A single path with jitter: packet 1 overtakes packet 0.\<close>

definition sample_line :: NetworkConfig where
  "sample_line =
     \<lparr> nc_path_a = \<lparr> pa_base_delay_ns = 100, pa_jitter_ns = 60, pa_loss = Loss_None \<rparr>, nc_path_b = None, nc_seed = 60 \<rparr>"

lemma sample_line_run:
  assumes send: "send_ns 0 = 0" "send_ns 1 = 51" "send_ns 2 = 102"
  shows "\<exists>schedule st. disturb sample_rng 3 send_ns sample_line = Done (schedule, st) \<and> map snd schedule = [1, 0, 2] \<and>
     ds_max_lateness (ns_displacement st) = 1 \<and> ds_max_gap (ns_displacement st) = 1"
proof -
  have u: "[0..<3] = [0, 1, 2]" by (simp add: upt_rec)
  have c: "copy_arrival sample_rng (nc_path_a sample_line) s (LossState_new Loss_None) g =
      (LossState_new Loss_None, Some (wrap64 (s + 100 + g mod 61)), g + 3)" for s g
    by (simp add: copy_arrival_def LossState_next_lost_def LossState_new_def sample_rng_def sample_line_def Let_def)
  let ?st = "NetworkStats_default\<lparr>ns_sent := 3, ns_wins_a := 3\<rparr>"
  have f: "fold (disturb_step sample_rng send_ns sample_line) [0..<3]
      (LossState_new Loss_None, None, 60, [], NetworkStats_default\<lparr>ns_sent := 3\<rparr>) =
    (LossState_new Loss_None, None, 69, [(160, 0), (153, 1), (207, 2)], ?st)"
    by (simp add: u disturb_step_def c merge_copies_def Let_def send [simplified])
      (simp add: sample_line_def merge_copies_def NetworkStats_default_def)
  have w: "displacement_walk (map snd [(153 :: nat, 1), (160, 0), (207, 2)]) (None, [], 0, 0) = (Some 2, [0, 1, 0], 1, 1)"
    by (simp add: displacement_walk_def displacement_step_def)
  have k: "sort_key fst [(160 :: nat, 0 :: nat), (153, 1), (207, 2)] = [(153, 1), (160, 0), (207, 2)]" by simp
  have "length [(153 :: nat, 1 :: nat), (160, 0), (207, 2)] \<le> 2 ^ 53" by simp
  from measure_done [OF this] obtain d where d1: "measure_displacement [(153, 1), (160, 0), (207, 2)] = Done d" by blast
  note d = d1 measure_values [OF d1 _ w, THEN conjunct1] measure_values [OF d1 _ w, THEN conjunct2]
  have s: "rng_seed_from_u64 sample_rng (nc_seed sample_line) = 60"
    "LossState_new (pa_loss (nc_path_a sample_line)) = LossState_new Loss_None"
    "map_option (\<lambda>p. LossState_new (pa_loss p)) (nc_path_b sample_line) = None"
    by (simp_all add: sample_rng_def sample_line_def)
  have "disturb sample_rng 3 send_ns sample_line =
      Done ([(153, 1), (160, 0), (207, 2)], ?st\<lparr>ns_delivered := 3, ns_displacement := d\<rparr>)"
    unfolding disturb_def s Let_def f prod.case k d(1) obind.simps by simp
  then show ?thesis using d(2,3) by simp
qed

end
