(* ===== verification/Auth_Service.thy ===== *)
theory Auth_Service
  imports Mls_Export
begin

text \<open>
  The demo's authentication service and the client code that talks to it:
  \<^verbatim>\<open>demo/auth-service/src/main.rs\<close>, the authentication part of
  \<^verbatim>\<open>demo/safecast-client/src/ds_client.rs\<close>, and the credential check of
  \<^verbatim>\<open>demo/safecast-client/src/main.rs\<close>.

  A Rust \<^verbatim>\<open>String\<close> is the list of its UTF-8 bytes, each an 8-bit \<open>char\<close>. The service's mutex has
  the poison flag of the standard library: a handler that panics while it holds the lock sets it,
  and every later \<^verbatim>\<open>lock().unwrap()\<close> panics. Base64 and the HTTP stack are parameters; a client
  error, in the code a formatted string, is named by its cause.

  Shown here: the first registration of an identity is final, the service fails only after a key
  whose 16th byte splits a character, and the client's check passes exactly when every other
  member's key in the group tree is the registered one.
\<close>

section \<open>The service\<close>

record AsData =
  as_credentials :: "string \<rightharpoonup> string"
  as_poisoned :: bool

definition AsData_default :: AsData where
  "AsData_default = \<lparr> as_credentials = Map.empty, as_poisoned = False \<rparr>"

record RegisterRequest =
  rr_identity :: string
  rr_public_key :: string

record LookupResponse =
  lr_identity :: string
  lr_public_key :: string

datatype HttpResponse = Http_Ok | Http_Json LookupResponse | Http_Conflict string | Http_NotFound string

text \<open>Whether a byte of a UTF-8 string continues a character, and \<^verbatim>\<open>is_char_boundary\<close>.\<close>

definition is_continuation :: "char \<Rightarrow> bool" where
  "is_continuation c \<longleftrightarrow> 0x80 \<le> (of_char c :: nat) \<and> (of_char c :: nat) < 0xC0"

definition is_char_boundary :: "string \<Rightarrow> nat \<Rightarrow> bool" where
  "is_char_boundary s n \<longleftrightarrow> n = 0 \<or> n = length s \<or> (n < length s \<and> \<not> is_continuation (s ! n))"

definition register :: "AsData \<Rightarrow> RegisterRequest \<Rightarrow> AsData \<times> HttpResponse outcome" where
  "register data body =
     (if as_poisoned data then (data, Panic ExpectFailed)
      else if as_credentials data (rr_identity body) \<noteq> None
      then (data, Done (Http_Conflict ''identity already registered''))
      else if \<not> is_char_boundary (rr_public_key body) (min 16 (length (rr_public_key body)))
      then (data\<lparr>as_poisoned := True\<rparr>, Panic OutOfBounds)
      else (data\<lparr>as_credentials := (as_credentials data)(rr_identity body \<mapsto> rr_public_key body)\<rparr>, Done Http_Ok))"

definition lookup :: "AsData \<Rightarrow> string \<Rightarrow> AsData \<times> HttpResponse outcome" where
  "lookup data identity =
     (if as_poisoned data then (data, Panic ExpectFailed)
      else case as_credentials data identity of
        Some public_key \<Rightarrow> (data, Done (Http_Json \<lparr> lr_identity = identity, lr_public_key = public_key \<rparr>))
      | None \<Rightarrow> (data, Done (Http_NotFound ''identity not found'')))"

text \<open>The two routes of \<^verbatim>\<open>main\<close>; the lock makes requests take effect one after the other.\<close>

datatype request = Req_Register RegisterRequest | Req_Lookup string

definition serve :: "AsData \<Rightarrow> request \<Rightarrow> AsData \<times> HttpResponse outcome" where
  "serve data r = (case r of Req_Register body \<Rightarrow> register data body | Req_Lookup identity \<Rightarrow> lookup data identity)"

fun serve_all :: "AsData \<Rightarrow> request list \<Rightarrow> AsData \<times> HttpResponse outcome list" where
  "serve_all data [] = (data, [])"
| "serve_all data (r # rs) =
     (case serve data r of (data1, y) \<Rightarrow> (case serve_all data1 rs of (data2, ys) \<Rightarrow> (data2, y # ys)))"

section \<open>The client's side\<close>

record base64 =
  b64_encode :: "bytes \<Rightarrow> string"
  b64_decode :: "string \<Rightarrow> bytes option"

text \<open>
  The HTTP stack as the client sees it, over a state \<open>'w\<close> of the world: a request to a URL gives a
  transport error or a status, and for \<^verbatim>\<open>GET\<close> also the body, if it parses as JSON.
\<close>

record 'w http =
  http_post :: "'w \<Rightarrow> string \<Rightarrow> RegisterRequest \<Rightarrow> 'w \<times> (string + nat)"
  http_get :: "'w \<Rightarrow> string \<Rightarrow> 'w \<times> (string + nat \<times> LookupResponse option)"

datatype AsError = RequestFailed string | HttpStatus nat | ParseFailed | DecodeFailed

definition is_success :: "nat \<Rightarrow> bool" where
  "is_success status \<longleftrightarrow> 200 \<le> status \<and> status < 300"

definition register_with_as ::
  "base64 \<Rightarrow> 'w http \<Rightarrow> string \<Rightarrow> 'w \<Rightarrow> string \<Rightarrow> bytes \<Rightarrow> 'w \<times> (AsError + unit)" where
  "register_with_as B T as_url w identity public_key =
     (case http_post T w (as_url @ ''/register'')
        \<lparr> rr_identity = identity, rr_public_key = b64_encode B public_key \<rparr> of
        (w', Inl e) \<Rightarrow> (w', Inl (RequestFailed e))
      | (w', Inr status) \<Rightarrow> (w', if is_success status then Inr () else Inl (HttpStatus status)))"

definition lookup_as ::
  "base64 \<Rightarrow> 'w http \<Rightarrow> string \<Rightarrow> 'w \<Rightarrow> string \<Rightarrow> 'w \<times> (AsError + bytes)" where
  "lookup_as B T as_url w identity =
     (case http_get T w (as_url @ ''/lookup/'' @ identity) of
        (w', Inl e) \<Rightarrow> (w', Inl (RequestFailed e))
      | (w', Inr (status, body)) \<Rightarrow>
          (w', if \<not> is_success status then Inl (HttpStatus status)
               else case body of
                 None \<Rightarrow> Inl ParseFailed
               | Some b \<Rightarrow> (case b64_decode B (lr_public_key b) of None \<Rightarrow> Inl DecodeFailed | Some pk \<Rightarrow> Inr pk)))"

subsection \<open>Lossy decoding\<close>

text \<open>
  \<^verbatim>\<open>String::from_utf8_lossy\<close>: \<open>utf8_char\<close> reads one character, giving the number of bytes it
  spans and whether they are well-formed; an ill-formed prefix becomes U+FFFD.
\<close>

definition in_range :: "u8 \<Rightarrow> u8 \<Rightarrow> u8 \<Rightarrow> bool" where
  "in_range lo hi b \<longleftrightarrow> lo \<le> b \<and> b \<le> hi"

definition utf8_at :: "bytes \<Rightarrow> nat \<Rightarrow> u8" where
  "utf8_at xs i = (if i < length xs then xs ! i else 0)"

definition utf8_char :: "bytes \<Rightarrow> nat \<times> bool" where
  "utf8_char xs =
     (let b = utf8_at xs 0; c = utf8_at xs 1; cont = in_range 0x80 0xBF in
      if b < 0x80 then (1, True)
      else if in_range 0xC2 0xDF b then (if cont c then (2, True) else (1, False))
      else if in_range 0xE0 0xEF b then
        (if \<not> (if b = 0xE0 then in_range 0xA0 0xBF c else if b = 0xED then in_range 0x80 0x9F c else cont c)
         then (1, False)
         else if \<not> cont (utf8_at xs 2) then (2, False)
         else (3, True))
      else if in_range 0xF0 0xF4 b then
        (if \<not> (if b = 0xF0 then in_range 0x90 0xBF c else if b = 0xF4 then in_range 0x80 0x8F c else cont c)
         then (1, False)
         else if \<not> cont (utf8_at xs 2) then (2, False)
         else if \<not> cont (utf8_at xs 3) then (3, False)
         else (4, True))
      else (1, False))"

lemma utf8_char_drop: "xs \<noteq> [] \<Longrightarrow> (n, ok) = utf8_char xs \<Longrightarrow> length (drop n xs) < length xs"
  by (cases xs) (auto simp: utf8_char_def Let_def split: if_splits)

function from_utf8_lossy :: "bytes \<Rightarrow> string" where
  "from_utf8_lossy xs =
     (if xs = [] then []
      else (case utf8_char xs of (n, ok) \<Rightarrow>
        (if ok then map (\<lambda>b. char_of (unat b)) (take n xs) else [CHR 0xEF, CHR 0xBF, CHR 0xBD]) @ from_utf8_lossy (drop n xs)))"
  by pat_completeness auto
termination
  by (relation "measure length") (simp_all add: utf8_char_drop del: length_drop)

declare from_utf8_lossy.simps [simp del]

lemma lossy_ascii:
  "\<forall>c\<in>set s. (of_char c :: nat) < 128 \<Longrightarrow> from_utf8_lossy (ascii s) = s"
proof (induction s)
  case Nil
  then show ?case by (simp add: ascii_def from_utf8_lossy.simps)
next
  case (Cons c s)
  have u: "unat (of_char c :: u8) = of_char c"
    using Cons.prems unat_of_nat_u8 [of "of_char c"] by (simp add: of_nat_of_char)
  then have "(of_char c :: u8) < 0x80" using Cons.prems by (simp add: word_less_nat_alt)
  then have "utf8_char (ascii (c # s)) = (1, True)" by (simp add: utf8_char_def utf8_at_def ascii_def Let_def)
  then show ?case using Cons u by (subst from_utf8_lossy.simps) (simp add: ascii_def)
qed

subsection \<open>Checking the members of a group\<close>

text \<open>\<^verbatim>\<open>group.members()\<close> gives each member's serialized credential and signature key.\<close>

record Member =
  mb_credential :: bytes
  mb_signature_key :: bytes

fun verify_group_members ::
  "base64 \<Rightarrow> 'w http \<Rightarrow> string \<Rightarrow> 'w \<Rightarrow> Member list \<Rightarrow> string \<Rightarrow> 'w outcome" where
  "verify_group_members B T as_url w [] my_identity = Done w"
| "verify_group_members B T as_url w (m # ms) my_identity =
     (let identity = from_utf8_lossy (mb_credential m) in
      if identity = my_identity then verify_group_members B T as_url w ms my_identity
      else
        obind (parse_credential_identity identity) (\<lambda>(peer_label, role).
        case lookup_as B T as_url w identity of (w', res) \<Rightarrow>
          obind (expect_ok res) (\<lambda>pk_from_as.
          obind (guard_panic (pk_from_as = mb_signature_key m) AssertFailed) (\<lambda>_.
          verify_group_members B T as_url w' ms my_identity))))"

section \<open>The registry over a sequence of requests\<close>

lemma serve_grows: "serve data r = (data', y) \<Longrightarrow> as_credentials data \<subseteq>\<^sub>m as_credentials data'"
  by (auto simp: serve_def register_def lookup_def map_le_def split: request.splits if_splits option.splits)

lemma serve_poison: "serve data r = (data', y) \<Longrightarrow> as_poisoned data \<Longrightarrow> as_poisoned data' \<and> y = Panic ExpectFailed"
  by (auto simp: serve_def register_def lookup_def split: request.splits)

lemma serve_all_append:
  "serve_all data (xs @ zs) =
     (case serve_all data xs of (data1, ys) \<Rightarrow> (case serve_all data1 zs of (data2, us) \<Rightarrow> (data2, ys @ us)))"
  by (induction xs arbitrary: data) (auto split: prod.splits)

lemma serve_all_length: "serve_all data rs = (data', ys) \<Longrightarrow> length ys = length rs"
  by (induction rs arbitrary: data ys) (auto split: prod.splits)

lemma serve_all_grows: "serve_all data rs = (data', ys) \<Longrightarrow> as_credentials data \<subseteq>\<^sub>m as_credentials data'"
  by (induction rs arbitrary: data ys) (auto split: prod.splits intro: map_le_trans dest: serve_grows)

lemma serve_all_poison:
  "serve_all data rs = (data', ys) \<Longrightarrow> as_poisoned data \<Longrightarrow> as_poisoned data' \<and> (\<forall>y\<in>set ys. y = Panic ExpectFailed)"
proof (induction rs arbitrary: data ys)
  case (Cons r rs)
  obtain data1 y ys1 where s: "serve data r = (data1, y)" "serve_all data1 rs = (data', ys1)" "ys = y # ys1"
    using Cons.prems(1) by (auto split: prod.splits)
  show ?case using serve_poison [OF s(1) Cons.prems(2)] Cons.IH [OF s(2)] s(3) by simp
qed auto

text \<open>The state in which request \<open>j\<close> is handled, and the rest of the run after it.\<close>

lemma serve_all_at:
  assumes "serve_all data rs = (data', ys)" and "j < length rs"
  obtains data1 data2 ys1 ys2 where "serve_all data (take j rs) = (data1, ys1)"
    and "serve data1 (rs ! j) = (data2, ys ! j)" and "serve_all data2 (drop (Suc j) rs) = (data', ys2)"
    and "ys1 = take j ys" and "ys2 = drop (Suc j) ys"
proof -
  obtain data1 ys1 where 1: "serve_all data (take j rs) = (data1, ys1)" by fastforce
  obtain data2 y where 2: "serve data1 (rs ! j) = (data2, y)" by fastforce
  obtain data3 ys2 where 3: "serve_all data2 (drop (Suc j) rs) = (data3, ys2)" by fastforce
  have "serve_all data (take j rs @ rs ! j # drop (Suc j) rs) = (data3, ys1 @ y # ys2)"
    by (simp add: serve_all_append 1 2 3)
  then have e: "data3 = data'" "ys = ys1 @ y # ys2" using assms by (simp_all add: id_take_nth_drop [symmetric])
  have "length ys1 = j" using serve_all_length [OF 1] assms(2) by simp
  then show thesis
    using 2 3 by (intro that [OF 1, of data2 ys2]) (simp_all add: e nth_append)
qed

lemma ex_nth_snoc:
  assumes "length ys = length xs"
  shows "(\<exists>i<length (xs @ [x]). P ((xs @ [x]) ! i) ((ys @ [y]) ! i)) \<longleftrightarrow> (\<exists>i<length xs. P (xs ! i) (ys ! i)) \<or> P x y"
proof -
  have "(\<exists>i<length (xs @ [x]). Q i) \<longleftrightarrow> (\<exists>i<length xs. Q i) \<or> Q (length xs)" for Q
    by (auto simp: less_Suc_eq)
  moreover have "(\<exists>i<length xs. P ((xs @ [x]) ! i) ((ys @ [y]) ! i)) \<longleftrightarrow> (\<exists>i<length xs. P (xs ! i) (ys ! i))"
    using assms by (auto simp: nth_append)
  moreover have "(ys @ [y]) ! length xs = y" by (simp flip: assms)
  ultimately show ?thesis by simp
qed

lemma registered_iff:
  "serve_all AsData_default rs = (data, ys) \<Longrightarrow> as_credentials data identity = Some pk \<longleftrightarrow>
     (\<exists>i<length rs. rs ! i = Req_Register \<lparr> rr_identity = identity, rr_public_key = pk \<rparr> \<and> ys ! i = Done Http_Ok)"
proof (induction rs arbitrary: data ys rule: rev_induct)
  case Nil
  then show ?case by (auto simp: AsData_default_def)
next
  case (snoc r rs)
  obtain data1 ys1 y where s: "serve_all AsData_default rs = (data1, ys1)" "serve data1 r = (data, y)" "ys = ys1 @ [y]"
    using snoc.prems by (auto simp: serve_all_append split: prod.splits)
  have len: "length ys1 = length rs" by (rule serve_all_length [OF s(1)])
  have "as_credentials data identity = Some pk \<longleftrightarrow> as_credentials data1 identity = Some pk \<or>
      (r = Req_Register \<lparr> rr_identity = identity, rr_public_key = pk \<rparr> \<and> y = Done Http_Ok)"
    using s(2) by (cases r) (auto simp: serve_def register_def lookup_def split: if_splits option.splits)
  then show ?case
    unfolding snoc.IH [OF s(1)] s(3)
    using ex_nth_snoc [OF len, of r "\<lambda>q y. q = Req_Register \<lparr> rr_identity = identity, rr_public_key = pk \<rparr> \<and> y = Done Http_Ok"] by simp
qed

lemma serve_panic:
  assumes "serve data r = (data', Panic p)"
  shows "as_poisoned data' \<and> (as_poisoned data \<or>
    (\<exists>b. r = Req_Register b \<and> \<not> is_char_boundary (rr_public_key b) (min 16 (length (rr_public_key b)))))"
  using assms by (auto simp: serve_def register_def lookup_def split: request.splits if_splits option.splits)

lemma poisoned_cause:
  "serve_all data rs = (data', ys) \<Longrightarrow> as_poisoned data' \<Longrightarrow> \<not> as_poisoned data \<Longrightarrow>
     \<exists>b. Req_Register b \<in> set rs \<and> \<not> is_char_boundary (rr_public_key b) (min 16 (length (rr_public_key b)))"
proof (induction rs arbitrary: data ys)
  case Nil
  then show ?case by simp
next
  case (Cons r rs)
  obtain data1 y ys1 where s: "serve data r = (data1, y)" "serve_all data1 rs = (data', ys1)"
    using Cons.prems(1) by (auto split: prod.splits)
  show ?case
  proof (cases "as_poisoned data1")
    case True
    then have "\<exists>p. y = Panic p" using s(1) Cons.prems(3)
      by (auto simp: serve_def register_def lookup_def split: request.splits if_splits option.splits)
    then show ?thesis using serve_panic s(1) Cons.prems(3) by fastforce
  next
    case False
    then show ?thesis using Cons.IH [OF s(2) Cons.prems(2)] by auto
  qed
qed

section \<open>The client against the service\<close>

text \<open>
  Base64 as RFC 4648 specifies it: decoding inverts encoding, and the alphabet is ASCII.
\<close>

definition base64_sound :: "base64 \<Rightarrow> bool" where
  "base64_sound B \<longleftrightarrow> (\<forall>x. b64_decode B (b64_encode B x) = Some x) \<and>
     (\<forall>x. \<forall>c\<in>set (b64_encode B x). (of_char c :: nat) < 128)"

text \<open>
  Identities that a URL path carries unchanged, and an HTTP stack that reaches the service: it runs
  the handler of the route, answers with the handler's status and body, and reports a transport
  error when the handler panicked.
\<close>

definition url_plain :: "string \<Rightarrow> bool" where
  "url_plain s \<longleftrightarrow> (\<forall>c\<in>set s. c \<in> set ''abcdefghijklmnopqrstuvwxyz0123456789-:'')"

definition http_serves :: "AsData http \<Rightarrow> string \<Rightarrow> bool" where
  "http_serves T as_url \<longleftrightarrow>
     (\<forall>w body. \<exists>e. http_post T w (as_url @ ''/register'') body =
        (case register w body of
           (w', Done Http_Ok) \<Rightarrow> (w', Inr 200)
         | (w', Done _) \<Rightarrow> (w', Inr 409)
         | (w', Panic _) \<Rightarrow> (w', Inl e))) \<and>
     (\<forall>w identity. url_plain identity \<longrightarrow> (\<exists>e. http_get T w (as_url @ ''/lookup/'' @ identity) =
        (case lookup w identity of
           (w', Done (Http_Json b)) \<Rightarrow> (w', Inr (200, Some b))
         | (w', Done _) \<Rightarrow> (w', Inr (404, None))
         | (w', Panic _) \<Rightarrow> (w', Inl e))))"

lemma lookup_as_served:
  assumes "http_serves T as_url" and "url_plain identity"
  shows "lookup_as B T as_url w identity = (w', Inr pk) \<longleftrightarrow> w' = w \<and> \<not> as_poisoned w \<and>
    (\<exists>s. as_credentials w identity = Some s \<and> b64_decode B s = Some pk)"
proof -
  obtain e where g: "http_get T w (as_url @ ''/lookup/'' @ identity) =
      (case lookup w identity of
         (w', Done (Http_Json b)) \<Rightarrow> (w', Inr (200, Some b))
       | (w', Done _) \<Rightarrow> (w', Inr (404, None))
       | (w', Panic _) \<Rightarrow> (w', Inl e))"
    using assms unfolding http_serves_def by blast
  show ?thesis unfolding lookup_as_def g lookup_def
    by (auto simp: is_success_def split: option.splits)
qed

lemma register_with_as_served:
  assumes "http_serves T as_url"
  shows "register_with_as B T as_url w identity public_key = (w', Inr ()) \<longleftrightarrow>
    register w \<lparr> rr_identity = identity, rr_public_key = b64_encode B public_key \<rparr> = (w', Done Http_Ok)"
proof -
  let ?b = "\<lparr> rr_identity = identity, rr_public_key = b64_encode B public_key \<rparr>"
  obtain e where p: "http_post T w (as_url @ ''/register'') ?b =
      (case register w ?b of
         (w', Done Http_Ok) \<Rightarrow> (w', Inr 200)
       | (w', Done _) \<Rightarrow> (w', Inr 409)
       | (w', Panic _) \<Rightarrow> (w', Inl e))"
    using assms unfolding http_serves_def by blast
  obtain w1 res where r: "register w ?b = (w1, res)" by fastforce
  show ?thesis unfolding register_with_as_def p r
    by (cases res) (auto simp: is_success_def split: HttpResponse.splits)
qed

lemma verify_members_iff:
  assumes "http_serves T as_url" and "\<forall>m\<in>set ms. url_plain (from_utf8_lossy (mb_credential m))" and "\<not> as_poisoned w"
  shows "verify_group_members B T as_url w ms my_identity = Done w' \<longleftrightarrow> w' = w \<and>
    (\<forall>m\<in>set ms. from_utf8_lossy (mb_credential m) \<noteq> my_identity \<longrightarrow>
      CHR '':'' \<in> set (from_utf8_lossy (mb_credential m)) \<and>
      (\<exists>s. as_credentials w (from_utf8_lossy (mb_credential m)) = Some s \<and> b64_decode B s = Some (mb_signature_key m)))"
  using assms(2)
proof (induction ms)
  case Nil
  then show ?case by auto
next
  case (Cons m ms)
  let ?id = "from_utf8_lossy (mb_credential m)"
  have ih: "verify_group_members B T as_url w ms my_identity = Done w' \<longleftrightarrow> w' = w \<and>
    (\<forall>m\<in>set ms. from_utf8_lossy (mb_credential m) \<noteq> my_identity \<longrightarrow>
      CHR '':'' \<in> set (from_utf8_lossy (mb_credential m)) \<and>
      (\<exists>s. as_credentials w (from_utf8_lossy (mb_credential m)) = Some s \<and> b64_decode B s = Some (mb_signature_key m)))"
    using Cons by simp
  have plain: "url_plain ?id" using Cons.prems by simp
  show ?case
  proof (cases "?id = my_identity")
    case True
    then show ?thesis using ih by (simp add: Let_def)
  next
    case False
    obtain w1 res where l: "lookup_as B T as_url w ?id = (w1, res)" by fastforce
    have k: "res = Inr pk \<and> w1 = w \<longleftrightarrow> (\<exists>s. as_credentials w ?id = Some s \<and> b64_decode B s = Some pk)" for pk
      using lookup_as_served [OF assms(1) plain, of B w w1 pk] lookup_as_served [OF assms(1) plain, of B w w pk] l assms(3)
      by auto
    have w1: "res = Inr pk \<Longrightarrow> w1 = w" for pk
      using lookup_as_served [OF assms(1) plain, of B w w1 pk] l by simp
    have c: "(\<exists>x. parse_credential_identity ?id = Done x) \<longleftrightarrow> CHR '':'' \<in> set ?id"
      using parse_credential_identity_panics [of ?id] by (cases "parse_credential_identity ?id") auto
    have "verify_group_members B T as_url w (m # ms) my_identity = Done w' \<longleftrightarrow>
        CHR '':'' \<in> set ?id \<and> res = Inr (mb_signature_key m) \<and> w1 = w \<and>
        verify_group_members B T as_url w ms my_identity = Done w'"
      using False c w1 by (auto simp: Let_def l outcome_simps)
    then show ?thesis using ih k [of "mb_signature_key m"] False by auto
  qed
qed

section \<open>Properties\<close>

text \<open>
  C20. The first registration of an identity is final: over any sequence of requests to a fresh service,
  a lookup answers with a key only if that key was registered for the identity before and the
  registration accepted; and once a registration was accepted, as long as the service does not
  panic, every later lookup of the identity answers with exactly that key and every later
  registration of the identity is refused.
\<close>

theorem registry_first_wins:
  assumes "serve_all AsData_default rs = (data, ys)" and "j < length rs"
  shows "(\<forall>identity b. rs ! j = Req_Lookup identity \<and> ys ! j = Done (Http_Json b) \<longrightarrow> lr_identity b = identity \<and>
      (\<exists>i<j. rs ! i = Req_Register \<lparr> rr_identity = identity, rr_public_key = lr_public_key b \<rparr> \<and> ys ! i = Done Http_Ok)) \<and>
    (\<forall>i<j. \<forall>identity pk. rs ! i = Req_Register \<lparr> rr_identity = identity, rr_public_key = pk \<rparr> \<and> ys ! i = Done Http_Ok \<and>
        (\<forall>p. ys ! j \<noteq> Panic p) \<longrightarrow>
      (rs ! j = Req_Lookup identity \<longrightarrow> ys ! j = Done (Http_Json \<lparr> lr_identity = identity, lr_public_key = pk \<rparr>)) \<and>
      (\<forall>pk'. rs ! j = Req_Register \<lparr> rr_identity = identity, rr_public_key = pk' \<rparr> \<longrightarrow>
        ys ! j = Done (Http_Conflict ''identity already registered'')))"
proof -
  obtain data1 data2 where d: "serve_all AsData_default (take j rs) = (data1, take j ys)"
    "serve data1 (rs ! j) = (data2, ys ! j)"
    by (rule serve_all_at [OF assms]) simp
  have "as_credentials data1 identity = Some pk \<longleftrightarrow>
      (\<exists>i<j. rs ! i = Req_Register \<lparr> rr_identity = identity, rr_public_key = pk \<rparr> \<and> ys ! i = Done Http_Ok)" for identity pk
    using registered_iff [OF d(1), of identity pk] assms(2) by (auto simp: min_def)
  note R = this [symmetric]
  show ?thesis
  proof (intro conjI allI impI)
    fix identity b assume "rs ! j = Req_Lookup identity \<and> ys ! j = Done (Http_Json b)"
    then have L: "lr_identity b = identity \<and> as_credentials data1 identity = Some (lr_public_key b)"
      using d(2) by (auto simp: serve_def lookup_def split: if_splits option.splits)
    then show "lr_identity b = identity" by simp
    show "\<exists>i<j. rs ! i = Req_Register \<lparr> rr_identity = identity, rr_public_key = lr_public_key b \<rparr> \<and> ys ! i = Done Http_Ok"
      unfolding R using L by simp
  next
    fix i identity pk pk'
    assume ij: "i < j" and acc: "rs ! i = Req_Register \<lparr> rr_identity = identity, rr_public_key = pk \<rparr> \<and> ys ! i = Done Http_Ok \<and>
        (\<forall>p. ys ! j \<noteq> Panic p)"
    then have c: "as_credentials data1 identity = Some pk" unfolding R [symmetric] by blast
    have np: "\<not> as_poisoned data1" using serve_poison [OF d(2)] acc by blast
    show "ys ! j = Done (Http_Json \<lparr> lr_identity = identity, lr_public_key = pk \<rparr>)" if "rs ! j = Req_Lookup identity"
      using d(2) that c np by (simp add: serve_def lookup_def)
    show "ys ! j = Done (Http_Conflict ''identity already registered'')"
      if "rs ! j = Req_Register \<lparr> rr_identity = identity, rr_public_key = pk' \<rparr>"
      using d(2) that c np by (simp add: serve_def register_def)
  qed
qed

theorem registry_first_wins_witness:
  "\<exists>data ys. serve_all AsData_default [Req_Register \<lparr> rr_identity = ''a:sender'', rr_public_key = ''QQ=='' \<rparr>,
      Req_Register \<lparr> rr_identity = ''a:sender'', rr_public_key = ''Rg=='' \<rparr>, Req_Lookup ''a:sender''] = (data, ys) \<and>
    ys ! 2 = Done (Http_Json \<lparr> lr_identity = ''a:sender'', lr_public_key = ''QQ=='' \<rparr>)"
proof -
  let ?rs = "[Req_Register \<lparr> rr_identity = ''a:sender'', rr_public_key = ''QQ=='' \<rparr>,
      Req_Register \<lparr> rr_identity = ''a:sender'', rr_public_key = ''Rg=='' \<rparr>, Req_Lookup ''a:sender'']"
  obtain data ys where r: "serve_all AsData_default ?rs = (data, ys)" by fastforce
  have f: "ys ! 0 = Done Http_Ok" "ys ! 2 \<noteq> Panic p" for p
    using r by (auto simp: serve_def register_def lookup_def AsData_default_def is_char_boundary_def)
  show ?thesis using r f registry_first_wins [OF r, of 2] by fastforce
qed

text \<open>
  C22. One malformed key disables the service for good: if request \<open>i\<close> panics then so does every later
  request, and some request up to \<open>i\<close> registered a key whose first 16 bytes end inside a
  character. In particular no request panics as long as all keys are ASCII.
\<close>

theorem service_poisoned_by_split_key:
  assumes "serve_all AsData_default rs = (data, ys)" and "i < length rs" and "ys ! i = Panic p"
  shows "(\<forall>j. i \<le> j \<and> j < length rs \<longrightarrow> (\<exists>q. ys ! j = Panic q)) \<and>
    (\<exists>b. Req_Register b \<in> set (take (Suc i) rs) \<and>
      \<not> is_char_boundary (rr_public_key b) (min 16 (length (rr_public_key b))) \<and>
      (\<exists>c\<in>set (rr_public_key b). 128 \<le> (of_char c :: nat)))"
proof -
  obtain data1 data2 where d: "serve_all AsData_default (take i rs) = (data1, take i ys)"
    "serve data1 (rs ! i) = (data2, ys ! i)" "serve_all data2 (drop (Suc i) rs) = (data, drop (Suc i) ys)"
    by (rule serve_all_at [OF assms(1,2)]) simp
  have P: "as_poisoned data2" using serve_panic d(2) assms(3) by auto
  have len: "length ys = length rs" by (rule serve_all_length [OF assms(1)])
  have "\<exists>q. ys ! j = Panic q" if "i \<le> j" "j < length rs" for j
  proof (cases "j = i")
    case False
    then have "ys ! j \<in> set (drop (Suc i) ys)"
      using that len by (auto simp: in_set_conv_nth intro!: exI [of _ "j - Suc i"])
    then show ?thesis using serve_all_poison [OF d(3) P] by blast
  qed (use assms(3) in simp)
  moreover have "serve_all AsData_default (take (Suc i) rs) = (data2, take (Suc i) ys)"
    using d(1,2) assms(2) len by (simp add: take_Suc_conv_app_nth serve_all_append)
  then obtain b where b: "Req_Register b \<in> set (take (Suc i) rs)"
    "\<not> is_char_boundary (rr_public_key b) (min 16 (length (rr_public_key b)))"
    using poisoned_cause [OF _ P] by (fastforce simp: AsData_default_def)
  moreover have "\<exists>c\<in>set (rr_public_key b). 128 \<le> (of_char c :: nat)"
    using b(2) by (intro bexI [of _ "rr_public_key b ! 16"])
      (auto simp: is_char_boundary_def is_continuation_def min_def split: if_splits)
  ultimately show ?thesis by blast
qed

theorem service_poisoned_by_split_key_witness:
  "\<exists>data ys. serve_all AsData_default [Req_Register \<lparr> rr_identity = ''a:sender'', rr_public_key = replicate 15 (CHR ''A'') @ [CHR 0xC3, CHR 0xA9] \<rparr>,
      Req_Lookup ''b:sender''] = (data, ys) \<and> (\<exists>q. ys ! 1 = Panic q)"
proof -
  let ?rs = "[Req_Register \<lparr> rr_identity = ''a:sender'', rr_public_key = replicate 15 (CHR ''A'') @ [CHR 0xC3, CHR 0xA9] \<rparr>,
      Req_Lookup ''b:sender'']"
  obtain data ys where r: "serve_all AsData_default ?rs = (data, ys)" by fastforce
  have "ys ! 0 = Panic OutOfBounds"
    using r by (auto simp: serve_def register_def lookup_def AsData_default_def is_char_boundary_def is_continuation_def nth_append)
  then show ?thesis using r service_poisoned_by_split_key [OF r, of 0] by auto
qed

text \<open>
  C21. The client's credential check is exact: against a running service and with identities a URL
  carries unchanged, the check of a group passes if and only if every member with an identity other
  than the client's own has an identity with a role and is registered with exactly the signature
  key the group tree holds for it.
\<close>

theorem members_verified_iff:
  assumes "http_serves T as_url" and "\<forall>m\<in>set ms. url_plain (from_utf8_lossy (mb_credential m))" and "\<not> as_poisoned w"
  shows "(\<exists>w'. verify_group_members B T as_url w ms my_identity = Done w') \<longleftrightarrow>
    (\<forall>m\<in>set ms. from_utf8_lossy (mb_credential m) \<noteq> my_identity \<longrightarrow>
      CHR '':'' \<in> set (from_utf8_lossy (mb_credential m)) \<and>
      (\<exists>s. as_credentials w (from_utf8_lossy (mb_credential m)) = Some s \<and> b64_decode B s = Some (mb_signature_key m)))"
  using verify_members_iff [OF assms, of B my_identity] by blast

text \<open>An encoding and an HTTP stack for examples: two letters per byte, and direct calls of the handlers.\<close>

fun sample_decode :: "string \<Rightarrow> bytes option" where
  "sample_decode [] = Some []"
| "sample_decode [c] = None"
| "sample_decode (c # d # cs) =
     map_option (Cons (of_nat ((of_char c - 65) * 16 + (of_char d - 65)))) (sample_decode cs)"

definition sample_base64 :: base64 where
  "sample_base64 = \<lparr> b64_encode = (\<lambda>xs. concat (map (\<lambda>b. [char_of (65 + unat b div 16), char_of (65 + unat b mod 16)]) xs)),
     b64_decode = sample_decode \<rparr>"

definition sample_http :: "AsData http" where
  "sample_http = \<lparr> http_post = (\<lambda>w url body.
       case register w body of (w', Done Http_Ok) \<Rightarrow> (w', Inr 200) | (w', Done _) \<Rightarrow> (w', Inr 409) | (w', Panic _) \<Rightarrow> (w', Inl [])),
     http_get = (\<lambda>w url. case lookup w (drop 10 url) of
         (w', Done (Http_Json b)) \<Rightarrow> (w', Inr (200, Some b)) | (w', Done _) \<Rightarrow> (w', Inr (404, None)) | (w', Panic _) \<Rightarrow> (w', Inl [])) \<rparr>"

lemma sample_http_serves: "http_serves sample_http ''as''"
  unfolding http_serves_def sample_http_def by (intro conjI allI impI exI [of _ "[]"]) simp_all

lemma sample_base64_sound: "base64_sound sample_base64"
proof -
  have d: "unat b div 16 < 16" for b :: u8 using unat_u8_less [of b] by (simp add: div_less_iff_less_mult)
  have "sample_decode (b64_encode sample_base64 xs) = Some xs" for xs
  proof (induction xs)
    case (Cons b xs)
    have "(of_nat (unat b div 16 * 16 + unat b mod 16) :: u8) = b" by simp
    then show ?case using Cons d [of b] by (simp add: sample_base64_def del: of_nat_add of_nat_mult)
  qed (simp add: sample_base64_def)
  moreover have "(of_char c :: nat) < 128" if c: "c \<in> set (b64_encode sample_base64 xs)" for c xs
  proof -
    obtain b where "c = char_of (65 + unat b div 16) \<or> c = char_of (65 + unat (b :: u8) mod 16)"
      using c by (auto simp: sample_base64_def)
    moreover have "unat b mod 16 < 16" by simp
    ultimately show ?thesis using d [of b] by auto
  qed
  ultimately show ?thesis by (simp add: base64_sound_def) (simp add: sample_base64_def)
qed

theorem members_verified_iff_witness:
  "\<exists>w'. verify_group_members sample_base64 sample_http ''as''
      (AsData_default\<lparr>as_credentials := [''a:sender'' \<mapsto> b64_encode sample_base64 [7]]\<rparr>)
      [\<lparr> mb_credential = ascii ''me:sender'', mb_signature_key = [1] \<rparr>,
       \<lparr> mb_credential = ascii ''a:sender'', mb_signature_key = [7] \<rparr>] ''me:sender'' = Done w'"
proof -
  have l: "from_utf8_lossy (ascii ''me:sender'') = ''me:sender''" "from_utf8_lossy (ascii ''a:sender'') = ''a:sender''"
    by (rule lossy_ascii, simp)+
  have "b64_decode sample_base64 (b64_encode sample_base64 [7]) = Some [7]"
    using sample_base64_sound by (simp only: base64_sound_def)
  then show ?thesis
    by (subst members_verified_iff [OF sample_http_serves]) (simp_all add: l url_plain_def AsData_default_def)
qed

text \<open>
  No rogue key passes: once a client has registered its key under an identity, then whatever
  requests the service handles afterwards, a group in which another key stands under that identity
  fails the credential check of every client that does not itself claim the identity.
\<close>

lemma registered_key_verified:
  assumes "http_serves T as_url" and "base64_sound B"
    and "register_with_as B T as_url w identity pk = (w1, Inr ())"
    and "serve_all w1 rs = (w2, ys)" and "\<not> as_poisoned w2"
    and "\<forall>m\<in>set ms. url_plain (from_utf8_lossy (mb_credential m))"
    and "m \<in> set ms" and "from_utf8_lossy (mb_credential m) = identity" and "identity \<noteq> my_identity"
    and "mb_signature_key m \<noteq> pk"
  shows "\<exists>p. verify_group_members B T as_url w2 ms my_identity = Panic p"
proof (rule ccontr)
  assume "\<nexists>p. verify_group_members B T as_url w2 ms my_identity = Panic p"
  then obtain w3 where v: "verify_group_members B T as_url w2 ms my_identity = Done w3" by (meson outcome.exhaust)
  have "as_credentials w1 identity = Some (b64_encode B pk)"
    using assms(3) unfolding register_with_as_served [OF assms(1)] by (auto simp: register_def split: if_splits)
  then have "as_credentials w2 identity = Some (b64_encode B pk)"
    using serve_all_grows [OF assms(4)] by (auto simp: map_le_def dom_def)
  moreover obtain s where "as_credentials w2 identity = Some s" "b64_decode B s = Some (mb_signature_key m)"
    using v assms(7-9) unfolding verify_members_iff [OF assms(1,6,5)] by blast
  ultimately show False using assms(2,10) by (simp add: base64_sound_def)
qed

end
