(* ===== verification/Template_Session.thy ===== *)
theory Template_Session
  imports Srtp_Session
begin

text \<open>
  Sessions with a template, as \<^verbatim>\<open>src/transport/srtp_session.rs\<close> creates them: the stream of an SSRC comes
  into being with its first packet, as a copy of the template that keeps using the template's key.
  The lemmas describe such a session while at most one SSRC uses it, by the SSRC and its replay
  database, and reduce both directions to the same database operations as for explicitly added
  streams.
\<close>

definition template_of :: "direction \<Rightarrow> bytes \<Rightarrow> bytes \<Rightarrow> srtp_stream" where
  "template_of d key salt =
     \<lparr> st_key = key, st_salt = salt, st_rdbx = srtp_rdbx_init 128, st_direction = d,
       st_allow_repeat_tx = False, st_shared = False \<rparr>"

definition template_session :: "direction \<Rightarrow> bytes \<Rightarrow> bytes \<Rightarrow> (u32 \<times> rdbx) option \<Rightarrow> srtp_session" where
  "template_session d key salt x =
     \<lparr> ss_streams = (case x of None \<Rightarrow> []
         | Some (ssrc, r) \<Rightarrow> [(ssrc, (template_of d key salt)\<lparr>st_rdbx := r, st_shared := True\<rparr>)]),
       ss_template = Some (template_of d key salt) \<rparr>"

definition stream_db :: "(u32 \<times> rdbx) option \<Rightarrow> rdbx" where
  "stream_db x = (case x of None \<Rightarrow> srtp_rdbx_init 128 | Some (ssrc, r) \<Rightarrow> r)"

definition used_by :: "u32 \<Rightarrow> (u32 \<times> rdbx) option \<Rightarrow> bool" where
  "used_by ssrc x \<longleftrightarrow> (case x of None \<Rightarrow> True | Some (ssrc', r) \<Rightarrow> ssrc' = ssrc)"

lemma stream_db_simps [simp]: "stream_db None = srtp_rdbx_init 128" "stream_db (Some (ssrc, r)) = r"
  by (simp_all add: stream_db_def)

lemma used_by_simps [simp]: "used_by ssrc None" "used_by ssrc (Some (ssrc', r)) \<longleftrightarrow> ssrc' = ssrc"
  by (simp_all add: used_by_def)

lemma create_template_sessions:
  assumes "28 \<le> length key_material"
  shows "create_sender_session C key_material = Done (template_session dir_srtp_sender
      (fst (srtp_kdf C (take 28 key_material))) (snd (srtp_kdf C (take 28 key_material))) None)"
    and "create_receiver_session C key_material = Done (template_session dir_srtp_receiver
      (fst (srtp_kdf C (take 28 key_material))) (snd (srtp_kdf C (take 28 key_material))) None)"
  using assms
  by (simp_all add: create_sender_session_def create_receiver_session_def Session_with_outbound_template_def
      Session_with_inbound_template_def Session_with_template_def StreamPolicy_sys_policy_def srtp_stream_init_def
      Session_new_def template_session_def template_of_def)

lemma rdbx_init_first:
  "rdbx_est (srtp_rdbx_init n) q = unat q"
  "\<not> rdbx_blocked (srtp_rdbx_init 128) j"
  "srtp_rdbx_init (length (rdbx_bits (srtp_rdbx_init 128))) = srtp_rdbx_init 128"
  "srtp_rdbx_add_index (srtp_rdbx_init 128) (int j) = rdbx_add (srtp_rdbx_init 128) j"
proof -
  show "rdbx_est (srtp_rdbx_init n) q = unat q"
    by (simp add: rdbx_est_def srtp_rdbx_estimate_index_def srtp_rdbx_init_def)
  show "\<not> rdbx_blocked (srtp_rdbx_init 128) j" unfolding rdbx_blocked_iff by (simp add: srtp_rdbx_init_def)
  show "srtp_rdbx_init (length (rdbx_bits (srtp_rdbx_init 128))) = srtp_rdbx_init 128"
    "srtp_rdbx_add_index (srtp_rdbx_init 128) (int j) = rdbx_add (srtp_rdbx_init 128) j"
    by (simp_all add: srtp_rdbx_init_def rdbx_add_def)
qed

lemma template_protect:
  assumes p: "plain_header pkt" "length pkt < 2 ^ 31" and x: "used_by (header_ssrc pkt) x"
  shows "SessionRef_protect C (template_session dir_srtp_sender key salt x) pkt =
    (let r = stream_db x in
     if rdbx_blocked r (rdbx_pos r (header_seq pkt))
     then (template_session dir_srtp_sender key salt (Some (header_ssrc pkt, r)), [], Inl (replay_error r (header_seq pkt)))
     else (template_session dir_srtp_sender key salt (Some (header_ssrc pkt, rdbx_add r (rdbx_pos r (header_seq pkt)))),
           seal_packet C key salt (rdbx_est r (header_seq pkt)) pkt, Inr ()))"
proof -
  obtain est delta where e: "srtp_rdbx_estimate_index (stream_db x) (header_seq pkt) = (est, delta)"
    by (cases "srtp_rdbx_estimate_index (stream_db x) (header_seq pkt)")
  have v: "srtp_validate_rtp_header pkt = None" and o: "enc_start pkt = 12" and l: "\<not> length pkt < 12"
    using p(1) by (simp_all add: plain_header_valid plain_header_enc_start plain_header_def)
  have "srtp_rdbx_check (stream_db x) delta = rdbx_ok \<longleftrightarrow> \<not> rdbx_blocked (stream_db x) (rdbx_pos (stream_db x) (header_seq pkt))"
    "srtp_rdbx_add_index (stream_db x) delta = rdbx_add (stream_db x) (rdbx_pos (stream_db x) (header_seq pkt))"
    by (rule rdbx_step [OF e])+
  then show ?thesis
    using p(2) e x
    by (cases x; cases "srtp_rdbx_check (stream_db x) delta")
      (auto simp: SessionRef_protect_def SessionRef_overwrite_def srtp_protect_def v o l Let_def rdbx_init_first(3)
        srtp_get_stream_def template_session_def template_of_def srtp_protect_aead_def stream_key_def put_stream_def
        srtp_stream_clone_def srtp_stream_list_insert_def seal_packet_def rdbx_est_def replay_error_def)
qed

lemma template_unprotect:
  assumes v: "srtp_validate_rtp_header pkt = None" and l: "length pkt < 2 ^ 31" and x: "used_by (header_ssrc pkt) x"
  shows "SessionRef_unprotect C (template_session dir_srtp_receiver key salt x) pkt =
    (let r = stream_db x in
     if rdbx_blocked r (rdbx_pos r (header_seq pkt))
     then (template_session dir_srtp_receiver key salt x, [], Inl (replay_error r (header_seq pkt)))
     else case srtp_unprotect_aead C key (template_of dir_srtp_receiver key salt) (rdbx_est r (header_seq pkt)) pkt of
       Inl e \<Rightarrow> (template_session dir_srtp_receiver key salt x, [], Inl e)
     | Inr out \<Rightarrow> (template_session dir_srtp_receiver key salt
         (Some (header_ssrc pkt, rdbx_add r (rdbx_pos r (header_seq pkt)))), out, Inr ()))"
proof (cases x)
  case None
  then show ?thesis
    using l rdbx_init_first(4) [of "unat (header_seq pkt)"]
    by (auto simp: SessionRef_unprotect_def SessionRef_overwrite_def srtp_unprotect_def v Let_def srtp_get_stream_def
        template_session_def template_of_def srtp_stream_clone_def srtp_stream_list_insert_def rdbx_init_first
        rdbx_pos_first split: sum.splits)
next
  case (Some y)
  then obtain r where y: "x = Some (header_ssrc pkt, r)" using x by (cases y) auto
  obtain est delta where e: "srtp_rdbx_estimate_index r (header_seq pkt) = (est, delta)"
    by (cases "srtp_rdbx_estimate_index r (header_seq pkt)")
  note u = unprotect_aead_salt [of "(template_of dir_srtp_receiver key salt)\<lparr>st_rdbx := r, st_shared := True\<rparr>"
      "template_of dir_srtp_receiver key salt"]
  show ?thesis
    using l e rdbx_step [OF e] u
    by (cases "srtp_rdbx_check r delta")
      (auto simp: y SessionRef_unprotect_def SessionRef_overwrite_def srtp_unprotect_def v Let_def srtp_get_stream_def
        template_session_def template_of_def stream_key_def put_stream_def rdbx_est_def replay_error_def split: sum.splits)
qed

lemma template_unprotect_seal:
  assumes C: "crypto_sound C" and l: "length key = 16" "length salt = 12"
    and p: "plain_header pkt" "length pkt + 16 < 2 ^ 31" and x: "used_by (header_ssrc pkt) x"
    and i: "rdbx_est (stream_db x) (header_seq pkt) = i"
    and f: "\<not> rdbx_blocked (stream_db x) (rdbx_pos (stream_db x) (header_seq pkt))"
  shows "SessionRef_unprotect C (template_session dir_srtp_receiver key salt x) (seal_packet C key salt i pkt) =
    (template_session dir_srtp_receiver key salt
       (Some (header_ssrc pkt, rdbx_add (stream_db x) (rdbx_pos (stream_db x) (header_seq pkt)))), pkt, Inr ())"
proof -
  define S where "S = seal_packet C key salt i pkt"
  have len: "length S = length pkt + 16" using length_seal_packet [OF C l p(1)] by (simp add: S_def)
  note h = seal_packet_header [OF p(1), of C key salt i, folded S_def]
  have d: "drop 12 S = gcm_seal C key (srtp_calc_aead_iv salt (header_ssrc pkt) i) (take 12 pkt) (drop 12 pkt)"
    using p(1) by (simp add: S_def seal_packet_def plain_header_def)
  have "gcm_open C key (srtp_calc_aead_iv salt (header_ssrc pkt) i) (take 12 S) (drop 12 S) = Some (drop 12 pkt)"
    unfolding h(1) d by (rule crypto_soundD(1) [OF C l(1)]) (simp add: l)
  moreover have "28 \<le> length S" "length S < 2 ^ 31" using len p by (simp_all add: plain_header_def)
  ultimately have "srtp_unprotect_aead C key (template_of dir_srtp_receiver key salt) i S = Inr pkt"
    using unprotect_aead_plain [OF h(2), of C key "template_of dir_srtp_receiver key salt" i]
    by (simp add: template_of_def h(1,5))
  then show ?thesis
    using template_unprotect [OF plain_header_valid [OF h(2)], of x C key salt] len p x f
    unfolding S_def [symmetric] by (simp add: h(3,5) i Let_def)
qed

lemma template_unprotect_blocked:
  assumes p: "srtp_validate_rtp_header pkt = None" "length pkt < 2 ^ 31" and x: "used_by (header_ssrc pkt) x"
    and b: "rdbx_blocked (stream_db x) (rdbx_pos (stream_db x) (header_seq pkt))"
  shows "SessionRef_unprotect C (template_session dir_srtp_receiver key salt x) pkt =
    (template_session dir_srtp_receiver key salt x, [], Inl (replay_error (stream_db x) (header_seq pkt)))"
  using template_unprotect [OF p x] b by simp

end
