(* ===== verification/Demo_Client.thy ===== *)
theory Demo_Client
  imports Auth_Service Template_Session Rekeying
begin

text \<open>
  The media part of the demo client, \<^verbatim>\<open>demo/safecast-client/src/main.rs\<close>: identities, key export for the
  senders of a group, sending and receiving. What a socket delivers is a list of events, one per
  turn of the receive loop; the sockets are added in theory
  \<open>Client_Main\<close>, and the pauses between packets are left out. A \<^verbatim>\<open>String\<close> is
  the list of its bytes, as in theory \<open>Auth_Service\<close>.

  Shown here: what a sender emits, that receivers in the same group epoch get every packet whose
  datagram arrives, once, from any number of senders at a time, and which datagrams make a
  receiver panic.
\<close>

section \<open>Identities\<close>

datatype Mode = Mode_Creator | Mode_Sender | Mode_Receiver

text \<open>Decimal digits, as \<^verbatim>\<open>format!\<close> prints an unsigned integer.\<close>

fun dec_string :: "nat \<Rightarrow> string" where
  "dec_string n = (if n < 10 then [char_of (48 + n)] else dec_string (n div 10) @ [char_of (48 + n mod 10)])"

declare dec_string.simps [simp del]

definition generate_identity :: "nat \<Rightarrow> Mode \<Rightarrow> string" where
  "generate_identity pid mode =
     (case mode of
        Mode_Creator \<Rightarrow> ''creator-'' @ dec_string pid @ '':creator''
      | Mode_Sender \<Rightarrow> ''sender-'' @ dec_string pid @ '':sender''
      | Mode_Receiver \<Rightarrow> ''receiver-'' @ dec_string pid @ '':receiver'')"

section \<open>Sending\<close>

definition demo_packet :: "string \<Rightarrow> u32 \<Rightarrow> u32 \<Rightarrow> RtpPacket" where
  "demo_packet label ssrc i =
     \<lparr> rtp_payload_type = 111, rtp_sequence_number = of_nat (unat i), rtp_timestamp = i * 960, rtp_ssrc = ssrc,
       rtp_payload = ascii (''Hello from '' @ label @ '' - audio frame '' @ dec_string (unat i)) \<rparr>"

definition send_one ::
  "srtp_crypto \<Rightarrow> string \<Rightarrow> u32 \<Rightarrow> srtp_session \<Rightarrow> u32 \<Rightarrow> (srtp_session \<times> bytes) outcome" where
  "send_one C label ssrc session i =
     obind (checked_mul32 i 960) (\<lambda>_.
     let pkt = demo_packet label ssrc i; rtp_bytes = RtpPacket_to_bytes pkt in
     case SessionRef_protect C session rtp_bytes of (session', buf, res) \<Rightarrow>
       obind (expect_ok res) (\<lambda>_. Done (session', buf)))"

definition send_srtp :: "srtp_crypto \<Rightarrow> string \<Rightarrow> u32 \<Rightarrow> bytes \<Rightarrow> u32 \<Rightarrow> bytes list outcome" where
  "send_srtp C label ssrc key_material num_packets =
     obind (create_sender_session C key_material) (\<lambda>session.
     obind (run_steps (send_one C label ssrc) session (map of_nat [1..<unat num_packets + 1])) (\<lambda>(session', sent).
     Done sent))"

section \<open>Receiving\<close>

datatype recv_event = Datagram bytes | Recv_Error | Recv_Timeout

text \<open>How the loop ended, or that it waits for the next event.\<close>

datatype recv_end = Recv_All | Recv_Failed | Recv_TimedOut | Recv_Waiting

fun recv_srtp ::
  "srtp_crypto \<Rightarrow> (u32 \<rightharpoonup> srtp_session) \<Rightarrow> u32 \<Rightarrow> u32 \<Rightarrow> RtpPacket list \<Rightarrow> recv_event list \<Rightarrow>
     ((u32 \<rightharpoonup> srtp_session) \<times> u32 \<times> RtpPacket list \<times> recv_end) outcome" where
  "recv_srtp C sessions received expected_packets shown [] =
     Done (sessions, received, shown, if received < expected_packets then Recv_Waiting else Recv_All)"
| "recv_srtp C sessions received expected_packets shown (e # es) =
     (if \<not> received < expected_packets then Done (sessions, received, shown, Recv_All)
      else case e of
        Recv_Error \<Rightarrow> Done (sessions, received, shown, Recv_Failed)
      | Recv_Timeout \<Rightarrow> Done (sessions, received, shown, Recv_TimedOut)
      | Datagram d \<Rightarrow>
          (let pkt_buf = take 2048 d in
           if length pkt_buf < 12 then recv_srtp C sessions received expected_packets shown es
           else (let ssrc = header_ssrc pkt_buf in
             case sessions ssrc of
               None \<Rightarrow> recv_srtp C sessions received expected_packets shown es
             | Some session \<Rightarrow>
                 (case SessionRef_unprotect C session pkt_buf of
                    (session', buf, Inl err) \<Rightarrow>
                      if err = REPLAY_FAIL
                      then recv_srtp C (sessions(ssrc \<mapsto> session')) received expected_packets shown es
                      else Panic ExplicitPanic
                  | (session', buf, Inr _) \<Rightarrow>
                      obind (expect (RtpPacket_from_bytes buf)) (\<lambda>rtp.
                      recv_srtp C (sessions(ssrc \<mapsto> session')) (received + 1) expected_packets (shown @ [rtp]) es)))))"

section \<open>Key export and the two media roles\<close>

fun member_roles :: "Member list \<Rightarrow> (string \<times> string) list outcome" where
  "member_roles [] = Done []"
| "member_roles (m # ms) =
     (let id = from_utf8_lossy (mb_credential m) in
      obind (parse_credential_identity id) (\<lambda>(label, role).
      obind (member_roles ms) (\<lambda>rest. Done ((id, role) # rest))))"

definition sender_identities :: "(string \<times> string) list \<Rightarrow> string list" where
  "sender_identities all_members = map fst (filter (\<lambda>(id, r). r = ''sender'') all_members)"

fun receiver_sessions ::
  "srtp_crypto \<Rightarrow> ('g, 'c, 'p, 's) mls \<Rightarrow> (string \<Rightarrow> nat) \<Rightarrow> 'g \<Rightarrow> (u32 \<rightharpoonup> srtp_session) \<Rightarrow> string list \<Rightarrow>
     (u32 \<rightharpoonup> srtp_session) outcome" where
  "receiver_sessions C M default_hash grp sessions [] = Done sessions"
| "receiver_sessions C M default_hash grp sessions (sender_id # ids) =
     (let sender_ssrc = ssrc_from_identity default_hash sender_id in
      obind (export_srtp_keys M grp sender_ssrc) (\<lambda>(key_material, mk, ms).
      obind (parse_credential_identity sender_id) (\<lambda>(sender_label, role).
      obind (create_receiver_session C key_material) (\<lambda>session.
      receiver_sessions C M default_hash grp (sessions(sender_ssrc \<mapsto> session)) ids))))"

definition main_sender ::
  "srtp_crypto \<Rightarrow> ('g, 'c, 'p, 's) mls \<Rightarrow> (string \<Rightarrow> nat) \<Rightarrow> 'g \<Rightarrow> Member list \<Rightarrow> string \<Rightarrow> u32 \<Rightarrow> bytes list outcome" where
  "main_sender C M default_hash grp members identity packets =
     obind (parse_credential_identity identity) (\<lambda>(label, role).
     obind (member_roles members) (\<lambda>all_members.
     let my_ssrc = ssrc_from_identity default_hash identity in
     obind (export_srtp_keys M grp my_ssrc) (\<lambda>(key_material, mk, ms).
     send_srtp C label my_ssrc key_material packets)))"

definition main_receiver ::
  "srtp_crypto \<Rightarrow> ('g, 'c, 'p, 's) mls \<Rightarrow> (string \<Rightarrow> nat) \<Rightarrow> 'g \<Rightarrow> Member list \<Rightarrow> u32 \<Rightarrow> recv_event list \<Rightarrow>
     ((u32 \<rightharpoonup> srtp_session) \<times> u32 \<times> RtpPacket list \<times> recv_end) outcome" where
  "main_receiver C M default_hash grp members packets events =
     obind (member_roles members) (\<lambda>all_members.
     let senders = sender_identities all_members in
     obind (receiver_sessions C M default_hash grp Map.empty senders) (\<lambda>sessions.
     obind (checked_mul32 (of_nat (length senders)) packets) (\<lambda>expected_packets.
     recv_srtp C sessions 0 expected_packets [] events)))"

section \<open>Printed numbers and identities\<close>

lemma dec_string_digits: "\<forall>c\<in>set (dec_string n). c \<in> set ''0123456789''"
proof (induction n rule: dec_string.induct)
  case (1 n)
  have "char_of (48 + k) \<in> set ''0123456789''" if "k < 10" for k :: nat
  proof -
    have "k = 0 \<or> k = 1 \<or> k = 2 \<or> k = 3 \<or> k = 4 \<or> k = 5 \<or> k = 6 \<or> k = 7 \<or> k = 8 \<or> k = 9"
      using that by presburger
    then show ?thesis by (elim disjE) (simp_all add: char_of_def bit_0)
  qed
  then show ?case using 1 by (subst dec_string.simps) auto
qed

lemma length_dec_string: "length (dec_string n) \<le> k" if "n < 10 ^ k" "0 < k"
  using that
proof (induction n arbitrary: k rule: dec_string.induct)
  case (1 n)
  show ?case
  proof (cases "n < 10")
    case True
    then show ?thesis using 1(3) by (subst dec_string.simps) simp
  next
    case False
    then obtain k' where k: "k = Suc k'" "0 < k'" using 1(2,3) by (cases k; cases "k - 1") auto
    then have "n div 10 < 10 ^ k'" using 1(2) by (simp add: less_mult_imp_div_less mult.commute)
    then show ?thesis using 1(1) [OF False _ k(2)] False k by (subst dec_string.simps) simp
  qed
qed

lemma generate_identity_parses:
  "parse_credential_identity (generate_identity pid mode) =
     (case mode of
        Mode_Creator \<Rightarrow> Done (''creator-'' @ dec_string pid, ''creator'')
      | Mode_Sender \<Rightarrow> Done (''sender-'' @ dec_string pid, ''sender'')
      | Mode_Receiver \<Rightarrow> Done (''receiver-'' @ dec_string pid, ''receiver''))"
  by (cases mode) (simp_all add: generate_identity_def parse_credential_identity_cases)

lemma generate_identity_plain: "url_plain (generate_identity pid mode)"
proof -
  define U where "U = ''abcdefghijklmnopqrstuvwxyz0123456789-:''"
  have p: "url_plain s \<longleftrightarrow> set s \<subseteq> set U" for s unfolding url_plain_def U_def by blast
  have "set ''0123456789'' \<subseteq> set U" by (simp add: U_def)
  then have d: "set (dec_string pid) \<subseteq> set U" using dec_string_digits [of pid] by blast
  have "set (generate_identity pid mode) \<subseteq> set ''creatornvidsp-:'' \<union> set (dec_string pid)"
    by (cases mode) (simp_all add: generate_identity_def subset_iff)
  moreover have "set ''creatornvidsp-:'' \<subseteq> set U" by (simp add: U_def)
  ultimately show ?thesis unfolding p using d by blast
qed

section \<open>What a sender emits\<close>

definition demo_bytes :: "string \<Rightarrow> u32 \<Rightarrow> nat \<Rightarrow> bytes" where
  "demo_bytes label ssrc i = RtpPacket_to_bytes (demo_packet label ssrc (of_nat i))"

lemma demo_bytes_facts:
  assumes "i < 2 ^ 32"
  shows "plain_header (demo_bytes label ssrc i)" "header_seq (demo_bytes label ssrc i) = of_nat i"
    "header_ssrc (demo_bytes label ssrc i) = ssrc" "length (demo_bytes label ssrc i) \<le> length label + 48"
    "12 \<le> length (demo_bytes label ssrc i)"
    "RtpPacket_from_bytes (demo_bytes label ssrc i) = Some (demo_packet label ssrc (of_nat i))"
proof -
  have u: "unat (of_nat i :: u32) = i" by (rule unat_of_nat_u32 [OF assms])
  show "plain_header (demo_bytes label ssrc i)" unfolding demo_bytes_def by (rule to_bytes_plain_header)
  then show "12 \<le> length (demo_bytes label ssrc i)" by (simp add: plain_header_def)
  show "header_seq (demo_bytes label ssrc i) = of_nat i" "header_ssrc (demo_bytes label ssrc i) = ssrc"
    unfolding demo_bytes_def to_bytes_header by (simp_all add: rtp_header_fields demo_packet_def u)
  have "length (dec_string i) \<le> 10" using assms by (intro length_dec_string) simp_all
  then show "length (demo_bytes label ssrc i) \<le> length label + 48"
    unfolding demo_bytes_def to_bytes_header by (simp add: demo_packet_def u ascii_def)
  show "RtpPacket_from_bytes (demo_bytes label ssrc i) = Some (demo_packet label ssrc (of_nat i))"
    unfolding demo_bytes_def using from_to_bytes [of "demo_packet label ssrc (of_nat i)"] by (simp add: demo_packet_def)
qed

lemma send_one_sealed:
  assumes "(k + 1) * 960 < 2 ^ 32" and "length label < 2 ^ 30" and "used_by ssrc x" and "stream_db x = sent_rdbx 1 k"
  shows "send_one C label ssrc (template_session dir_srtp_sender key salt x) (of_nat (k + 1)) =
    Done (template_session dir_srtp_sender key salt (Some (ssrc, sent_rdbx 1 (Suc k))),
      seal_packet C key salt (k + 1) (demo_bytes label ssrc (k + 1)))"
proof -
  define i where "i = k + 1"
  have k: "k + 1 < 2 ^ 32" using assms(1) by simp
  note D = demo_bytes_facts [OF k [folded i_def], of label ssrc]
  have t: "checked_mul32 (of_nat i) 960 = Done (of_nat i * 960)"
    using assms(1) unat_of_nat_u32 [OF k] by (simp add: checked_mul32_def i_def)
  have l: "length (demo_bytes label ssrc i) < 2 ^ 31" using D(4) assms(2) by simp
  have x: "used_by (header_ssrc (demo_bytes label ssrc i)) x" using assms(3) D(3) by simp
  have "rdbx_pos (sent_rdbx 1 k) (of_nat i) = i" "\<not> rdbx_blocked (sent_rdbx 1 k) i"
    "rdbx_est (sent_rdbx 1 k) (of_nat i) = i" "rdbx_add (sent_rdbx 1 k) i = sent_rdbx 1 (Suc k)"
    using sent_rdbx_next(3,4) [of 1 k] sent_rdbx_est [of 1 k] k by (simp_all add: i_def add.commute)
  then have "SessionRef_protect C (template_session dir_srtp_sender key salt x) (demo_bytes label ssrc i) =
      (template_session dir_srtp_sender key salt (Some (ssrc, sent_rdbx 1 (Suc k))),
       seal_packet C key salt i (demo_bytes label ssrc i), Inr ())"
    unfolding template_protect [OF D(1) l x, of C key salt] assms(4) D(2,3) Let_def by simp
  then show ?thesis using t unfolding send_one_def demo_bytes_def Let_def i_def by simp
qed

text \<open>The timestamp of packet 4473925 leaves its type: a sender asked for that many panics there.\<close>

lemma send_one_overflow: "4473924 < unat i \<Longrightarrow> send_one C label ssrc session i = Panic ArithOverflow"
  by (simp add: send_one_def checked_mul32_def)

lemma send_run:
  "(k + n) * 960 < 2 ^ 32 \<Longrightarrow> length label < 2 ^ 30 \<Longrightarrow> used_by ssrc x \<Longrightarrow> stream_db x = sent_rdbx 1 k \<Longrightarrow>
   \<exists>s. run_steps (send_one C label ssrc) (template_session dir_srtp_sender key salt x) (map of_nat [k + 1..<k + n + 1]) =
     Done (s, map (\<lambda>i. seal_packet C key salt i (demo_bytes label ssrc i)) [k + 1..<k + n + 1])"
proof (induction n arbitrary: k x)
  case 0
  then show ?case by simp
next
  case (Suc n)
  have l: "[k + 1..<k + Suc n + 1] = (k + 1) # [Suc k + 1..<Suc k + n + 1]" by (subst upt_conv_Cons) simp_all
  have "send_one C label ssrc (template_session dir_srtp_sender key salt x) (of_nat (k + 1)) =
    Done (template_session dir_srtp_sender key salt (Some (ssrc, sent_rdbx 1 (Suc k))),
      seal_packet C key salt (k + 1) (demo_bytes label ssrc (k + 1)))"
    using Suc.prems by (intro send_one_sealed) simp_all
  moreover obtain s where "run_steps (send_one C label ssrc)
      (template_session dir_srtp_sender key salt (Some (ssrc, sent_rdbx 1 (Suc k)))) (map of_nat [Suc k + 1..<Suc k + n + 1]) =
     Done (s, map (\<lambda>i. seal_packet C key salt i (demo_bytes label ssrc i)) [Suc k + 1..<Suc k + n + 1])"
    using Suc.IH [of "Suc k" "Some (ssrc, sent_rdbx 1 (Suc k))"] Suc.prems by auto
  ultimately show ?case unfolding l by (simp del: upt_Suc of_nat_add of_nat_Suc)
qed

lemma send_srtp_sealed:
  assumes "28 \<le> length key_material" and "length label < 2 ^ 30" and "unat num_packets * 960 < 2 ^ 32"
  shows "send_srtp C label ssrc key_material num_packets =
    Done (map (\<lambda>i. seal_packet C (fst (srtp_kdf C (take 28 key_material))) (snd (srtp_kdf C (take 28 key_material))) i
      (demo_bytes label ssrc i)) [1..<unat num_packets + 1])"
proof -
  let ?key = "fst (srtp_kdf C (take 28 key_material))" and ?salt = "snd (srtp_kdf C (take 28 key_material))"
  obtain s where "run_steps (send_one C label ssrc) (template_session dir_srtp_sender ?key ?salt None)
      (map of_nat [1..<unat num_packets + 1]) =
    Done (s, map (\<lambda>i. seal_packet C ?key ?salt i (demo_bytes label ssrc i)) [1..<unat num_packets + 1])"
    using send_run [of 0 "unat num_packets" label ssrc None C ?key ?salt] assms(2,3) by auto
  then show ?thesis by (simp add: send_srtp_def create_template_sessions [OF assms(1)] del: upt_Suc)
qed

section \<open>What a receiver shows\<close>

text \<open>
  One sender's stream at a receiver: the session after the packets with numbers \<open>seen\<close> arrived, the
  highest of which is \<open>hi\<close>.
\<close>

definition demo_stream :: "bytes \<Rightarrow> bytes \<Rightarrow> u32 \<Rightarrow> nat option \<Rightarrow> nat set \<Rightarrow> srtp_session \<Rightarrow> bool" where
  "demo_stream key salt ssrc hi seen session \<longleftrightarrow>
     (\<exists>x. session = template_session dir_srtp_receiver key salt x \<and> used_by ssrc x \<and>
        (hi = None \<longrightarrow> seen = {}) \<and> rdbx_wf (stream_db x) \<and> length (rdbx_bits (stream_db x)) = 128 \<and>
        rdbx_index (stream_db x) = (case hi of None \<Rightarrow> 0 | Some h \<Rightarrow> h) \<and> rdbx_index (stream_db x) < 2 ^ 32 \<and>
        (\<forall>j. rdbx_blocked (stream_db x) j \<longleftrightarrow> j \<in> seen \<or> (\<exists>h. hi = Some h \<and> j \<le> h \<and> 128 \<le> h - j)))"

text \<open>The next packet is close enough to the highest one, and not too late for the replay window.\<close>

definition in_reach :: "nat option \<Rightarrow> nat \<Rightarrow> bool" where
  "in_reach hi i \<longleftrightarrow> (case hi of None \<Rightarrow> i < 65536 | Some h \<Rightarrow> near h i \<and> h < i + 128)"

lemma replay_fail_in_window:
  assumes "rdbx_blocked r (rdbx_pos r q)" and "rdbx_index r < rdbx_pos r q + length (rdbx_bits r)"
  shows "replay_error r q = REPLAY_FAIL"
proof -
  obtain est delta where e: "srtp_rdbx_estimate_index r q = (est, delta)" by (cases "srtp_rdbx_estimate_index r q")
  have d: "int (rdbx_index r) + delta = int (rdbx_pos r q)"
    using rdbx_estimate_eq(1) [OF e] by (simp add: rdbx_pos_eq)
  have "srtp_rdbx_check r delta \<noteq> rdbx_replay_old"
    using assms(2) d by (auto simp: srtp_rdbx_check_def)
  then show ?thesis by (simp add: replay_error_def e)
qed

lemma replay_old_below_window:
  assumes "rdbx_pos r q \<le> rdbx_index r" and "length (rdbx_bits r) \<le> rdbx_index r - rdbx_pos r q" and "rdbx_wf r"
  shows "rdbx_blocked r (rdbx_pos r q) \<and> replay_error r q = REPLAY_OLD"
proof -
  obtain est delta where e: "srtp_rdbx_estimate_index r q = (est, delta)" by (cases "srtp_rdbx_estimate_index r q")
  have d: "int (rdbx_index r) + delta = int (rdbx_pos r q)"
    using rdbx_estimate_eq(1) [OF e] by (simp add: rdbx_pos_eq)
  have n: "0 < length (rdbx_bits r)" using assms(3) by (simp add: rdbx_wf_def)
  have "srtp_rdbx_check r delta = rdbx_replay_old"
    using assms(1,2) d n by (auto simp: srtp_rdbx_check_def)
  then show ?thesis using assms by (simp add: replay_error_def e rdbx_blocked_iff)
qed

lemma demo_stream_step:
  assumes rel: "demo_stream key salt ssrc hi seen session" and C: "crypto_sound C"
    and l: "length key = 16" "length salt = 12" and i: "i < 2 ^ 32" and r: "in_reach hi i" and lab: "length label < 2 ^ 30"
  shows "\<exists>session'. SessionRef_unprotect C session (seal_packet C key salt i (demo_bytes label ssrc i)) =
      (if i \<in> seen then (session', [], Inl REPLAY_FAIL) else (session', demo_bytes label ssrc i, Inr ())) \<and>
    demo_stream key salt ssrc (Some (case hi of None \<Rightarrow> i | Some h \<Rightarrow> max h i)) (insert i seen) session'"
proof -
  obtain x where s: "session = template_session dir_srtp_receiver key salt x" and x: "used_by ssrc x"
    and e: "hi = None \<Longrightarrow> seen = {}" and w: "rdbx_wf (stream_db x)" and W: "length (rdbx_bits (stream_db x)) = 128"
    and idx: "rdbx_index (stream_db x) = (case hi of None \<Rightarrow> 0 | Some h \<Rightarrow> h)" "rdbx_index (stream_db x) < 2 ^ 32"
    and bl: "\<And>j. rdbx_blocked (stream_db x) j \<longleftrightarrow> j \<in> seen \<or> (\<exists>h. hi = Some h \<and> j \<le> h \<and> 128 \<le> h - j)"
    using rel unfolding demo_stream_def by blast
  note D = demo_bytes_facts [OF i, of label ssrc]
  let ?r = "stream_db x"
  have near: "near (rdbx_index ?r) i" using r idx(1) by (cases hi) (auto simp: in_reach_def near_def)
  have pos: "rdbx_pos ?r (header_seq (demo_bytes label ssrc i)) = i" unfolding D(2) by (rule rdbx_pos_near [OF near])
  have est: "rdbx_est ?r (header_seq (demo_bytes label ssrc i)) = i"
    using rdbx_est_pos [of ?r "header_seq (demo_bytes label ssrc i)"] pos i idx(2) by simp
  have win: "rdbx_index ?r < i + 128" using r idx(1) by (cases hi) (auto simp: in_reach_def)
  have less: "i < rdbx_index ?r + 65536" using rdbx_pos_less [of ?r "header_seq (demo_bytes label ssrc i)"] pos by simp
  have big: "length (demo_bytes label ssrc i) + 16 < 2 ^ 31" using D(4) lab by simp
  have x': "used_by (header_ssrc (demo_bytes label ssrc i)) x" using x D(3) by simp
  have blk: "rdbx_blocked ?r i \<longleftrightarrow> i \<in> seen" unfolding bl using r by (auto simp: in_reach_def)
  show ?thesis
  proof (cases "i \<in> seen")
    case True
    let ?S = "seal_packet C key salt i (demo_bytes label ssrc i)"
    note h = seal_packet_header [OF D(1), of C key salt i]
    have le: "\<exists>h. hi = Some h \<and> i \<le> h"
      using blk True idx(1) e unfolding rdbx_blocked_iff by (cases hi) auto
    have "length ?S < 2 ^ 31" using length_seal_packet [OF C l D(1)] big by simp
    then have "SessionRef_unprotect C session ?S = (session, [], Inl REPLAY_FAIL)"
      unfolding s using True blk pos win W x'
      by (subst template_unprotect_blocked [OF plain_header_valid [OF h(2)]]) (simp_all add: h(3,5) replay_fail_in_window)
    moreover have "demo_stream key salt ssrc (Some (case hi of None \<Rightarrow> i | Some h \<Rightarrow> max h i)) (insert i seen) session"
      using rel le True by (auto simp: insert_absorb max_def)
    ultimately show ?thesis using True by auto
  next
    case False
    then have nb: "\<not> rdbx_blocked ?r i" using blk by simp
    have "SessionRef_unprotect C session (seal_packet C key salt i (demo_bytes label ssrc i)) =
        (template_session dir_srtp_receiver key salt (Some (ssrc, rdbx_add ?r i)), demo_bytes label ssrc i, Inr ())"
      unfolding s using template_unprotect_seal [OF C l D(1) big x' est] nb pos D(3) by simp
    moreover have "demo_stream key salt ssrc (Some (case hi of None \<Rightarrow> i | Some h \<Rightarrow> max h i)) (insert i seen)
        (template_session dir_srtp_receiver key salt (Some (ssrc, rdbx_add ?r i)))"
      unfolding demo_stream_def
    proof (intro exI [of _ "Some (ssrc, rdbx_add ?r i)"] conjI allI)
      fix j
      show "rdbx_blocked (stream_db (Some (ssrc, rdbx_add ?r i))) j \<longleftrightarrow>
          j \<in> insert i seen \<or> (\<exists>h. Some (case hi of None \<Rightarrow> i | Some h \<Rightarrow> max h i) = Some h \<and> j \<le> h \<and> 128 \<le> h - j)"
        using rdbx_blocked_add [OF w less nb, of j] idx(1) bl [of j] W by (cases hi) (auto simp: max_def)
    qed (use rdbx_add_wf [OF w less nb] idx i W in \<open>auto split: option.splits\<close>)
    ultimately show ?thesis using False by auto
  qed
qed

text \<open>
  Arrivals from several senders, as pairs of SSRC and packet number: which orders the replay windows
  cover, and the arrivals that are not repetitions.
\<close>

fun order_ok :: "(u32 \<Rightarrow> nat option) \<Rightarrow> (u32 \<times> nat) list \<Rightarrow> bool" where
  "order_ok hi [] \<longleftrightarrow> True"
| "order_ok hi ((s, i) # as) \<longleftrightarrow> in_reach (hi s) i \<and>
     order_ok (hi(s := Some (case hi s of None \<Rightarrow> i | Some h \<Rightarrow> max h i))) as"

fun firsts :: "'a set \<Rightarrow> 'a list \<Rightarrow> 'a list" where
  "firsts seen [] = []"
| "firsts seen (a # as) = (if a \<in> seen then firsts seen as else a # firsts (insert a seen) as)"

lemma firsts_distinct: "distinct (firsts seen as) \<and> set (firsts seen as) = set as - seen"
  by (induction seen as rule: firsts.induct) auto

definition senders_ok :: "srtp_crypto \<Rightarrow> u32 set \<Rightarrow> (u32 \<Rightarrow> bytes) \<Rightarrow> (u32 \<Rightarrow> bytes) \<Rightarrow> (u32 \<Rightarrow> string) \<Rightarrow> bool" where
  "senders_ok C D key salt label \<longleftrightarrow> crypto_sound C \<and>
     (\<forall>s\<in>D. length (key s) = 16 \<and> length (salt s) = 12 \<and> length (label s) \<le> 1900)"

definition datagram :: "srtp_crypto \<Rightarrow> (u32 \<Rightarrow> bytes) \<Rightarrow> (u32 \<Rightarrow> bytes) \<Rightarrow> (u32 \<Rightarrow> string) \<Rightarrow> u32 \<times> nat \<Rightarrow> bytes" where
  "datagram C key salt label a = (case a of (s, i) \<Rightarrow> seal_packet C (key s) (salt s) i (demo_bytes (label s) s i))"

definition streams_ok :: "u32 set \<Rightarrow> (u32 \<Rightarrow> bytes) \<Rightarrow> (u32 \<Rightarrow> bytes) \<Rightarrow> (u32 \<Rightarrow> nat option) \<Rightarrow> (u32 \<times> nat) set \<Rightarrow> (u32 \<rightharpoonup> srtp_session) \<Rightarrow> bool" where
  "streams_ok D key salt hi seen sessions \<longleftrightarrow>
     (\<forall>s\<in>D. \<exists>session. sessions s = Some session \<and> demo_stream (key s) (salt s) s (hi s) {i. (s, i) \<in> seen} session)"

lemma datagram_facts:
  assumes "senders_ok C D key salt label" and "s \<in> D" and "i < 2 ^ 32"
  shows "take 2048 (datagram C key salt label (s, i)) = datagram C key salt label (s, i)" "12 \<le> length (datagram C key salt label (s, i))" "header_ssrc (datagram C key salt label (s, i)) = s"
proof -
  note d = demo_bytes_facts [OF assms(3), of "label s" s]
  have "length (datagram C key salt label (s, i)) = length (demo_bytes (label s) s i) + 16"
    using length_seal_packet [OF _ _ _ d(1), of C "key s" "salt s"] assms(1,2) by (simp add: datagram_def senders_ok_def)
  then show "take 2048 (datagram C key salt label (s, i)) = datagram C key salt label (s, i)" "12 \<le> length (datagram C key salt label (s, i))"
    using d(4,5) assms(1,2) by (auto simp: senders_ok_def)
  show "header_ssrc (datagram C key salt label (s, i)) = s" using seal_packet_header(5) [OF d(1)] d(3) by (simp add: datagram_def)
qed

lemma streams_step:
  assumes ok: "senders_ok C D key salt label" and "streams_ok D key salt hi seen sessions" and "s \<in> D" and "i < 2 ^ 32" and "in_reach (hi s) i"
  obtains session session' where "sessions s = Some session"
    and "SessionRef_unprotect C session (datagram C key salt label (s, i)) =
      (if (s, i) \<in> seen then (session', [], Inl REPLAY_FAIL) else (session', demo_bytes (label s) s i, Inr ()))"
    and "streams_ok D key salt (hi(s := Some (case hi s of None \<Rightarrow> i | Some h \<Rightarrow> max h i))) (insert (s, i) seen) (sessions(s \<mapsto> session'))"
proof -
  obtain session where 1: "sessions s = Some session"
    and rel: "demo_stream (key s) (salt s) s (hi s) {i. (s, i) \<in> seen} session"
    using assms(2,3) unfolding streams_ok_def by blast
  have lab: "length (label s) < 2 ^ 30" using ok assms(3) by (auto simp: senders_ok_def)
  have e: "{j. (s', j) \<in> insert (s, i) seen} = (if s' = s then insert i {j. (s, j) \<in> seen} else {j. (s', j) \<in> seen})" for s'
    by auto
  obtain session' where 2: "SessionRef_unprotect C session (datagram C key salt label (s, i)) =
      (if i \<in> {i. (s, i) \<in> seen} then (session', [], Inl REPLAY_FAIL) else (session', demo_bytes (label s) s i, Inr ()))"
    and 3: "demo_stream (key s) (salt s) s (Some (case hi s of None \<Rightarrow> i | Some h \<Rightarrow> max h i)) (insert i {i. (s, i) \<in> seen}) session'"
    using demo_stream_step [OF rel _ _ _ assms(4,5) lab, of C] ok assms(3) unfolding datagram_def prod.case senders_ok_def by blast
  have "streams_ok D key salt (hi(s := Some (case hi s of None \<Rightarrow> i | Some h \<Rightarrow> max h i))) (insert (s, i) seen) (sessions(s \<mapsto> session'))"
    unfolding streams_ok_def e using assms(2) 3 unfolding streams_ok_def by simp
  with 1 2 show thesis by (intro that) simp_all
qed

lemma recv_run:
  assumes ok: "senders_ok C D key salt label"
  shows "streams_ok D key salt hi seen sessions \<Longrightarrow> order_ok hi as \<Longrightarrow> \<forall>(s, i)\<in>set as. s \<in> D \<and> i < 2 ^ 32 \<Longrightarrow>
   unat received + length (firsts seen as) \<le> unat expected \<Longrightarrow>
   \<exists>sessions'. recv_srtp C sessions received expected shown (map (\<lambda>a. Datagram (datagram C key salt label a)) as) =
     Done (sessions', received + of_nat (length (firsts seen as)),
       shown @ map (\<lambda>(s, i). demo_packet (label s) s (of_nat i)) (firsts seen as),
       if unat received + length (firsts seen as) = unat expected then Recv_All else Recv_Waiting)"
proof (induction as arbitrary: hi seen sessions received shown)
  case Nil
  then show ?case by (auto simp: word_less_nat_alt)
next
  case (Cons a as)
  obtain s i where a: "a = (s, i)" by fastforce
  have si: "s \<in> D" "i < 2 ^ 32" "in_reach (hi s) i" using Cons.prems(2,3) by (auto simp: a)
  note F = datagram_facts [OF ok si(1,2)]
  show ?case
  proof (cases "received < expected")
    case False
    then have "length (firsts seen (a # as)) = 0" "unat received = unat expected"
      using Cons.prems(4) unfolding word_less_nat_alt by linarith+
    then show ?thesis using False by (simp del: firsts.simps)
  next
    case True
    obtain session session' where 1: "sessions s = Some session"
      and 2: "SessionRef_unprotect C session (datagram C key salt label (s, i)) =
        (if (s, i) \<in> seen then (session', [], Inl REPLAY_FAIL) else (session', demo_bytes (label s) s i, Inr ()))"
      and 3: "streams_ok D key salt (hi(s := Some (case hi s of None \<Rightarrow> i | Some h \<Rightarrow> max h i))) (insert (s, i) seen) (sessions(s \<mapsto> session'))"
      by (rule streams_step [OF ok Cons.prems(1) si])
    have o: "order_ok (hi(s := Some (case hi s of None \<Rightarrow> i | Some h \<Rightarrow> max h i))) as" "\<forall>(s, i)\<in>set as. s \<in> D \<and> i < 2 ^ 32"
      using Cons.prems(2,3) by (simp_all add: a)
    show ?thesis
    proof (cases "(s, i) \<in> seen")
      case dup: True
      then have e: "insert (s, i) seen = seen" "firsts seen (a # as) = firsts seen as" by (auto simp: a)
      have r: "recv_srtp C sessions received expected shown (map (\<lambda>a. Datagram (datagram C key salt label a)) (a # as)) =
          recv_srtp C (sessions(s \<mapsto> session')) received expected shown (map (\<lambda>a. Datagram (datagram C key salt label a)) as)"
        using True dup 1 2 F by (simp add: a Let_def)
      show ?thesis
        unfolding r e(2) by (rule Cons.IH [OF 3 [unfolded e(1)] o Cons.prems(4) [unfolded e(2)]])
    next
      case new: False
      have u: "unat (received + 1) = unat received + 1"
        using True unat_u32_less [of expected] by (simp add: unat_word_ariths word_less_nat_alt)
      have e: "firsts seen (a # as) = (s, i) # firsts (insert (s, i) seen) as" using new by (simp add: a)
      have r: "recv_srtp C sessions received expected shown (map (\<lambda>a. Datagram (datagram C key salt label a)) (a # as)) =
          recv_srtp C (sessions(s \<mapsto> session')) (received + 1) expected (shown @ [demo_packet (label s) s (of_nat i)])
            (map (\<lambda>a. Datagram (datagram C key salt label a)) as)"
        using True new 1 2 F demo_bytes_facts(6) [OF si(2), of "label s" s] by (simp add: a Let_def)
      have "unat (received + 1) + length (firsts (insert (s, i) seen) as) \<le> unat expected"
        using Cons.prems(4) unfolding e u by simp
      from Cons.IH [OF 3 o this, of "shown @ [demo_packet (label s) s (of_nat i)]"] show ?thesis
        unfolding r e u by (simp only: list.size list.map prod.case append_assoc append_Cons append_Nil of_nat_Suc
            add.assoc add_0_left add_0_right Suc_eq_plus1 of_nat_add of_nat_1 add.commute [of 1])
    qed
  qed
qed

section \<open>Keys of a group epoch\<close>

text \<open>The session key and salt libsrtp derives from what an epoch exports for an SSRC.\<close>

definition epoch_keys :: "srtp_crypto \<Rightarrow> ('g, 'c, 'p, 's) mls \<Rightarrow> 'g \<Rightarrow> u32 \<Rightarrow> bytes \<times> bytes" where
  "epoch_keys C M grp ssrc =
     (case export_srtp_keys M grp ssrc of Done (km, mk, ms) \<Rightarrow> srtp_kdf C (take 28 km) | Panic p \<Rightarrow> ([], []))"

lemma epoch_material:
  assumes "exporter_sound M grp" and "crypto_sound C"
  obtains km mk ms where "export_srtp_keys M grp ssrc = Done (km, mk, ms)" and "length km = 28"
    and "epoch_keys C M grp ssrc = srtp_kdf C (take 28 km)"
    and "length (fst (epoch_keys C M grp ssrc)) = 16" "length (snd (epoch_keys C M grp ssrc)) = 12"
proof -
  obtain mk ms where e: "export_srtp_keys M grp ssrc = Done (mk @ ms, mk, ms)" "length mk = 16" "length ms = 12"
    by (rule export_srtp_keys_layout [OF assms(1)])
  have k: "epoch_keys C M grp ssrc = srtp_kdf C (take 28 (mk @ ms))" by (simp add: epoch_keys_def e(1))
  have "length (take 28 (mk @ ms)) = 28" using e by simp
  then have "length (fst (epoch_keys C M grp ssrc)) = 16" "length (snd (epoch_keys C M grp ssrc)) = 12"
    unfolding k using assms(2) unfolding crypto_sound_def by blast+
  then show thesis using that [OF e(1)] e k by simp
qed

lemma export_agrees:
  "mls_export_secret M g' = mls_export_secret M g \<Longrightarrow> export_srtp_keys M g' ssrc = export_srtp_keys M g ssrc"
  by (simp add: export_srtp_keys_def)

definition label_of :: "string \<Rightarrow> string" where
  "label_of identity = (case parse_credential_identity identity of Done (label, role) \<Rightarrow> label | Panic p \<Rightarrow> [])"

lemma label_of_parsed: "CHR '':'' \<in> set identity \<Longrightarrow>
    \<exists>role. parse_credential_identity identity = Done (label_of identity, role) \<and> length (label_of identity) < length identity"
proof -
  assume c: "CHR '':'' \<in> set identity"
  obtain label role where p: "parse_credential_identity identity = Done (label, role)"
    using parse_credential_identity_panics [of identity] c by (cases "parse_credential_identity identity") auto
  then have "identity = label @ CHR '':'' # role" by (simp add: parse_credential_identity_cases)
  then show ?thesis using p by (simp add: label_of_def)
qed

lemma main_sender_sealed:
  assumes "exporter_sound M grp" and "crypto_sound C" and "member_roles members = Done all_members"
    and "CHR '':'' \<in> set identity" and "length identity < 2 ^ 30" and "unat packets * 960 < 2 ^ 32"
  shows "main_sender C M default_hash grp members identity packets =
    (let ssrc = ssrc_from_identity default_hash identity in
     Done (map (\<lambda>i. seal_packet C (fst (epoch_keys C M grp ssrc)) (snd (epoch_keys C M grp ssrc)) i
       (demo_bytes (label_of identity) ssrc i)) [1..<unat packets + 1]))"
proof -
  obtain role where r: "parse_credential_identity identity = Done (label_of identity, role)"
    "length (label_of identity) < length identity" using label_of_parsed [OF assms(4)] by blast
  obtain km mk ms where e: "export_srtp_keys M grp (ssrc_from_identity default_hash identity) = Done (km, mk, ms)" "length km = 28"
    "epoch_keys C M grp (ssrc_from_identity default_hash identity) = srtp_kdf C (take 28 km)"
    by (rule epoch_material [OF assms(1,2)])
  show ?thesis using r(2) assms(5,6) e(2)
    by (simp add: main_sender_def r(1) assms(3) e Let_def send_srtp_sealed del: upt_Suc)
qed

lemma receiver_sessions_made:
  assumes ok: "exporter_sound M grp" "crypto_sound C"
  shows "\<forall>id\<in>set ids. CHR '':'' \<in> set id \<Longrightarrow>
    \<exists>sessions'. receiver_sessions C M default_hash grp sessions ids = Done sessions' \<and>
      (\<forall>s. sessions' s = (if s \<in> ssrc_from_identity default_hash ` set ids
        then Some (template_session dir_srtp_receiver (fst (epoch_keys C M grp s)) (snd (epoch_keys C M grp s)) None)
        else sessions s))"
proof (induction ids arbitrary: sessions)
  case Nil
  then show ?case by simp
next
  case (Cons id ids)
  let ?s = "ssrc_from_identity default_hash id"
  let ?t = "\<lambda>s. template_session dir_srtp_receiver (fst (epoch_keys C M grp s)) (snd (epoch_keys C M grp s)) None"
  obtain role where r: "parse_credential_identity id = Done (label_of id, role)"
    using label_of_parsed [of id] Cons.prems by auto
  obtain km mk ms where e: "export_srtp_keys M grp ?s = Done (km, mk, ms)" "length km = 28"
    "epoch_keys C M grp ?s = srtp_kdf C (take 28 km)" by (rule epoch_material [OF ok])
  have t: "create_receiver_session C km = Done (?t ?s)" using create_template_sessions(2) [of km C] e by simp
  have step: "receiver_sessions C M default_hash grp sessions (id # ids) =
      receiver_sessions C M default_hash grp (sessions(?s \<mapsto> ?t ?s)) ids"
    by (simp add: e(1) r t Let_def)
  have "\<forall>id\<in>set ids. CHR '':'' \<in> set id" using Cons.prems by simp
  from Cons.IH [OF this, of "sessions(?s \<mapsto> ?t ?s)"]
  obtain sessions' where ih: "receiver_sessions C M default_hash grp (sessions(?s \<mapsto> ?t ?s)) ids = Done sessions'"
    "\<forall>s. sessions' s = (if s \<in> ssrc_from_identity default_hash ` set ids then Some (?t s) else (sessions(?s \<mapsto> ?t ?s)) s)"
    by blast
  show ?case unfolding step using ih by (intro exI [of _ sessions'] conjI) auto
qed

lemma roles_have_colon:
  "member_roles ms = Done all_members \<Longrightarrow> \<forall>id\<in>set (sender_identities all_members). CHR '':'' \<in> set id"
proof (induction ms arbitrary: all_members)
  case Nil
  then show ?case by (simp add: sender_identities_def)
next
  case (Cons m ms)
  then obtain label role rest where p: "parse_credential_identity (from_utf8_lossy (mb_credential m)) = Done (label, role)"
    and r: "member_roles ms = Done rest" and a: "all_members = (from_utf8_lossy (mb_credential m), role) # rest"
    by (auto simp: Let_def outcome_simps)
  have "CHR '':'' \<in> set (from_utf8_lossy (mb_credential m))" using p by (auto simp: parse_credential_identity_cases)
  then show ?case using Cons.IH [OF r] by (auto simp: a sender_identities_def)
qed

lemma firsts_map: "inj_on f (seen \<union> set as) \<Longrightarrow> firsts (f ` seen) (map f as) = map f (firsts seen as)"
proof (induction as arbitrary: seen)
  case (Cons a as)
  have "f a \<in> f ` seen \<longleftrightarrow> a \<in> seen" using Cons.prems by (auto simp: inj_on_def)
  moreover have "firsts (f ` seen) (map f as) = map f (firsts seen as)"
    by (rule Cons.IH) (rule inj_on_subset [OF Cons.prems], auto)
  moreover have "firsts (f ` insert a seen) (map f as) = map f (firsts (insert a seen) as)"
    by (rule Cons.IH) (use Cons.prems in simp)
  ultimately show ?case by simp
qed simp

section \<open>Properties\<close>

text \<open>
  Media delivery in the demo: all clients are in the same epoch of a group whose senders have
  pairwise different SSRCs; every sender sends its packets, at most 4473924 of them; any of the datagrams arrive at a receiver,
  in any interleaving of the senders, reordered and repeated as long as no packet comes 128 or more
  behind the highest of its sender. Then no client panics, the receiver shows each packet exactly
  once, at its first arrival, with the contents the sender gave it, and it finishes exactly when
  all packets of all senders have arrived.
\<close>

lemma demo_media_received:
  assumes "crypto_sound C" and "exporter_sound M grp"
    and "\<forall>id\<in>set senders. mls_export_secret M (sgrp id) = mls_export_secret M grp"
    and "member_roles members = Done all_members" and "senders = sender_identities all_members"
    and "distinct (map (ssrc_from_identity default_hash) senders)" and "\<forall>id\<in>set senders. length id \<le> 1900"
    and "length senders * unat packets < 2 ^ 32" and "unat packets * 960 < 2 ^ 32"
    and "\<forall>(id, i)\<in>set arrivals. id \<in> set senders \<and> i < unat packets"
    and "order_ok (\<lambda>s. None) (map (\<lambda>(id, i). (ssrc_from_identity default_hash id, i + 1)) arrivals)"
  shows "\<exists>wire sessions.
    (\<forall>id\<in>set senders. main_sender C M default_hash (sgrp id) members id packets = Done (wire id)) \<and>
    main_receiver C M default_hash grp members packets (map (\<lambda>(id, i). Datagram (wire id ! i)) arrivals) =
      Done (sessions, of_nat (length (firsts {} arrivals)),
        map (\<lambda>(id, i). demo_packet (label_of id) (ssrc_from_identity default_hash id) (of_nat (i + 1))) (firsts {} arrivals),
        if length (firsts {} arrivals) = length senders * unat packets then Recv_All else Recv_Waiting)"
proof -
  define ssrc where "ssrc = ssrc_from_identity default_hash"
  define key where "key s = fst (epoch_keys C M grp s)" for s
  define salt where "salt s = snd (epoch_keys C M grp s)" for s
  define D where "D = ssrc ` set senders"
  have inj: "inj_on ssrc (set senders)" and dist: "distinct senders" using assms(6) by (simp_all add: ssrc_def distinct_map)
  define label where "label s = label_of (the_inv_into (set senders) ssrc s)" for s
  have lab: "label (ssrc id) = label_of id" if "id \<in> set senders" for id
    using that by (simp add: label_def the_inv_into_f_f [OF inj])
  have colon: "\<forall>id\<in>set senders. CHR '':'' \<in> set id" unfolding assms(5) by (rule roles_have_colon [OF assms(4)])
  have len: "length (key s) = 16" "length (salt s) = 12" for s
    by (rule epoch_material [OF assms(2,1), of s], simp add: key_def salt_def)+
  have ok: "senders_ok C D key salt label"
    unfolding senders_ok_def D_def using assms(1,7) len lab colon label_of_parsed by fastforce
  define wire where "wire id = map (\<lambda>i. datagram C key salt label (ssrc id, i)) [1..<unat packets + 1]" for id
  have sent: "main_sender C M default_hash (sgrp id) members id packets = Done (wire id)" if id: "id \<in> set senders" for id
  proof -
    have "exporter_sound M (sgrp id)" using assms(2,3) id by (simp add: exporter_sound_def)
    moreover have "epoch_keys C M (sgrp id) = epoch_keys C M grp"
      using assms(3) id by (simp add: fun_eq_iff epoch_keys_def export_agrees [of M "sgrp id" grp])
    moreover have "length id < 2 ^ 30" using assms(7) id by fastforce
    ultimately show ?thesis using assms(9) main_sender_sealed [OF _ assms(1,4), where M = M and grp = "sgrp id" and identity = id] colon id
      unfolding wire_def datagram_def prod.case lab [OF id] key_def salt_def by (simp add: ssrc_def Let_def del: upt_Suc)
  qed
  let ?f = "\<lambda>(id, i). (ssrc id, i + 1 :: nat)"
  have ev: "map (\<lambda>(id, i). Datagram (wire id ! i)) arrivals =
      map (\<lambda>a. Datagram (datagram C key salt label a)) (map ?f arrivals)"
    using assms(10) by (auto simp: wire_def simp del: upt_Suc)
  have mem: "fst a \<in> set senders \<and> snd a < unat packets" if "a \<in> set arrivals" for a
    using assms(10) that by (cases a) auto
  have "inj_on ?f (set arrivals)"
  proof (rule inj_onI)
    fix a b assume ab: "a \<in> set arrivals" "b \<in> set arrivals" "?f a = ?f b"
    from ab(3) have "ssrc (fst a) = ssrc (fst b)" "snd a = snd b" by (simp_all add: case_prod_beta)
    then show "a = b" using inj_onD [OF inj] mem [OF ab(1)] mem [OF ab(2)] by (simp add: prod_eq_iff)
  qed
  then have fm: "firsts {} (map ?f arrivals) = map ?f (firsts {} arrivals)" using firsts_map [of ?f "{}" arrivals] by simp
  have "set (firsts {} arrivals) \<subseteq> set senders \<times> {..<unat packets}"
    using assms(10) firsts_distinct [of "{}" arrivals] by auto
  then have "card (set (firsts {} arrivals)) \<le> card (set senders \<times> {..<unat packets})" by (intro card_mono) simp_all
  moreover have "card (set (firsts {} arrivals)) = length (firsts {} arrivals)"
    using firsts_distinct [of "{}" arrivals] by (intro distinct_card) simp
  ultimately have cnt: "length (firsts {} arrivals) \<le> length senders * unat packets"
    using dist by (simp add: distinct_card card_cartesian_product)
  have ex: "unat (of_nat (length senders) * packets) = length senders * unat packets"
  proof -
    have "of_nat (length senders) * packets = of_nat (length senders * unat packets)" by simp
    then show ?thesis using unat_of_nat_u32 [OF assms(8)] by simp
  qed
  have cm: "checked_mul32 (of_nat (length senders)) packets = Done (of_nat (length senders) * packets)"
  proof -
    have "unat (of_nat (length senders) :: u32) \<le> length senders" by (simp add: unat_of_nat)
    then have "unat (of_nat (length senders) :: u32) * unat packets \<le> length senders * unat packets" by (rule mult_le_mono1)
    then have "unat (of_nat (length senders) :: u32) * unat packets < 2 ^ 32" using assms(8) by (rule le_less_trans)
    then show ?thesis unfolding checked_mul32_def by (rule if_P)
  qed
  obtain sessions0 where s0: "receiver_sessions C M default_hash grp Map.empty senders = Done sessions0"
    "\<forall>s\<in>D. sessions0 s = Some (template_session dir_srtp_receiver (key s) (salt s) None)"
    using receiver_sessions_made [OF assms(2,1) colon, of default_hash Map.empty] by (auto simp: D_def ssrc_def key_def salt_def)
  have init: "streams_ok D key salt (\<lambda>s. None) {} sessions0"
    unfolding streams_ok_def demo_stream_def using s0(2) rdbx_init_first(2)
    by (auto intro!: exI [of _ None] simp: rdbx_init_wf) (simp_all add: srtp_rdbx_init_def)
  have rng: "\<forall>(s, i)\<in>set (map ?f arrivals). s \<in> D \<and> i < 2 ^ 32"
    using assms(10) unat_u32_less [of packets] by (fastforce simp: D_def)
  have bound: "unat (0 :: u32) + length (firsts {} (map ?f arrivals)) \<le> unat (of_nat (length senders) * packets)"
    unfolding ex fm using cnt by simp
  have shown: "map (\<lambda>(s, i). demo_packet (label s) s (of_nat i)) (map ?f (firsts {} arrivals)) =
      map (\<lambda>(id, i). demo_packet (label_of id) (ssrc id) (of_nat (i + 1))) (firsts {} arrivals)"
    using assms(10) firsts_distinct [of "{}" arrivals] lab by auto
  obtain sessions where "recv_srtp C sessions0 0 (of_nat (length senders) * packets) []
      (map (\<lambda>a. Datagram (datagram C key salt label a)) (map ?f arrivals)) =
    Done (sessions, of_nat (length (firsts {} arrivals)),
      map (\<lambda>(id, i). demo_packet (label_of id) (ssrc id) (of_nat (i + 1))) (firsts {} arrivals),
      if length (firsts {} arrivals) = length senders * unat packets then Recv_All else Recv_Waiting)"
    using recv_run [OF ok init assms(11) [folded ssrc_def] rng bound, of "[]"]
    unfolding ex fm shown by (auto simp del: map_map)
  then have "main_receiver C M default_hash grp members packets (map (\<lambda>(id, i). Datagram (wire id ! i)) arrivals) =
      Done (sessions, of_nat (length (firsts {} arrivals)),
        map (\<lambda>(id, i). demo_packet (label_of id) (ssrc id) (of_nat (i + 1))) (firsts {} arrivals),
        if length (firsts {} arrivals) = length senders * unat packets then Recv_All else Recv_Waiting)"
    unfolding main_receiver_def assms(4) obind.simps Let_def assms(5) [symmetric] s0(1) cm ev .
  with sent show ?thesis unfolding ssrc_def by blast
qed

text \<open>
  C23. What stops a demo receiver: a datagram with a known sender's SSRC and a plain header makes the
  receive loop panic if its tag does not verify at a fresh position, or if its position lies below the
  replay window; only repetitions within the window are skipped. No key is needed for the first.
\<close>

theorem demo_datagram_panics:
  assumes "received < expected" and "sessions (header_ssrc d) = Some (template_session dir_srtp_receiver key salt x)"
    and "used_by (header_ssrc d) x" and "rdbx_wf (stream_db x)"
    and "plain_header d" and "28 \<le> length d" and "length d \<le> 2048" and "j = rdbx_pos (stream_db x) (header_seq d)"
    and "(\<not> rdbx_blocked (stream_db x) j \<and>
        gcm_open C key (srtp_calc_aead_iv salt (header_ssrc d) (rdbx_est (stream_db x) (header_seq d))) (take 12 d) (drop 12 d) = None) \<or>
      j \<le> rdbx_index (stream_db x) \<and> length (rdbx_bits (stream_db x)) \<le> rdbx_index (stream_db x) - j"
  shows "recv_srtp C sessions received expected shown (Datagram d # es) = Panic ExplicitPanic"
proof -
  have l: "length d < 2 ^ 31" "take 2048 d = d" "\<not> length d < 12" using assms(6,7) by simp_all
  note U = template_unprotect [OF plain_header_valid [OF assms(5)] l(1) assms(3), of C key salt]
  have "\<exists>err. err \<noteq> REPLAY_FAIL \<and> SessionRef_unprotect C (template_session dir_srtp_receiver key salt x) d =
      (template_session dir_srtp_receiver key salt x, [], Inl err)"
  proof (cases "rdbx_blocked (stream_db x) j")
    case True
    then have "replay_error (stream_db x) (header_seq d) = REPLAY_OLD"
      using assms(4,8,9) replay_old_below_window by blast
    then show ?thesis unfolding U using True assms(8) by (simp add: Let_def)
  next
    case False
    then have g: "gcm_open C key (srtp_calc_aead_iv salt (header_ssrc d) (rdbx_est (stream_db x) (header_seq d))) (take 12 d) (drop 12 d) = None"
      using assms(4,8,9) replay_old_below_window by blast
    have "srtp_unprotect_aead C key (template_of dir_srtp_receiver key salt) (rdbx_est (stream_db x) (header_seq d)) d = Inl AUTH_FAIL"
      unfolding unprotect_aead_plain [OF assms(5,6) l(1)] using g by (simp add: template_of_def)
    then show ?thesis unfolding U using False assms(8) by (simp add: Let_def)
  qed
  then show ?thesis using assms(1,2) l by (auto simp: Let_def)
qed

theorem demo_datagram_panics_witness:
  "recv_srtp sample_crypto [9 \<mapsto> template_session dir_srtp_receiver (replicate 16 1) (replicate 12 5) None] 0 1 []
     [Datagram (sample_packet 3 0 @ replicate 20 7)] = Panic ExplicitPanic"
proof -
  have s: "sample_packet 3 0 @ replicate 20 7 = RtpPacket_to_bytes \<lparr> rtp_payload_type = 96, rtp_sequence_number = 3,
      rtp_timestamp = 0, rtp_ssrc = 9, rtp_payload = [1, 2, 3] @ replicate 20 7 \<rparr>" (is "?d = _")
    by (simp add: sample_packet_def RtpPacket_to_bytes_def)
  have p: "plain_header ?d" unfolding s by (rule to_bytes_plain_header)
  have d: "header_ssrc ?d = 9" "length ?d = 35" "drop 12 ?d = [1, 2, 3] @ replicate 20 7"
    unfolding s by (simp_all add: to_bytes_header rtp_header_fields)
  have g: "gcm_open sample_crypto (replicate 16 1) iv aad (drop 12 ?d) = None" for iv aad
    unfolding d by (simp add: sample_crypto_def)
  show ?thesis
    by (rule demo_datagram_panics [where x = None and key = "replicate 16 1" and salt = "replicate 12 5", OF _ _ _ _ p _ _ refl])
      (use d(1,2) g rdbx_init_first(2) in \<open>simp_all add: rdbx_init_wf del: drop_append take_append\<close>)
qed

end
