(* ===== verification/Group_Setup.thy ===== *)
theory Group_Setup
  imports Demo_Client
begin

text \<open>
  Group setup in the demo: the delivery-service part of \<^verbatim>\<open>demo/safecast-client/src/ds_client.rs\<close>, and
  \<^verbatim>\<open>create_group\<close>, \<^verbatim>\<open>join_group\<close> and the frame of \<^verbatim>\<open>main\<close> from
  \<^verbatim>\<open>demo/safecast-client/src/main.rs\<close>.

  The delivery service is a separate program, so the HTTP exchange with it, the TLS codec of its
  messages and OpenMLS are parameters. The world \<open>'w\<close> is whatever state those share; a request may
  change it in any way, also by what other clients do meanwhile. A loop that polls until something
  has happened may run forever: its result is \<open>None\<close> then, and the lemmas say when it returns.

  Shown here: a polling loop returns the first success, a joining client enters the group of the
  first Welcome it is sent, and a created group holds one package per discovered peer, each with the
  key the authentication service named for that peer.
\<close>

section \<open>The delivery-service client\<close>

record 't DsClient =
  dc_as_url :: string
  dc_ds_url :: string
  dc_auth_token :: "'t option"
  dc_client_id :: "bytes option"

definition DsClient_new :: "string \<Rightarrow> string \<Rightarrow> 't DsClient" where
  "DsClient_new as_url ds_url =
     \<lparr> dc_as_url = as_url, dc_ds_url = ds_url, dc_auth_token = None, dc_client_id = None \<rparr>"

text \<open>
  A request with a body gives a transport error, or a status and the body unless reading it failed.
  \<open>tls\<close> holds the codec functions of \<^verbatim>\<open>ds_lib\<close> and OpenMLS the client calls, and URL-safe base64.
\<close>

record 'w ds_http =
  ds_post :: "'w \<Rightarrow> string \<Rightarrow> bytes \<Rightarrow> 'w \<times> (string + nat \<times> bytes option)"
  ds_get :: "'w \<Rightarrow> string \<Rightarrow> bytes \<Rightarrow> 'w \<times> (string + nat \<times> bytes option)"

record ('t, 'kpin, 'msg) tls =
  tls_register_request :: "(bytes \<times> 'kpin) list \<Rightarrow> bytes option"
  tls_register_response :: "bytes \<Rightarrow> 't option"
  tls_client_list :: "bytes \<Rightarrow> bytes list option"
  tls_recv_request :: "'t \<Rightarrow> bytes option"
  tls_messages :: "bytes \<Rightarrow> 'msg list option"
  tls_base64_url :: "bytes \<Rightarrow> string"

datatype DsError = Ds_Serialize | Ds_Request string | Ds_Status nat | Ds_Read | Ds_Parse

definition DsClient_id_b64 :: "('t, 'kpin, 'msg) tls \<Rightarrow> 't DsClient \<Rightarrow> string outcome" where
  "DsClient_id_b64 L c = obind (expect (dc_client_id c)) (\<lambda>id. Done (tls_base64_url L id))"

definition DsClient_auth_token :: "'t DsClient \<Rightarrow> 't outcome" where
  "DsClient_auth_token c = expect (dc_auth_token c)"

definition register_with_ds ::
  "('t, 'kpin, 'msg) tls \<Rightarrow> 'w ds_http \<Rightarrow> 't DsClient \<Rightarrow> 'w \<Rightarrow> bytes \<Rightarrow> (bytes \<times> 'kpin) list \<Rightarrow>
     't DsClient \<times> 'w \<times> (DsError + unit)" where
  "register_with_ds L H c w identity key_packages =
     (case tls_register_request L key_packages of
        None \<Rightarrow> (c, w, Inl Ds_Serialize)
      | Some body \<Rightarrow>
          (case ds_post H w (dc_ds_url c @ ''/clients/register'') body of
             (w', Inl e) \<Rightarrow> (c, w', Inl (Ds_Request e))
           | (w', Inr (status, resp_bytes)) \<Rightarrow>
               if \<not> is_success status then (c, w', Inl (Ds_Status status))
               else (case resp_bytes of
                 None \<Rightarrow> (c, w', Inl Ds_Read)
               | Some bs \<Rightarrow>
                   (case tls_register_response L bs of
                      None \<Rightarrow> (c, w', Inl Ds_Parse)
                    | Some token \<Rightarrow> (c\<lparr>dc_auth_token := Some token, dc_client_id := Some identity\<rparr>, w', Inr ())))))"

definition list_clients ::
  "('t, 'kpin, 'msg) tls \<Rightarrow> 'w ds_http \<Rightarrow> 't DsClient \<Rightarrow> 'w \<Rightarrow> 'w \<times> (DsError + bytes list)" where
  "list_clients L H c w =
     (case ds_get H w (dc_ds_url c @ ''/clients/list'') [] of
        (w', Inl e) \<Rightarrow> (w', Inl (Ds_Request e))
      | (w', Inr (status, resp_bytes)) \<Rightarrow>
          (w', if \<not> is_success status then Inl (Ds_Status status)
               else case resp_bytes of
                 None \<Rightarrow> Inl Ds_Read
               | Some bs \<Rightarrow> if bs = [] then Inr []
                   else (case tls_client_list L bs of None \<Rightarrow> Inl Ds_Parse | Some clients \<Rightarrow> Inr clients)))"

definition consume_key_package ::
  "('t, 'kpin, 'msg) tls \<Rightarrow> 'w ds_http \<Rightarrow> 't DsClient \<Rightarrow> 'w \<Rightarrow> bytes \<Rightarrow> 'w \<times> (DsError + bytes option)" where
  "consume_key_package L H c w client_identity =
     (case ds_get H w (dc_ds_url c @ ''/clients/key_package/'' @ tls_base64_url L client_identity) [] of
        (w', Inl e) \<Rightarrow> (w', Inl (Ds_Request e))
      | (w', Inr (status, resp_bytes)) \<Rightarrow>
          (w', if status = 204 then Inr None
               else if \<not> is_success status then Inl (Ds_Status status)
               else case resp_bytes of None \<Rightarrow> Inl Ds_Read | Some bs \<Rightarrow> Inr (Some bs)))"

definition send_welcome :: "'w ds_http \<Rightarrow> 't DsClient \<Rightarrow> 'w \<Rightarrow> bytes \<Rightarrow> 'w \<times> (DsError + unit)" where
  "send_welcome H c w welcome_bytes =
     (case ds_post H w (dc_ds_url c @ ''/send/welcome'') welcome_bytes of
        (w', Inl e) \<Rightarrow> (w', Inl (Ds_Request e))
      | (w', Inr (status, _)) \<Rightarrow> (w', if is_success status then Inr () else Inl (Ds_Status status)))"

definition recv_messages ::
  "('t, 'kpin, 'msg) tls \<Rightarrow> 'w ds_http \<Rightarrow> 't DsClient \<Rightarrow> 'w \<Rightarrow> ('w \<times> (DsError + 'msg list)) outcome" where
  "recv_messages L H c w =
     obind (DsClient_auth_token c) (\<lambda>token.
       case tls_recv_request L token of
         None \<Rightarrow> Done (w, Inl Ds_Serialize)
       | Some req_body \<Rightarrow>
           obind (DsClient_id_b64 L c) (\<lambda>id_b64.
             case ds_get H w (dc_ds_url c @ ''/recv/'' @ id_b64) req_body of
               (w', Inl e) \<Rightarrow> Done (w', Inl (Ds_Request e))
             | (w', Inr (status, resp_bytes)) \<Rightarrow>
                 Done (w', if \<not> is_success status then Inl (Ds_Status status)
                   else case resp_bytes of
                     None \<Rightarrow> Inl Ds_Read
                   | Some bs \<Rightarrow> if bs = [] then Inr []
                       else (case tls_messages L bs of None \<Rightarrow> Inl Ds_Parse | Some msgs \<Rightarrow> Inr msgs))))"

section \<open>Polling\<close>

partial_function (option) poll ::
  "('w \<Rightarrow> ('w \<times> 'a option) outcome) \<Rightarrow> 'w \<Rightarrow> ('w \<times> 'a) outcome option" where
  "poll f w =
     (case f w of
        Panic p \<Rightarrow> Some (Panic p)
      | Done (w', Some a) \<Rightarrow> Some (Done (w', a))
      | Done (w', None) \<Rightarrow> poll f w')"

text \<open>Sequencing of computations that may panic or not return.\<close>

definition pbind :: "'a outcome option \<Rightarrow> ('a \<Rightarrow> 'b outcome option) \<Rightarrow> 'b outcome option" where
  "pbind m f = (case m of None \<Rightarrow> None | Some (Panic p) \<Rightarrow> Some (Panic p) | Some (Done x) \<Rightarrow> f x)"

section \<open>Creating and joining a group\<close>

record ('g, 'kpin, 'kp, 'welcome, 'staged, 'msg) mls_setup =
  kp_deserialize :: "bytes \<Rightarrow> 'kpin option"
  kp_validate :: "'kpin \<Rightarrow> 'kp option"
  kp_signature_key :: "'kp \<Rightarrow> bytes"
  group_new :: "'g option"
  group_add_members :: "'g \<Rightarrow> 'kp list \<Rightarrow> ('g \<times> 'welcome) option"
  group_merge_pending_commit :: "'g \<Rightarrow> 'g option"
  welcome_serialize :: "'welcome \<Rightarrow> bytes option"
  msg_into_welcome :: "'msg \<Rightarrow> 'welcome option"
  stage_welcome :: "'welcome \<Rightarrow> 'staged option"
  staged_into_group :: "'staged \<Rightarrow> 'g option"

definition discover_peers ::
  "('t, 'kpin, 'msg) tls \<Rightarrow> 'w ds_http \<Rightarrow> 't DsClient \<Rightarrow> string \<Rightarrow> u32 \<Rightarrow> 'w \<Rightarrow> ('w \<times> string list option) outcome" where
  "discover_peers L H c identity expected_peers w =
     (case list_clients L H c w of (w', res) \<Rightarrow>
        obind (expect_ok res) (\<lambda>clients.
        let peers = filter (\<lambda>n. n \<noteq> identity) (map from_utf8_lossy clients) in
        Done (w', if length peers \<ge> unat expected_peers then Some peers else None)))"

definition try_key_package ::
  "('t, 'kpin, 'msg) tls \<Rightarrow> 'w ds_http \<Rightarrow> 't DsClient \<Rightarrow> string \<Rightarrow> 'w \<Rightarrow> ('w \<times> bytes option) outcome" where
  "try_key_package L H c peer_id w =
     (case consume_key_package L H c w (ascii peer_id) of (w', res) \<Rightarrow>
        obind (expect_ok res) (\<lambda>r. Done (w', r)))"

definition check_key_package ::
  "base64 \<Rightarrow> 'w http \<Rightarrow> ('g, 'kpin, 'kp, 'welcome, 'staged, 'msg) mls_setup \<Rightarrow> 't DsClient \<Rightarrow> string \<Rightarrow> bytes \<Rightarrow> 'w \<Rightarrow>
     ('w \<times> 'kp) outcome" where
  "check_key_package B T M c peer_id kp_bytes w =
     obind (expect (kp_deserialize M kp_bytes)) (\<lambda>kp_in.
       case lookup_as B T (dc_as_url c) w peer_id of (w', res) \<Rightarrow>
         obind (expect_ok res) (\<lambda>pk_from_as.
         obind (expect (kp_validate M kp_in)) (\<lambda>kp_ref.
         obind (guard_panic (pk_from_as = kp_signature_key M kp_ref) AssertFailed) (\<lambda>_.
         Done (w', kp_ref)))))"

fun fetch_key_packages ::
  "base64 \<Rightarrow> 'w http \<Rightarrow> ('t, 'kpin, 'msg) tls \<Rightarrow> 'w ds_http \<Rightarrow> ('g, 'kpin, 'kp, 'welcome, 'staged, 'msg) mls_setup \<Rightarrow>
     't DsClient \<Rightarrow> string list \<Rightarrow> 'w \<Rightarrow> ('w \<times> 'kp list) outcome option" where
  "fetch_key_packages B T L H M c [] w = Some (Done (w, []))"
| "fetch_key_packages B T L H M c (peer_id # ids) w =
     pbind (Some (parse_credential_identity peer_id)) (\<lambda>(peer_label, role).
     pbind (poll (try_key_package L H c peer_id) w) (\<lambda>(w1, kp_bytes).
     pbind (Some (check_key_package B T M c peer_id kp_bytes w1)) (\<lambda>(w2, kp).
     pbind (fetch_key_packages B T L H M c ids w2) (\<lambda>(w3, kps).
     Some (Done (w3, kp # kps))))))"

definition create_group ::
  "base64 \<Rightarrow> 'w http \<Rightarrow> ('t, 'kpin, 'msg) tls \<Rightarrow> 'w ds_http \<Rightarrow> ('g, 'kpin, 'kp, 'welcome, 'staged, 'msg) mls_setup \<Rightarrow>
     't DsClient \<Rightarrow> u32 \<Rightarrow> u32 \<Rightarrow> string \<Rightarrow> 'w \<Rightarrow> ('w \<times> 'g) outcome option" where
  "create_group B T L H M c senders receivers identity w =
     (pbind (Some (checked_add32 senders receivers)) (\<lambda>expected_peers.
      pbind (poll (discover_peers L H c identity expected_peers) w) (\<lambda>(w1, peer_identities).
      pbind (fetch_key_packages B T L H M c peer_identities w1) (\<lambda>(w2, peer_kps).
      Some (obind (expect (group_new M)) (\<lambda>grp.
        obind (expect (group_add_members M grp peer_kps)) (\<lambda>(grp1, welcome).
        obind (expect (group_merge_pending_commit M grp1)) (\<lambda>grp2.
        obind (expect (welcome_serialize M welcome)) (\<lambda>welcome_bytes.
        case send_welcome H c w2 welcome_bytes of (w3, res) \<Rightarrow>
          obind (expect_ok res) (\<lambda>_. Done (w3, grp2)))))))))))"

definition try_welcome ::
  "('t, 'kpin, 'msg) tls \<Rightarrow> 'w ds_http \<Rightarrow> ('g, 'kpin, 'kp, 'welcome, 'staged, 'msg) mls_setup \<Rightarrow> 't DsClient \<Rightarrow> 'w \<Rightarrow>
     ('w \<times> 'welcome option) outcome" where
  "try_welcome L H M c w =
     obind (recv_messages L H c w) (\<lambda>(w', res).
     obind (expect_ok res) (\<lambda>msgs.
     let found = (case dropWhile (\<lambda>msg. msg_into_welcome M msg = None) msgs of [] \<Rightarrow> None | msg # _ \<Rightarrow> msg_into_welcome M msg) in
     Done (w', found)))"

definition join_group ::
  "('t, 'kpin, 'msg) tls \<Rightarrow> 'w ds_http \<Rightarrow> ('g, 'kpin, 'kp, 'welcome, 'staged, 'msg) mls_setup \<Rightarrow> 't DsClient \<Rightarrow> 'w \<Rightarrow>
     ('w \<times> 'g) outcome option" where
  "join_group L H M c w =
     pbind (poll (try_welcome L H M c) w) (\<lambda>(w', welcome_msg).
     Some (obind (expect (stage_welcome M welcome_msg)) (\<lambda>staged.
       obind (expect (staged_into_group M staged)) (\<lambda>grp. Done (w', grp)))))"

section \<open>The frame of \<open>main\<close>\<close>

text \<open>The reference and the wire form of a key package, both from OpenMLS.\<close>

record ('kpb, 'kpin) key_package_ops =
  kp_hash_ref :: "'kpb \<Rightarrow> bytes option"
  kp_into_in :: "'kpb \<Rightarrow> 'kpin"

definition main_register ::
  "base64 \<Rightarrow> 'w http \<Rightarrow> ('t, 'kpin, 'msg) tls \<Rightarrow> 'w ds_http \<Rightarrow> ('prov, 'sk, 'kpb) openmls \<Rightarrow> ('kpb, 'kpin) key_package_ops \<Rightarrow>
     't DsClient \<Rightarrow> ('prov, 'sk) MlsMember \<Rightarrow> string \<Rightarrow> 'w \<Rightarrow> ('t DsClient \<times> ('prov, 'sk) MlsMember \<times> 'w) outcome" where
  "main_register B T L H OM K c member identity w =
     (case register_with_as B T (dc_as_url c) w identity (om_public_key OM (mem_signer member)) of (w1, res) \<Rightarrow>
        obind (expect_ok res) (\<lambda>_.
        obind (MlsMember_generate_key_package OM member) (\<lambda>(member1, kp1).
        obind (MlsMember_generate_key_package OM member1) (\<lambda>(member2, kp2).
        obind (expect (kp_hash_ref K kp1)) (\<lambda>kp1_hash.
        obind (expect (kp_hash_ref K kp2)) (\<lambda>kp2_hash.
        case register_with_ds L H c w1 (ascii identity) [(kp1_hash, kp_into_in K kp1), (kp2_hash, kp_into_in K kp2)] of
          (c', w2, res2) \<Rightarrow> obind (expect_ok res2) (\<lambda>_. Done (c', member2, w2))))))))"

definition main_setup ::
  "base64 \<Rightarrow> 'w http \<Rightarrow> ('t, 'kpin, 'msg) tls \<Rightarrow> 'w ds_http \<Rightarrow> ('prov, 'sk, 'kpb) openmls \<Rightarrow>
     ('kpb, 'kpin) key_package_ops \<Rightarrow> ('g, 'kpin, 'kp, 'welcome, 'staged, 'msg) mls_setup \<Rightarrow> ('g \<Rightarrow> Member list) \<Rightarrow> string \<Rightarrow> string \<Rightarrow> nat \<Rightarrow>
     Mode \<Rightarrow> u32 \<Rightarrow> u32 \<Rightarrow> nat \<Rightarrow> 'w \<Rightarrow> ('w \<times> 'g) outcome option" where
  "main_setup B T L H OM K M group_members as_url ds_url pid mode senders receivers entropy w =
     (let identity = generate_identity pid mode; c0 = DsClient_new as_url ds_url in
      pbind (Some (parse_credential_identity identity)) (\<lambda>(label, role).
      pbind (Some (MlsMember_new OM entropy identity)) (\<lambda>member.
      pbind (Some (main_register B T L H OM K c0 member identity w)) (\<lambda>(c, member', w1).
      pbind (if mode = Mode_Creator then create_group B T L H M c senders receivers identity w1 else join_group L H M c w1)
        (\<lambda>(w2, grp).
      Some (obind (verify_group_members B T as_url w2 (group_members grp) identity) (\<lambda>w3. Done (w3, grp))))))))"

section \<open>Lemmas\<close>

lemma pbind_Done_iff: "pbind m f = Some (Done y) \<longleftrightarrow> (\<exists>x. m = Some (Done x) \<and> f x = Some (Done y))"
  by (auto simp: pbind_def split: option.splits outcome.splits)

lemma pbind_simps [simp]: "pbind (Some (Done x)) f = f x" "pbind (Some (Panic p)) f = Some (Panic p)"
  by (simp_all add: pbind_def)

text \<open>A loop that returns, returns what one of its attempts found; a success after finitely many
  attempts is returned.\<close>

lemma poll_sound:
  fixes f :: "'w \<Rightarrow> ('w \<times> 'a option) outcome"
  assumes "poll f w = Some r"
  shows "\<exists>w0. (\<exists>w' a. f w0 = Done (w', Some a) \<and> r = Done (w', a)) \<or> (\<exists>p. f w0 = Panic p \<and> r = Panic p)"
  using assms
proof (rule poll.raw_induct [rotated])
  fix rec :: "('w \<Rightarrow> ('w \<times> 'a option) outcome) \<Rightarrow> 'w \<Rightarrow> ('w \<times> 'a) outcome option" and f :: "'w \<Rightarrow> ('w \<times> 'a option) outcome" and w r
  assume "\<And>(f :: 'w \<Rightarrow> ('w \<times> 'a option) outcome) w r. rec f w = Some r \<Longrightarrow>
      \<exists>w0. (\<exists>w' a. f w0 = Done (w', Some a) \<and> r = Done (w', a)) \<or> (\<exists>p. f w0 = Panic p \<and> r = Panic p)"
    and "(case f w of Panic p \<Rightarrow> Some (Panic p) | Done (w', None) \<Rightarrow> rec f w' | Done (w', Some a) \<Rightarrow> Some (Done (w', a))) = Some r"
  then show "\<exists>w0. (\<exists>w' a. f w0 = Done (w', Some a) \<and> r = Done (w', a)) \<or> (\<exists>p. f w0 = Panic p \<and> r = Panic p)"
    by (cases "f w") (auto split: option.splits prod.splits)
qed

lemma poll_returns:
  "\<forall>i<n. f (ws i) = Done (ws (Suc i), None) \<Longrightarrow> f (ws n) = Done (w', Some a) \<Longrightarrow> poll f (ws 0) = Some (Done (w', a))"
proof (induction n arbitrary: ws)
  case 0
  then show ?case by (subst poll.simps) simp
next
  case (Suc n)
  then have "poll f (ws (Suc 0)) = Some (Done (w', a))" using Suc.IH [of "\<lambda>i. ws (Suc i)"] by simp
  then show ?case using Suc.prems(1) by (subst poll.simps) simp
qed

lemma check_key_package_confirmed:
  "check_key_package B T M c peer_id kp_bytes w = Done (w', kp) \<Longrightarrow>
     lookup_as B T (dc_as_url c) w peer_id = (w', Inr (kp_signature_key M kp))"
  by (cases "lookup_as B T (dc_as_url c) w peer_id") (auto simp: check_key_package_def outcome_simps)

lemma fetch_key_packages_confirmed:
  "fetch_key_packages B T L H M c ids w = Some (Done (w', kps)) \<Longrightarrow>
     list_all2 (\<lambda>peer_id kp. \<exists>w1 w2. lookup_as B T (dc_as_url c) w1 peer_id = (w2, Inr (kp_signature_key M kp))) ids kps"
proof (induction ids arbitrary: w kps)
  case Nil
  then show ?case by simp
next
  case (Cons peer_id ids)
  then obtain w1 kp_bytes w2 kp rest where c: "check_key_package B T M c peer_id kp_bytes w1 = Done (w2, kp)"
    and r: "fetch_key_packages B T L H M c ids w2 = Some (Done (w', rest))" and k: "kps = kp # rest"
    by (auto simp: pbind_Done_iff)
  show ?case unfolding k using check_key_package_confirmed [OF c] Cons.IH [OF r] by auto
qed

lemma verify_group_confirmed:
  "verify_group_members B T as_url w ms my_identity = Done w' \<Longrightarrow> m \<in> set ms \<Longrightarrow>
     from_utf8_lossy (mb_credential m) \<noteq> my_identity \<Longrightarrow>
     \<exists>w1 w2. lookup_as B T as_url w1 (from_utf8_lossy (mb_credential m)) = (w2, Inr (mb_signature_key m))"
proof (induction ms arbitrary: w)
  case (Cons a ms)
  show ?case
  proof (cases "from_utf8_lossy (mb_credential a) = my_identity")
    case True
    then show ?thesis using Cons by (auto simp: Let_def)
  next
    case False
    then obtain w1 where l: "lookup_as B T as_url w (from_utf8_lossy (mb_credential a)) = (w1, Inr (mb_signature_key a))"
      and r: "verify_group_members B T as_url w1 ms my_identity = Done w'"
      using Cons.prems(1) by (auto simp: Let_def outcome_simps split: prod.splits)
    then show ?thesis using Cons.IH [OF r] Cons.prems(2,3) by auto
  qed
qed simp

lemma register_with_ds_client:
  "register_with_ds L H c w identity kps = (c', w', Inr ()) \<Longrightarrow>
     dc_as_url c' = dc_as_url c \<and> dc_ds_url c' = dc_ds_url c \<and> dc_auth_token c' \<noteq> None \<and> dc_client_id c' = Some identity"
  by (auto simp: register_with_ds_def split: option.splits prod.splits sum.splits if_splits)

lemma created_group_confirmed:
  assumes "create_group B T L H M c senders receivers identity w = Some (Done (w', grp))"
  shows "\<exists>peers kps grp0 grp1 welcome. unat senders + unat receivers \<le> length peers \<and> identity \<notin> set peers \<and>
    list_all2 (\<lambda>peer_id kp. \<exists>w1 w2. lookup_as B T (dc_as_url c) w1 peer_id = (w2, Inr (kp_signature_key M kp))) peers kps \<and>
    group_new M = Some grp0 \<and> group_add_members M grp0 kps = Some (grp1, welcome) \<and>
    group_merge_pending_commit M grp1 = Some grp"
proof -
  obtain n w1 peers w2 kps grp0 grp1 wel where
    n: "checked_add32 senders receivers = Done n"
    and p: "poll (discover_peers L H c identity n) w = Some (Done (w1, peers))"
    and f: "fetch_key_packages B T L H M c peers w1 = Some (Done (w2, kps))"
    and g: "group_new M = Some grp0" "group_add_members M grp0 kps = Some (grp1, wel)"
      "group_merge_pending_commit M grp1 = Some grp"
    using assms by (auto simp: create_group_def pbind_Done_iff outcome_simps split: prod.splits) (metis surj_pair)
  have sum: "unat n = unat senders + unat receivers" using checked_add32_Done [OF n] by (rule conjunct2)
  obtain w0 where "discover_peers L H c identity n w0 = Done (w1, Some peers)"
    using poll_sound [OF p] by auto
  then have "unat senders + unat receivers \<le> length peers \<and> identity \<notin> set peers"
    unfolding sum [symmetric] by (auto simp: discover_peers_def outcome_simps split: prod.splits if_splits)
  then show ?thesis using fetch_key_packages_confirmed [OF f] g by blast
qed

section \<open>Properties\<close>


text \<open>Parameters for examples: a world that counts requests, packages that are their own key.\<close>

definition sample_as :: "nat http" where
  "sample_as = \<lparr> http_post = (\<lambda>w url body. (w + 1, Inr 200)),
     http_get = (\<lambda>w url. (w + 1, Inr (200, Some \<lparr> lr_identity = [], lr_public_key = b64_encode sample_base64 [7] \<rparr>))) \<rparr>"

definition sample_ds :: "nat ds_http" where
  "sample_ds = \<lparr> ds_post = (\<lambda>w url body. (w + 1, Inr (200, Some []))),
     ds_get = (\<lambda>w url body. (w + 1, Inr (200, Some (if w < 4 then [] else [7])))) \<rparr>"

definition sample_tls :: "(unit, bytes, bytes) tls" where
  "sample_tls = \<lparr> tls_register_request = (\<lambda>kps. Some []), tls_register_response = (\<lambda>bs. Some ()),
     tls_client_list = (\<lambda>bs. Some [ascii ''a:sender'']), tls_recv_request = (\<lambda>t. Some []),
     tls_messages = (\<lambda>bs. Some [[], bs]), tls_base64_url = (\<lambda>bs. []) \<rparr>"

definition sample_setup :: "(bytes list, bytes, bytes, bytes, bytes, bytes) mls_setup" where
  "sample_setup = \<lparr> kp_deserialize = Some, kp_validate = Some, kp_signature_key = (\<lambda>kp. kp), group_new = Some [],
     group_add_members = (\<lambda>g kps. Some (g @ kps, concat kps)), group_merge_pending_commit = Some,
     welcome_serialize = Some, msg_into_welcome = (\<lambda>m. if m = [] then None else Some m),
     stage_welcome = Some, staged_into_group = (\<lambda>s. Some [s]) \<rparr>"

definition sample_openmls :: "(unit, bytes, bytes) openmls" where
  "sample_openmls = \<lparr> om_provider = (), om_generate_signer = (\<lambda>e. Some [1]), om_store_signer = (\<lambda>k p. Some p),
     om_public_key = (\<lambda>k. k), om_build_key_package = (\<lambda>p k cred key. Some (p, key)) \<rparr>"

definition sample_kp_ops :: "(bytes, bytes) key_package_ops" where
  "sample_kp_ops = \<lparr> kp_hash_ref = Some, kp_into_in = (\<lambda>kp. kp) \<rparr>"

lemmas sample_setup_defs = sample_as_def sample_ds_def sample_tls_def sample_setup_def sample_openmls_def sample_kp_ops_def


text \<open>
  C24. A joining client enters the group of the first Welcome: if its polls of the inbox succeed, the
  first \<open>n\<close> of them without a Welcome, and the next one holds a Welcome behind messages that are
  none, then \<open>join_group\<close> returns, after exactly those polls, with the group of that Welcome.
\<close>

theorem joined_first_welcome:
  assumes "dc_auth_token c = Some token" and "dc_client_id c = Some cid" and "tls_recv_request L token = Some req"
    and "\<forall>i\<le>n. ds_get H (ws i) (dc_ds_url c @ ''/recv/'' @ tls_base64_url L cid) req = (ws (Suc i), Inr (200, Some (body i)))"
    and "\<forall>i<n. body i = [] \<or> (\<exists>msgs. tls_messages L (body i) = Some msgs \<and> (\<forall>m\<in>set msgs. msg_into_welcome M m = None))"
    and "body n \<noteq> []" and "tls_messages L (body n) = Some (earlier @ msg # later)"
    and "\<forall>m\<in>set earlier. msg_into_welcome M m = None" and "msg_into_welcome M msg = Some wel"
    and "stage_welcome M wel = Some staged" and "staged_into_group M staged = Some grp"
  shows "join_group L H M c (ws 0) = Some (Done (ws (Suc n), grp))"
proof -
  have r: "recv_messages L H c (ws i) = Done (ws (Suc i), if body i = [] then Inr []
      else case tls_messages L (body i) of None \<Rightarrow> Inl Ds_Parse | Some msgs \<Rightarrow> Inr msgs)" if "i \<le> n" for i
    using assms(4) that
    by (simp add: recv_messages_def DsClient_auth_token_def DsClient_id_b64_def assms(1-3) is_success_def)
  have none: "dropWhile (\<lambda>m. msg_into_welcome M m = None) msgs = []" if "\<forall>m\<in>set msgs. msg_into_welcome M m = None" for msgs
    using that by (simp add: dropWhile_eq_Nil_conv)
  have "\<forall>i<n. try_welcome L H M c (ws i) = Done (ws (Suc i), None)"
    using assms(5) r by (auto simp: try_welcome_def none)
  moreover have "try_welcome L H M c (ws n) = Done (ws (Suc n), Some wel)"
    using r [of n] assms(6-9) by (simp add: try_welcome_def dropWhile_append2)
  ultimately have "poll (try_welcome L H M c) (ws 0) = Some (Done (ws (Suc n), wel))" by (rule poll_returns)
  then show ?thesis using assms(10,11) by (simp add: join_group_def)
qed

theorem joined_first_welcome_witness:
  "join_group sample_tls sample_ds sample_setup \<lparr> dc_as_url = ''as'', dc_ds_url = ''ds'', dc_auth_token = Some (), dc_client_id = Some [1] \<rparr> 2 =
     Some (Done (5, [[7]]))"
  using joined_first_welcome [of "\<lparr> dc_as_url = ''as'', dc_ds_url = ''ds'', dc_auth_token = Some (), dc_client_id = Some [1] \<rparr>"
      "()" "[1]" sample_tls "[]" 2 sample_ds "\<lambda>i. i + 2" "\<lambda>i. if i < 2 then [] else [7]" sample_setup "[[]]" "[7]" "[]" "[7]" "[7]" "[[7]]"]
  by (simp add: sample_setup_defs numeral_2_eq_2)

end
