(* ===== verification/Multicast.thy ===== *)
theory Multicast
  imports Demo_Client
begin

text \<open>
  The demo's sockets, \<^verbatim>\<open>demo/safecast-client/src/multicast.rs\<close>. The operating system, reached through
  \<^verbatim>\<open>tokio\<close> and \<^verbatim>\<open>socket2\<close>, is a parameter: its calls may fail, and their effect is stated as named
  hypotheses on a view of each open socket (\<open>os_sound\<close>, and \<open>os_ample\<close> for a host with resources to
  spare). A socket that goes out of scope is closed.

  Shown here: any number of receivers can be set up on one host, since every receiver allows
  sharing of its port before it binds (the Unix branch of the code), and each of them hears what is sent to \<^verbatim>\<open>multicast_dest\<close>; a
  receiver that cannot be set up leaves no socket behind.
\<close>

section \<open>Addresses\<close>

type_synonym ipv4 = "u8 \<times> u8 \<times> u8 \<times> u8"

definition UNSPECIFIED :: ipv4 where
  "UNSPECIFIED = (0, 0, 0, 0)"

definition MULTICAST_ADDR :: ipv4 where
  "MULTICAST_ADDR = (239, 0, 0, 1)"

definition MULTICAST_PORT :: u16 where
  "MULTICAST_PORT = 5004"

text \<open>\<^verbatim>\<open>Display\<close> of an IPv4 address.\<close>

definition ipv4_string :: "ipv4 \<Rightarrow> string" where
  "ipv4_string addr = (case addr of (a, b, c, d) \<Rightarrow>
     dec_string (unat a) @ ''.'' @ dec_string (unat b) @ ''.'' @ dec_string (unat c) @ ''.'' @ dec_string (unat d))"

definition multicast_dest :: string where
  "multicast_dest = ipv4_string MULTICAST_ADDR @ '':'' @ dec_string (unat MULTICAST_PORT)"

section \<open>The operating system\<close>

datatype sock_opt = Reuse_Address bool | Reuse_Port bool | Nonblocking bool | Multicast_Ttl u32

record ('w, 's) os =
  os_socket :: "'w \<Rightarrow> 'w \<times> (string + 's)"
  os_bind_udp :: "'w \<Rightarrow> string \<Rightarrow> 'w \<times> (string + 's)"
  os_set :: "'w \<Rightarrow> 's \<Rightarrow> sock_opt \<Rightarrow> 'w \<times> (string + unit)"
  os_bind :: "'w \<Rightarrow> 's \<Rightarrow> ipv4 \<times> u16 \<Rightarrow> 'w \<times> (string + unit)"
  os_join :: "'w \<Rightarrow> 's \<Rightarrow> ipv4 \<Rightarrow> ipv4 \<Rightarrow> 'w \<times> (string + unit)"
  os_register :: "'w \<Rightarrow> 's \<Rightarrow> 'w \<times> (string + unit)"
  os_close :: "'w \<Rightarrow> 's \<Rightarrow> 'w"
  os_send_to :: "'w \<Rightarrow> 's \<Rightarrow> bytes \<Rightarrow> string \<Rightarrow> 'w \<times> (string + nat)"

text \<open>The \<^verbatim>\<open>?\<close> on a call with a socket in scope: an error closes the socket and is returned.\<close>

definition try_sock ::
  "('w, 's) os \<Rightarrow> 's \<Rightarrow> 'w \<times> (string + 'a) \<Rightarrow> ('w \<Rightarrow> 'a \<Rightarrow> 'w \<times> (string + 'b)) \<Rightarrow> 'w \<times> (string + 'b)" where
  "try_sock S s r k = (case r of (w, Inl e) \<Rightarrow> (os_close S w s, Inl e) | (w, Inr a) \<Rightarrow> k w a)"

definition create_multicast_sender :: "('w, 's) os \<Rightarrow> 'w \<Rightarrow> 'w \<times> (string + 's)" where
  "create_multicast_sender S w =
     (case os_bind_udp S w ''0.0.0.0:0'' of
        (w1, Inl e) \<Rightarrow> (w1, Inl e)
      | (w1, Inr socket) \<Rightarrow>
          try_sock S socket (os_set S w1 socket (Multicast_Ttl 1)) (\<lambda>w2 _. (w2, Inr socket)))"

definition create_multicast_receiver :: "('w, 's) os \<Rightarrow> 'w \<Rightarrow> 'w \<times> (string + 's)" where
  "create_multicast_receiver S w =
     (case os_socket S w of
        (w1, Inl e) \<Rightarrow> (w1, Inl e)
      | (w1, Inr socket) \<Rightarrow>
          try_sock S socket (os_set S w1 socket (Reuse_Address True)) (\<lambda>w2 _.
          try_sock S socket (os_set S w2 socket (Reuse_Port True)) (\<lambda>w3 _.
          try_sock S socket (os_set S w3 socket (Nonblocking True)) (\<lambda>w4 _.
          try_sock S socket (os_bind S w4 socket (UNSPECIFIED, MULTICAST_PORT)) (\<lambda>w5 _.
          try_sock S socket (os_join S w5 socket MULTICAST_ADDR UNSPECIFIED) (\<lambda>w6 _.
          try_sock S socket (os_register S w6 socket) (\<lambda>w7 _. (w7, Inr socket))))))))"

section \<open>What is relied on\<close>

record sock =
  sk_reuse_address :: bool
  sk_reuse_port :: bool
  sk_nonblocking :: bool
  sk_bound :: "(ipv4 \<times> u16) option"
  sk_groups :: "(ipv4 \<times> ipv4) list"
  sk_ttl :: u32

definition new_sock :: sock where
  "new_sock = \<lparr> sk_reuse_address = False, sk_reuse_port = False, sk_nonblocking = False, sk_bound = None,
     sk_groups = [], sk_ttl = 1 \<rparr>"

fun with_opt :: "sock_opt \<Rightarrow> sock \<Rightarrow> sock" where
  "with_opt (Reuse_Address b) k = k\<lparr>sk_reuse_address := b\<rparr>"
| "with_opt (Reuse_Port b) k = k\<lparr>sk_reuse_port := b\<rparr>"
| "with_opt (Nonblocking b) k = k\<lparr>sk_nonblocking := b\<rparr>"
| "with_opt (Multicast_Ttl n) k = k\<lparr>sk_ttl := n\<rparr>"

definition shares :: "sock \<Rightarrow> bool" where
  "shares k \<longleftrightarrow> sk_reuse_address k \<and> sk_reuse_port k"

text \<open>
  Calls that succeed do what they are documented to do to their own socket and nothing to others;
  calls that fail change no socket.
\<close>

definition effect :: "('w \<Rightarrow> 's \<rightharpoonup> sock) \<Rightarrow> 'w \<Rightarrow> 's \<Rightarrow> (sock \<Rightarrow> sock) \<Rightarrow> 'w \<times> (string + unit) \<Rightarrow> bool" where
  "effect view w s f r \<longleftrightarrow> (case r of
     (w', Inr _) \<Rightarrow> view w' = (view w)(s := map_option f (view w s))
   | (w', Inl _) \<Rightarrow> view w' = view w)"

definition os_sound :: "('w, 's) os \<Rightarrow> ('w \<Rightarrow> 's \<rightharpoonup> sock) \<Rightarrow> bool" where
  "os_sound S view \<longleftrightarrow>
     (\<forall>w. case os_socket S w of (w', Inr s) \<Rightarrow> view w s = None \<and> view w' = (view w)(s \<mapsto> new_sock) | (w', Inl _) \<Rightarrow> view w' = view w) \<and>
     (\<forall>w s opt. effect view w s (with_opt opt) (os_set S w s opt)) \<and>
     (\<forall>w s a. effect view w s (sk_bound_update (\<lambda>_. Some a)) (os_bind S w s a)) \<and>
     (\<forall>w s g i. effect view w s (sk_groups_update (Cons (g, i))) (os_join S w s g i)) \<and>
     (\<forall>w s. effect view w s (\<lambda>k. k) (os_register S w s)) \<and>
     (\<forall>w s. view (os_close S w s) = (view w)(s := None))"

text \<open>
  Only a port in use makes a call fail: an unbound socket can bind to a port if it and every
  socket bound there allow sharing.
\<close>

definition os_ample :: "('w, 's) os \<Rightarrow> ('w \<Rightarrow> 's \<rightharpoonup> sock) \<Rightarrow> bool" where
  "os_ample S view \<longleftrightarrow>
     (\<forall>w. \<exists>w' s. os_socket S w = (w', Inr s)) \<and>
     (\<forall>w s opt. view w s \<noteq> None \<longrightarrow> snd (os_set S w s opt) = Inr ()) \<and>
     (\<forall>w s a p k. view w s = Some k \<and> sk_bound k = None \<and> shares k \<and>
        (\<forall>t k'. view w t = Some k' \<and> map_option snd (sk_bound k') = Some p \<longrightarrow> shares k') \<longrightarrow>
        snd (os_bind S w s (a, p)) = Inr ()) \<and>
     (\<forall>w s g i k. view w s = Some k \<and> (g, i) \<notin> set (sk_groups k) \<longrightarrow> snd (os_join S w s g i) = Inr ()) \<and>
     (\<forall>w s k. view w s = Some k \<and> sk_nonblocking k \<longrightarrow> snd (os_register S w s) = Inr ())"

text \<open>A socket hears datagrams to its port on a group it joined, if it is bound to any address or to that group.\<close>

definition hears :: "sock \<Rightarrow> ipv4 \<times> u16 \<Rightarrow> bool" where
  "hears k dest \<longleftrightarrow> (case sk_bound k of
     None \<Rightarrow> False
   | Some (a, p) \<Rightarrow> p = snd dest \<and> (a = UNSPECIFIED \<or> a = fst dest) \<and> fst dest \<in> fst ` set (sk_groups k))"

section \<open>Lemmas\<close>

lemma try_sock_simps [simp]:
  "try_sock S s (w, Inl e) k = (os_close S w s, Inl e)"
  "try_sock S s (w, Inr a) k = k w a"
  by (simp_all add: try_sock_def)

definition receiver_sock :: sock where
  "receiver_sock = \<lparr> sk_reuse_address = True, sk_reuse_port = True, sk_nonblocking = True,
     sk_bound = Some (UNSPECIFIED, MULTICAST_PORT), sk_groups = [(MULTICAST_ADDR, UNSPECIFIED)], sk_ttl = 1 \<rparr>"

lemma receiver_sock_facts: "shares receiver_sock" "hears receiver_sock (MULTICAST_ADDR, MULTICAST_PORT)"
  by (simp_all add: receiver_sock_def shares_def hears_def)

lemma os_soundD:
  assumes "os_sound S view"
  shows "os_socket S w = (w', Inr s) \<Longrightarrow> view w s = None \<and> view w' = (view w)(s \<mapsto> new_sock)"
    and "os_socket S w = (w', Inl e) \<Longrightarrow> view w' = view w"
    and "effect view w s (with_opt opt) (os_set S w s opt)"
    and "effect view w s (sk_bound_update (\<lambda>_. Some a)) (os_bind S w s a)"
    and "effect view w s (sk_groups_update (Cons (g, i))) (os_join S w s g i)"
    and "effect view w s (\<lambda>k. k) (os_register S w s)"
    and "view (os_close S w s) = (view w)(s := None)"
proof -
  have "\<forall>w. case os_socket S w of (w', Inr s) \<Rightarrow> view w s = None \<and> view w' = (view w)(s \<mapsto> new_sock) | (w', Inl _) \<Rightarrow> view w' = view w"
    using assms unfolding os_sound_def by (rule conjunct1)
  then have "case os_socket S w of (w', Inr s) \<Rightarrow> view w s = None \<and> view w' = (view w)(s \<mapsto> new_sock) | (w', Inl _) \<Rightarrow> view w' = view w" ..
  then show "os_socket S w = (w', Inr s) \<Longrightarrow> view w s = None \<and> view w' = (view w)(s \<mapsto> new_sock)"
    and "os_socket S w = (w', Inl e) \<Longrightarrow> view w' = view w" by simp_all
qed (use assms in \<open>unfold os_sound_def, blast+\<close>)

lemma os_ampleD:
  assumes "os_ample S view"
  shows "\<exists>w' s. os_socket S w = (w', Inr s)"
    and "view w s \<noteq> None \<Longrightarrow> \<exists>w'. os_set S w s opt = (w', Inr ())"
    and "view w s = Some k \<Longrightarrow> sk_bound k = None \<Longrightarrow> shares k \<Longrightarrow>
      (\<And>t k'. view w t = Some k' \<Longrightarrow> map_option snd (sk_bound k') = Some p \<Longrightarrow> shares k') \<Longrightarrow> \<exists>w'. os_bind S w s (a, p) = (w', Inr ())"
    and "view w s = Some k \<Longrightarrow> (g, i) \<notin> set (sk_groups k) \<Longrightarrow> \<exists>w'. os_join S w s g i = (w', Inr ())"
    and "view w s = Some k \<Longrightarrow> sk_nonblocking k \<Longrightarrow> \<exists>w'. os_register S w s = (w', Inr ())"
  using assms unfolding os_ample_def by (blast, (metis prod.collapse)+)

text \<open>One call on the socket being set up: it is closed again, or it has the new option.\<close>

lemma try_step:
  assumes "os_sound S view" and "view w = V(s \<mapsto> k)" and "V s = None" and "effect view w s f r"
    and "\<And>w'. view w' = V(s \<mapsto> f k) \<Longrightarrow> P (c w' ())" and "\<And>w' e. view w' = V \<Longrightarrow> P (w', Inl e)"
  shows "P (try_sock S s r c)"
proof (cases r)
  case (Pair w' res)
  note close = os_soundD(7) [OF assms(1), of w' s]
  show ?thesis
  proof (cases res)
    case (Inl e)
    then have "view w' = V(s \<mapsto> k)" using assms(2,4) Pair by (simp add: effect_def)
    then have "view (os_close S w' s) = V" using close assms(3) by auto
    then show ?thesis using assms(6) Pair Inl by simp
  next
    case (Inr u)
    then show ?thesis using assms(2,4,5) Pair by (simp add: effect_def)
  qed
qed

lemma create_receiver_view:
  assumes "os_sound S view"
  shows "case create_multicast_receiver S w of
    (w', Inl e) \<Rightarrow> view w' = view w
  | (w', Inr s) \<Rightarrow> view w s = None \<and> view w' = (view w)(s \<mapsto> receiver_sock)"
proof -
  let ?P = "\<lambda>r. case r of (w', Inl e) \<Rightarrow> view w' = view w
    | (w', Inr s) \<Rightarrow> view w s = None \<and> view w' = (view w)(s \<mapsto> receiver_sock)"
  note E = os_soundD(3-6) [OF assms]
  note step = try_step [where P = ?P and V = "view w", OF assms]
  show ?thesis
  proof (cases "os_socket S w")
    case (Pair w1 res)
    show ?thesis
    proof (cases res)
      case (Inl e)
      then show ?thesis using os_soundD(2) [OF assms] Pair by (simp add: create_multicast_receiver_def)
    next
      case (Inr s)
      then have s: "view w s = None" "view w1 = (view w)(s \<mapsto> new_sock)" using os_soundD(1) [OF assms] Pair by blast+
      show ?thesis unfolding create_multicast_receiver_def Pair Inr prod.case sum.case
        by (rule step [OF s(2,1) E(1)], rule step [OF _ s(1) E(1)], assumption, rule step [OF _ s(1) E(1)], assumption,
            rule step [OF _ s(1) E(2)], assumption, rule step [OF _ s(1) E(3)], assumption, rule step [OF _ s(1) E(4)], assumption)
          (simp_all add: s(1) receiver_sock_def new_sock_def)
    qed
  qed
qed

lemma create_receiver_succeeds:
  assumes "os_sound S view" and "os_ample S view"
    and free: "\<And>t k. view w t = Some k \<Longrightarrow> map_option snd (sk_bound k) = Some MULTICAST_PORT \<Longrightarrow> shares k"
  shows "\<exists>w' s. create_multicast_receiver S w = (w', Inr s)"
proof -
  note D = os_soundD [OF assms(1), unfolded effect_def] and A = os_ampleD [OF assms(2)]
  obtain w1 s where 1: "os_socket S w = (w1, Inr s)" using A(1) by blast
  note v1 = D(1) [OF 1, THEN conjunct2]
  obtain w2 where 2: "os_set S w1 s (Reuse_Address True) = (w2, Inr ())" using A(2) [of w1 s] v1 by auto
  have v2: "view w2 = (view w)(s \<mapsto> new_sock\<lparr>sk_reuse_address := True\<rparr>)" using D(3) [of w1 s "Reuse_Address True"] 2 v1 by simp
  obtain w3 where 3: "os_set S w2 s (Reuse_Port True) = (w3, Inr ())" using A(2) [of w2 s] v2 by auto
  have v3: "view w3 = (view w)(s \<mapsto> new_sock\<lparr>sk_reuse_address := True, sk_reuse_port := True\<rparr>)"
    using D(3) [of w2 s "Reuse_Port True"] 3 v2 by simp
  obtain w4 where 4: "os_set S w3 s (Nonblocking True) = (w4, Inr ())" using A(2) [of w3 s] v3 by auto
  have v4: "view w4 = (view w)(s \<mapsto> new_sock\<lparr>sk_reuse_address := True, sk_reuse_port := True, sk_nonblocking := True\<rparr>)"
    using D(3) [of w3 s "Nonblocking True"] 4 v3 by simp
  have "\<exists>w5. os_bind S w4 s (UNSPECIFIED, MULTICAST_PORT) = (w5, Inr ())"
    by (rule A(3) [of w4 s]) (use v4 free in \<open>auto simp: new_sock_def shares_def split: if_splits\<close>)
  then obtain w5 where 5: "os_bind S w4 s (UNSPECIFIED, MULTICAST_PORT) = (w5, Inr ())" by blast
  have v5: "view w5 = (view w)(s \<mapsto> new_sock\<lparr>sk_reuse_address := True, sk_reuse_port := True, sk_nonblocking := True,
      sk_bound := Some (UNSPECIFIED, MULTICAST_PORT)\<rparr>)"
    using D(4) [of w4 s "(UNSPECIFIED, MULTICAST_PORT)"] 5 v4 by simp
  have "\<exists>w6. os_join S w5 s MULTICAST_ADDR UNSPECIFIED = (w6, Inr ())"
    by (rule A(4) [of w5 s]) (use v5 in \<open>auto simp: new_sock_def\<close>)
  then obtain w6 where 6: "os_join S w5 s MULTICAST_ADDR UNSPECIFIED = (w6, Inr ())" by blast
  have "view w6 = (view w)(s \<mapsto> receiver_sock)" using D(5) [of w5 s MULTICAST_ADDR UNSPECIFIED] 6 v5
    by (simp add: receiver_sock_def new_sock_def)
  then have "\<exists>w7. os_register S w6 s = (w7, Inr ())" by (intro A(5) [of w6 s]) (auto simp: receiver_sock_def)
  then show ?thesis using 1 2 3 4 5 6 by (auto simp: create_multicast_receiver_def)
qed

section \<open>Properties\<close>

text \<open>Several receivers started on one host.\<close>

fun create_receivers :: "('w, 's) os \<Rightarrow> nat \<Rightarrow> 'w \<Rightarrow> 'w \<times> (string + 's list)" where
  "create_receivers S 0 w = (w, Inr [])"
| "create_receivers S (Suc n) w =
     (case create_multicast_receiver S w of
        (w1, Inl e) \<Rightarrow> (w1, Inl e)
      | (w1, Inr s) \<Rightarrow>
          (case create_receivers S n w1 of (w2, Inl e) \<Rightarrow> (w2, Inl e) | (w2, Inr ss) \<Rightarrow> (w2, Inr (s # ss))))"

text \<open>
  C25. Receivers share a host: on a host where every socket bound to the media port allows sharing it,
  any number of receivers can be set up one after the other. Their sockets are new and distinct,
  all hear the group address and port that the senders' destination string names, and no other
  socket is affected.
\<close>

theorem receivers_share_port:
  assumes "os_sound S view" and "os_ample S view"
    and "\<forall>t k. view w t = Some k \<and> map_option snd (sk_bound k) = Some MULTICAST_PORT \<longrightarrow> shares k"
  shows "\<exists>w' ss. create_receivers S n w = (w', Inr ss) \<and> length ss = n \<and> distinct ss \<and>
    (\<forall>s. if s \<in> set ss then view w s = None \<and> (\<exists>k. view w' s = Some k \<and> hears k ((239, 0, 0, 1), 5004)) else view w' s = view w s) \<and>
    multicast_dest = ''239.0.0.1:5004''"
proof -
  have dest: "multicast_dest = ''239.0.0.1:5004''"
    by (simp add: multicast_dest_def ipv4_string_def MULTICAST_ADDR_def MULTICAST_PORT_def dec_string.simps char_of_def bit_0)
  have h: "hears receiver_sock ((239, 0, 0, 1), 5004)"
    using receiver_sock_facts(2) by (simp add: MULTICAST_ADDR_def MULTICAST_PORT_def)
  have "\<exists>w' ss. create_receivers S n w = (w', Inr ss) \<and> length ss = n \<and> distinct ss \<and>
    (\<forall>s. if s \<in> set ss then view w s = None \<and> view w' s = Some receiver_sock else view w' s = view w s)"
    using assms(3)
  proof (induction n arbitrary: w)
    case (Suc n)
    obtain w1 s where c: "create_multicast_receiver S w = (w1, Inr s)"
      using create_receiver_succeeds [OF assms(1,2), of w] Suc.prems by blast
    have s: "view w s = None" "view w1 = (view w)(s \<mapsto> receiver_sock)" using create_receiver_view [OF assms(1), of w] c by simp_all
    have "\<forall>t k. view w1 t = Some k \<and> map_option snd (sk_bound k) = Some MULTICAST_PORT \<longrightarrow> shares k"
      using Suc.prems receiver_sock_facts(1) by (auto simp: s(2))
    from Suc.IH [OF this] obtain w2 ss where r: "create_receivers S n w1 = (w2, Inr ss)" "length ss = n" "distinct ss"
      "\<And>t. if t \<in> set ss then view w1 t = None \<and> view w2 t = Some receiver_sock else view w2 t = view w1 t" by blast
    have new: "s \<notin> set ss" using r(4) [of s] s(2) by auto
    have "if t \<in> set (s # ss) then view w t = None \<and> view w2 t = Some receiver_sock else view w2 t = view w t" for t
      using r(4) [of t] s new by (auto split: if_splits)
    then show ?case using c r(1-3) new by (intro exI [of _ w2] exI [of _ "s # ss"]) simp
  qed simp
  then obtain w' ss where "create_receivers S n w = (w', Inr ss)" "length ss = n" "distinct ss"
    "\<forall>s. if s \<in> set ss then view w s = None \<and> view w' s = Some receiver_sock else view w' s = view w s" by blast
  then show ?thesis using dest h by (intro exI [of _ w'] exI [of _ ss]) (auto split: if_splits)
qed

text \<open>A host for examples: its sockets are the positions of a list.\<close>

definition sample_view :: "sock option list \<Rightarrow> nat \<rightharpoonup> sock" where
  "sample_view w s = (if s < length w then w ! s else None)"

definition sample_update :: "(sock option \<Rightarrow> sock option) \<Rightarrow> sock option list \<Rightarrow> nat \<Rightarrow> sock option list" where
  "sample_update f w s = (if s < length w then w[s := f (w ! s)] else w)"

definition sample_os :: "(sock option list, nat) os" where
  "sample_os = \<lparr> os_socket = (\<lambda>w. (w @ [Some new_sock], Inr (length w))),
     os_bind_udp = (\<lambda>w a. (w @ [Some (new_sock\<lparr>sk_bound := Some (UNSPECIFIED, 40000)\<rparr>)], Inr (length w))),
     os_set = (\<lambda>w s opt. (sample_update (map_option (with_opt opt)) w s, Inr ())),
     os_bind = (\<lambda>w s a.
       if \<forall>k\<in>set w. case k of None \<Rightarrow> True | Some k \<Rightarrow> map_option snd (sk_bound k) = Some (snd a) \<longrightarrow> shares k
       then (sample_update (map_option (sk_bound_update (\<lambda>_. Some a))) w s, Inr ()) else (w, Inl ''in use'')),
     os_join = (\<lambda>w s g i. (sample_update (map_option (sk_groups_update (Cons (g, i)))) w s, Inr ())),
     os_register = (\<lambda>w s. (w, Inr ())), os_close = (\<lambda>w s. sample_update (\<lambda>_. None) w s),
     os_send_to = (\<lambda>w s data dest. (w, Inr (length data))) \<rparr>"

lemma sample_view_update: "sample_view (sample_update f w s) =
    (sample_view w)(s := (if s < length w then f (w ! s) else None))"
  by (auto simp: sample_view_def sample_update_def fun_eq_iff)

lemma sample_os_sound: "os_sound sample_os sample_view"
  unfolding os_sound_def effect_def
  by (simp add: sample_os_def sample_view_update) (auto simp: sample_view_def fun_eq_iff nth_append option.map_ident)

lemma sample_os_ample: "os_ample sample_os sample_view"
  unfolding os_ample_def sample_os_def by (auto simp: sample_view_def in_set_conv_nth split: option.splits) metis

theorem receivers_share_port_witness:
  "\<exists>w' ss. create_receivers sample_os 3 [] = (w', Inr ss) \<and> length ss = 3 \<and> distinct ss"
  using receivers_share_port [OF sample_os_sound sample_os_ample, of "[]" 3] by (auto simp: sample_view_def)

end
