(* ===== verification/Client_Main.thy ===== *)
theory Client_Main
  imports Group_Setup Multicast
begin

text \<open>
  The demo client as a whole: \<^verbatim>\<open>main\<close> of \<^verbatim>\<open>demo/safecast-client/src/main.rs\<close> from the command line to the
  last packet, with the sockets of theory \<open>Multicast\<close> under the media loops of theory \<open>Demo_Client\<close> and
  the setup of theory \<open>Group_Setup\<close> before them. All external code is gathered in one record; the events
  a receiver's socket delivers and the entropy a client draws are arguments.

  Shown here: when senders and a receiver have each come out of setup in the same epoch, every
  sender sends all its packets and the receiver shows each one that arrives exactly once.
\<close>

section \<open>The command line\<close>

record Cli =
  cli_mode :: Mode
  cli_senders :: u32
  cli_receivers :: u32
  cli_packets :: u32
  cli_as_url :: string
  cli_ds_url :: string

text \<open>Only the mode has no default.\<close>

definition Cli_default :: "Mode \<Rightarrow> Cli" where
  "Cli_default mode = \<lparr> cli_mode = mode, cli_senders = 1, cli_receivers = 1, cli_packets = 3,
     cli_as_url = ''http://127.0.0.1:8001'', cli_ds_url = ''http://127.0.0.1:8080'' \<rparr>"

section \<open>Media over sockets\<close>

definition send_packet ::
  "('w, 's) os \<Rightarrow> srtp_crypto \<Rightarrow> 's \<Rightarrow> string \<Rightarrow> string \<Rightarrow> u32 \<Rightarrow> srtp_session \<times> 'w \<Rightarrow> u32 \<Rightarrow> ((srtp_session \<times> 'w) \<times> bytes) outcome" where
  "send_packet S C socket dest label ssrc st i =
     (case st of (session, w) \<Rightarrow>
        obind (send_one C label ssrc session i) (\<lambda>(session', buf).
        case os_send_to S w socket buf dest of (w', res) \<Rightarrow>
          obind (expect_ok res) (\<lambda>_. Done ((session', w'), buf))))"

definition send_media ::
  "('w, 's) os \<Rightarrow> srtp_crypto \<Rightarrow> string \<Rightarrow> u32 \<Rightarrow> bytes \<Rightarrow> u32 \<Rightarrow> 'w \<Rightarrow> ('w \<times> bytes list) outcome" where
  "send_media S C label ssrc key_material num_packets w =
     obind (create_sender_session C key_material) (\<lambda>session.
     case create_multicast_sender S w of (w1, res) \<Rightarrow>
       obind (expect_ok res) (\<lambda>socket.
       obind (run_steps (send_packet S C socket multicast_dest label ssrc) (session, w1) (map of_nat [1..<unat num_packets + 1]))
         (\<lambda>((session', w2), sent). Done (os_close S w2 socket, sent))))"

definition recv_media ::
  "('w, 's) os \<Rightarrow> srtp_crypto \<Rightarrow> (u32 \<rightharpoonup> srtp_session) \<Rightarrow> u32 \<Rightarrow> recv_event list \<Rightarrow> 'w \<Rightarrow>
     ('w \<times> RtpPacket list \<times> recv_end) outcome" where
  "recv_media S C sessions expected_packets events w =
     (case create_multicast_receiver S w of (w1, res) \<Rightarrow>
        obind (expect_ok res) (\<lambda>socket.
        obind (recv_srtp C sessions 0 expected_packets [] events) (\<lambda>(sessions', received, shown, how).
        Done (if how = Recv_Waiting then w1 else os_close S w1 socket, shown, how))))"

section \<open>The client\<close>

record ('w, 's, 't, 'kpin, 'msg, 'prov, 'sk, 'kpb, 'g, 'kp, 'welcome, 'staged, 'c, 'p, 'sc) client_env =
  ce_os :: "('w, 's) os"
  ce_crypto :: srtp_crypto
  ce_mls :: "('g, 'c, 'p, 'sc) mls"
  ce_hash :: "string \<Rightarrow> nat"
  ce_base64 :: base64
  ce_as :: "'w http"
  ce_tls :: "('t, 'kpin, 'msg) tls"
  ce_ds :: "'w ds_http"
  ce_openmls :: "('prov, 'sk, 'kpb) openmls"
  ce_kp_ops :: "('kpb, 'kpin) key_package_ops"
  ce_setup :: "('g, 'kpin, 'kp, 'welcome, 'staged, 'msg) mls_setup"
  ce_members :: "'g \<Rightarrow> Member list"

definition client_setup ::
  "('w, 's, 't, 'kpin, 'msg, 'prov, 'sk, 'kpb, 'g, 'kp, 'welcome, 'staged, 'c, 'p, 'sc) client_env \<Rightarrow>
     Cli \<Rightarrow> nat \<Rightarrow> nat \<Rightarrow> 'w \<Rightarrow> ('w \<times> 'g) outcome option" where
  "client_setup E cli pid entropy w =
     main_setup (ce_base64 E) (ce_as E) (ce_tls E) (ce_ds E) (ce_openmls E) (ce_kp_ops E) (ce_setup E) (ce_members E)
       (cli_as_url cli) (cli_ds_url cli) pid (cli_mode cli) (cli_senders cli) (cli_receivers cli) entropy w"

text \<open>How a client ends: with the group created, everything sent, or what it has shown.\<close>

datatype client_end = Client_Created | Client_Sent "bytes list" | Client_Received "RtpPacket list" recv_end

definition client_main ::
  "('w, 's, 't, 'kpin, 'msg, 'prov, 'sk, 'kpb, 'g, 'kp, 'welcome, 'staged, 'c, 'p, 'sc) client_env \<Rightarrow>
     Cli \<Rightarrow> nat \<Rightarrow> nat \<Rightarrow> recv_event list \<Rightarrow> 'w \<Rightarrow> ('w \<times> client_end) outcome option" where
  "client_main E cli pid entropy events w =
     (let identity = generate_identity pid (cli_mode cli) in
      pbind (Some (parse_credential_identity identity)) (\<lambda>(label, _).
      pbind (client_setup E cli pid entropy w) (\<lambda>(w1, grp).
      Some (if cli_mode cli = Mode_Creator then Done (w1, Client_Created)
        else obind (member_roles (ce_members E grp)) (\<lambda>all_members.
          let senders = sender_identities all_members; my_ssrc = ssrc_from_identity (ce_hash E) identity in
          if cli_mode cli = Mode_Sender
          then obind (export_srtp_keys (ce_mls E) grp my_ssrc) (\<lambda>(key_material, _, _).
               obind (send_media (ce_os E) (ce_crypto E) label my_ssrc key_material (cli_packets cli) w1) (\<lambda>(w2, sent).
               Done (w2, Client_Sent sent)))
          else obind (receiver_sessions (ce_crypto E) (ce_mls E) (ce_hash E) grp Map.empty senders) (\<lambda>sessions.
               obind (checked_mul32 (of_nat (length senders)) (cli_packets cli)) (\<lambda>expected_packets.
               obind (recv_media (ce_os E) (ce_crypto E) sessions expected_packets events w1) (\<lambda>(w2, shown, how).
               Done (w2, Client_Received shown how)))))))))"

section \<open>Lemmas\<close>

text \<open>Sockets can be opened and datagrams handed over.\<close>

definition sockets_work :: "('w, 's) os \<Rightarrow> bool" where
  "sockets_work S \<longleftrightarrow>
     (\<forall>w. \<exists>w' s. create_multicast_sender S w = (w', Inr s)) \<and>
     (\<forall>w. \<exists>w' s. create_multicast_receiver S w = (w', Inr s)) \<and>
     (\<forall>w s data dest. \<exists>w' n. os_send_to S w s data dest = (w', Inr n))"

lemma send_packets:
  assumes "sockets_work S" and "run_steps (send_one C label ssrc) session is = Done (session', sent)"
  shows "\<exists>w'. run_steps (send_packet S C socket dest label ssrc) (session, w) is = Done ((session', w'), sent)"
  using assms(2)
proof (induction "is" arbitrary: session sent w)
  case (Cons i rest)
  then obtain s1 buf out where s: "send_one C label ssrc session i = Done (s1, buf)"
    "run_steps (send_one C label ssrc) s1 rest = Done (session', out)" "sent = buf # out"
    by (auto simp: outcome_simps)
  obtain w1 n where w: "os_send_to S w socket buf dest = (w1, Inr n)" using assms(1) unfolding sockets_work_def by blast
  from Cons.IH [OF s(2), of w1] show ?case using s w by (auto simp: send_packet_def)
qed simp

lemma send_media_sent:
  assumes "sockets_work S" and "send_srtp C label ssrc key_material n = Done sent"
  shows "\<exists>w'. send_media S C label ssrc key_material n w = Done (w', sent)"
proof -
  obtain session session' where s: "create_sender_session C key_material = Done session"
    "run_steps (send_one C label ssrc) session (map of_nat [1..<unat n + 1]) = Done (session', sent)"
    using assms(2) by (auto simp: send_srtp_def outcome_simps)
  obtain w1 socket where c: "create_multicast_sender S w = (w1, Inr socket)" using assms(1) unfolding sockets_work_def by blast
  obtain w2 where "run_steps (send_packet S C socket multicast_dest label ssrc) (session, w1) (map of_nat [1..<unat n + 1]) =
      Done ((session', w2), sent)" using send_packets [OF assms(1) s(2)] by blast
  then show ?thesis using s(1) c by (simp add: send_media_def del: upt_Suc)
qed

lemma sender_client:
  assumes "sockets_work (ce_os E)" and "client_setup E cli pid entropy w = Some (Done (w1, grp))" and "cli_mode cli = Mode_Sender"
    and "main_sender (ce_crypto E) (ce_mls E) (ce_hash E) grp (ce_members E grp) (generate_identity pid Mode_Sender) (cli_packets cli) = Done sent"
  shows "\<exists>w'. client_main E cli pid entropy events w = Some (Done (w', Client_Sent sent))"
proof -
  obtain label role all_members km mk ms where m: "parse_credential_identity (generate_identity pid Mode_Sender) = Done (label, role)"
    "member_roles (ce_members E grp) = Done all_members"
    "export_srtp_keys (ce_mls E) grp (ssrc_from_identity (ce_hash E) (generate_identity pid Mode_Sender)) = Done (km, mk, ms)"
    "send_srtp (ce_crypto E) label (ssrc_from_identity (ce_hash E) (generate_identity pid Mode_Sender)) km (cli_packets cli) = Done sent"
    using assms(4) by (auto simp: main_sender_def outcome_simps Let_def)
  obtain w2 where "send_media (ce_os E) (ce_crypto E) label (ssrc_from_identity (ce_hash E) (generate_identity pid Mode_Sender)) km
      (cli_packets cli) w1 = Done (w2, sent)" using send_media_sent [OF assms(1) m(4)] by blast
  then show ?thesis using m assms(2,3) by (simp add: client_main_def Let_def)
qed

lemma receiver_client:
  assumes "sockets_work (ce_os E)" and "client_setup E cli pid entropy w = Some (Done (w1, grp))" and "cli_mode cli = Mode_Receiver"
    and "main_receiver (ce_crypto E) (ce_mls E) (ce_hash E) grp (ce_members E grp) (cli_packets cli) events = Done (sessions, n, shown, how)"
  shows "\<exists>w'. client_main E cli pid entropy events w = Some (Done (w', Client_Received shown how))"
proof -
  obtain all_members s0 k where m: "member_roles (ce_members E grp) = Done all_members"
    "receiver_sessions (ce_crypto E) (ce_mls E) (ce_hash E) grp Map.empty (sender_identities all_members) = Done s0"
    "checked_mul32 (of_nat (length (sender_identities all_members))) (cli_packets cli) = Done k"
    "recv_srtp (ce_crypto E) s0 0 k [] events = Done (sessions, n, shown, how)"
    using assms(4) by (auto simp: main_receiver_def outcome_simps Let_def)
  obtain w2 socket where "create_multicast_receiver (ce_os E) w1 = (w2, Inr socket)" using assms(1) unfolding sockets_work_def by blast
  then have "\<exists>w'. recv_media (ce_os E) (ce_crypto E) s0 k events w1 = Done (w', shown, how)" using m(4) by (simp add: recv_media_def)
  then show ?thesis using m assms(2,3) generate_identity_parses [of pid Mode_Receiver] by (auto simp: client_main_def Let_def)
qed

lemma setup_verified:
  assumes "client_setup E cli pid entropy w = Some (Done (w', grp))" and "m \<in> set (ce_members E grp)"
    and "from_utf8_lossy (mb_credential m) \<noteq> generate_identity pid (cli_mode cli)"
  shows "\<exists>w1 w2. lookup_as (ce_base64 E) (ce_as E) (cli_as_url cli) w1 (from_utf8_lossy (mb_credential m)) = (w2, Inr (mb_signature_key m))"
proof -
  obtain w2 w3 where "verify_group_members (ce_base64 E) (ce_as E) (cli_as_url cli) w2 (ce_members E grp) (generate_identity pid (cli_mode cli)) = Done w3"
    using assms(1) by (auto simp: client_setup_def main_setup_def pbind_Done_iff outcome_simps Let_def)
  then show ?thesis using assms(2,3) by (rule verify_group_confirmed)
qed

lemma sender_identity_facts:
  assumes "pid < 2 ^ 32"
  shows "length (generate_identity pid Mode_Sender) \<le> 1900" "label_of (generate_identity pid Mode_Sender) = ''sender-'' @ dec_string pid"
proof -
  have "length (dec_string pid) \<le> 10" using assms by (intro length_dec_string) simp_all
  then show "length (generate_identity pid Mode_Sender) \<le> 1900" by (simp add: generate_identity_def)
  show "label_of (generate_identity pid Mode_Sender) = ''sender-'' @ dec_string pid" by (simp add: label_of_def generate_identity_parses)
qed

text \<open>Media delivery with the senders named by their process ids.\<close>

lemma media_by_pid:
  assumes "crypto_sound C" and "exporter_sound M grp" and pid_range: "\<forall>p\<in>set pids. p < 2 ^ 32"
    and same_epoch: "\<forall>p\<in>set pids. mls_export_secret M (sgrp p) = mls_export_secret M grp"
    and roles: "member_roles members = Done all_members" "sender_identities all_members = map (\<lambda>p. generate_identity p Mode_Sender) pids"
    and ssrcs: "distinct (map (\<lambda>p. ssrc_from_identity default_hash (generate_identity p Mode_Sender)) pids)"
    and counts: "length pids * unat packets < 2 ^ 32" "unat packets * 960 < 2 ^ 32"
    and arrivals: "\<forall>(p, i)\<in>set arrivals. p \<in> set pids \<and> i < unat packets"
      "order_ok (\<lambda>s. None) (map (\<lambda>(p, i). (ssrc_from_identity default_hash (generate_identity p Mode_Sender), i + 1)) arrivals)"
  obtains wire sessions where
    "\<forall>p\<in>set pids. main_sender C M default_hash (sgrp p) members (generate_identity p Mode_Sender) packets = Done (wire p)"
    "main_receiver C M default_hash grp members packets (map (\<lambda>(p, i). Datagram (wire p ! i)) arrivals) =
      Done (sessions, of_nat (length (firsts {} arrivals)),
        map (\<lambda>(p, i). demo_packet (''sender-'' @ dec_string p) (ssrc_from_identity default_hash (generate_identity p Mode_Sender)) (of_nat (i + 1))) (firsts {} arrivals),
        if length (firsts {} arrivals) = length pids * unat packets then Recv_All else Recv_Waiting)"
proof -
  define gid where "gid p = generate_identity p Mode_Sender" for p
  have inj: "inj_on gid (set pids)" using ssrcs unfolding gid_def distinct_map inj_on_def by auto
  define pid where "pid = the_inv_into (set pids) gid"
  have pid: "pid (gid p) = p" if "p \<in> set pids" for p unfolding pid_def by (rule the_inv_into_f_f [OF inj that])
  let ?f = "\<lambda>(p, i). (gid p, i :: nat)"
  have mem: "fst a \<in> set pids \<and> snd a < unat packets" if "a \<in> set arrivals" for a using arrivals(1) that by (cases a) auto
  have inj': "inj_on ?f (set arrivals)"
  proof (rule inj_onI)
    fix a b assume ab: "a \<in> set arrivals" "b \<in> set arrivals" "?f a = ?f b"
    from ab(3) have "gid (fst a) = gid (fst b)" "snd a = snd b" by (simp_all add: case_prod_beta)
    then show "a = b" using inj_onD [OF inj] mem [OF ab(1)] mem [OF ab(2)] by (simp add: prod_eq_iff)
  qed
  have fm: "firsts {} (map ?f arrivals) = map ?f (firsts {} arrivals)" using firsts_map [of ?f "{}" arrivals] inj' by simp
  have sub: "set (firsts {} arrivals) \<subseteq> set arrivals" using firsts_distinct [of "{}" arrivals] by auto
  have same: "\<forall>id\<in>set (map gid pids). mls_export_secret M (sgrp (pid id)) = mls_export_secret M grp"
    using same_epoch pid by simp
  have len: "\<forall>id\<in>set (map gid pids). length id \<le> 1900" using pid_range sender_identity_facts(1) by (simp add: gid_def)
  have arr: "\<forall>(id, i)\<in>set (map ?f arrivals). id \<in> set (map gid pids) \<and> i < unat packets" using arrivals(1) by auto
  have order: "order_ok (\<lambda>s. None) (map (\<lambda>(id, i). (ssrc_from_identity default_hash id, i + 1)) (map ?f arrivals))"
  proof -
    have "map (\<lambda>(id, i). (ssrc_from_identity default_hash id, i + 1)) (map ?f arrivals) =
        map (\<lambda>(p, i). (ssrc_from_identity default_hash (generate_identity p Mode_Sender), i + 1)) arrivals"
      by (auto simp: gid_def split: prod.splits)
    then show ?thesis using arrivals(2) by (simp only:)
  qed
  have dist: "distinct (map (ssrc_from_identity default_hash) (map gid pids))" using ssrcs by (simp add: gid_def o_def)
  have cnt: "length (map gid pids) * unat packets < 2 ^ 32" using counts(1) by simp
  have ids: "map gid pids = sender_identities all_members" by (simp add: roles(2) gid_def)
  obtain wire sessions where W: "\<forall>id\<in>set (map gid pids). main_sender C M default_hash (sgrp (pid id)) members id packets = Done (wire id)"
    "main_receiver C M default_hash grp members packets (map (\<lambda>(id, i). Datagram (wire id ! i)) (map ?f arrivals)) =
      Done (sessions, of_nat (length (firsts {} (map ?f arrivals))),
        map (\<lambda>(id, i). demo_packet (label_of id) (ssrc_from_identity default_hash id) (of_nat (i + 1))) (firsts {} (map ?f arrivals)),
        if length (firsts {} (map ?f arrivals)) = length (map gid pids) * unat packets then Recv_All else Recv_Waiting)"
    using demo_media_received [OF assms(1,2) same roles(1) ids dist len cnt counts(2) arr order] by (elim exE conjE) (rule that)
  have shown: "map (\<lambda>(id, i). demo_packet (label_of id) (ssrc_from_identity default_hash id) (of_nat (i + 1))) (map ?f (firsts {} arrivals)) =
      map (\<lambda>(p, i). demo_packet (''sender-'' @ dec_string p) (ssrc_from_identity default_hash (generate_identity p Mode_Sender)) (of_nat (i + 1))) (firsts {} arrivals)"
    unfolding map_map
  proof (rule map_cong [OF refl])
    fix a assume "a \<in> set (firsts {} arrivals)"
    then have "fst a \<in> set pids" using sub mem by blast
    then have "fst a < 2 ^ 32" using pid_range by simp
    from sender_identity_facts(2) [OF this] show "((\<lambda>(id, i). demo_packet (label_of id) (ssrc_from_identity default_hash id) (of_nat (i + 1))) \<circ> ?f) a =
        (\<lambda>(p, i). demo_packet (''sender-'' @ dec_string p) (ssrc_from_identity default_hash (generate_identity p Mode_Sender)) (of_nat (i + 1))) a"
      by (auto simp: gid_def split: prod.splits)
  qed
  have ev: "map (\<lambda>(id, i). Datagram (wire id ! i)) (map ?f arrivals) = map (\<lambda>(p, i). Datagram (wire (gid p) ! i)) arrivals"
    by (auto split: prod.splits)
  show thesis
  proof (rule that)
    show "\<forall>p\<in>set pids. main_sender C M default_hash (sgrp p) members (generate_identity p Mode_Sender) packets = Done (wire (gid p))"
      using W(1) pid by (simp add: gid_def)
    show "main_receiver C M default_hash grp members packets (map (\<lambda>(p, i). Datagram (wire (gid p) ! i)) arrivals) =
      Done (sessions, of_nat (length (firsts {} arrivals)),
        map (\<lambda>(p, i). demo_packet (''sender-'' @ dec_string p) (ssrc_from_identity default_hash (generate_identity p Mode_Sender)) (of_nat (i + 1))) (firsts {} arrivals),
        if length (firsts {} arrivals) = length pids * unat packets then Recv_All else Recv_Waiting)"
      unfolding shown [symmetric] ev [symmetric] W(2) fm length_map by (rule refl)
  qed
qed

section \<open>Properties\<close>


text \<open>Two senders and a receiver, all in the one group of the parameters for examples.\<close>

definition sample_group_mls :: "(bytes list, unit, unit, unit) mls" where
  "sample_group_mls = \<lparr> mls_export_secret = (\<lambda>g label context n. Some (take n (of_nat (length label) # context @ replicate n 0))),
     mls_self_update = (\<lambda>g. Some (g, ())), mls_merge_pending_commit = Some,
     mls_into_protocol_message = Some, mls_process_message = (\<lambda>g c. Some (g, StagedCommitMessage ())), mls_merge_staged_commit = (\<lambda>g s. Some g) \<rparr>"

definition working_os :: "(nat, unit) os" where
  "working_os = \<lparr> os_socket = (\<lambda>w. (w, Inr ())), os_bind_udp = (\<lambda>w a. (w, Inr ())), os_set = (\<lambda>w s opt. (w, Inr ())),
     os_bind = (\<lambda>w s a. (w, Inr ())), os_join = (\<lambda>w s g i. (w, Inr ())), os_register = (\<lambda>w s. (w, Inr ())),
     os_close = (\<lambda>w s. w), os_send_to = (\<lambda>w s data dest. (w, Inr (length data))) \<rparr>"

definition sample_members :: "bytes list \<Rightarrow> Member list" where
  "sample_members g = map (\<lambda>id. \<lparr> mb_credential = ascii id, mb_signature_key = [7] \<rparr>)
     [generate_identity 5 Mode_Sender, generate_identity 12 Mode_Sender, generate_identity 8 Mode_Receiver]"

definition sample_env where
  "sample_env = \<lparr> ce_os = working_os, ce_crypto = sample_crypto, ce_mls = sample_group_mls, ce_hash = length, ce_base64 = sample_base64,
     ce_as = sample_as, ce_tls = sample_tls, ce_ds = sample_ds, ce_openmls = sample_openmls, ce_kp_ops = sample_kp_ops,
     ce_setup = sample_setup, ce_members = sample_members \<rparr>"

lemma sample_env_sound: "crypto_sound (ce_crypto sample_env)" "sockets_work (ce_os sample_env)" "exporter_sound (ce_mls sample_env) g"
  by (simp_all add: sample_env_def sample_crypto_sound)
    (simp_all add: sockets_work_def working_os_def create_multicast_sender_def create_multicast_receiver_def exporter_sound_def sample_group_mls_def)

lemma sample_identities:
  "generate_identity 5 Mode_Sender = ''sender-5:sender''" "generate_identity 12 Mode_Sender = ''sender-12:sender''"
  "generate_identity 8 Mode_Receiver = ''receiver-8:receiver''"
  by (simp_all add: generate_identity_def dec_string.simps char_of_def bit_0)

lemma sample_members_facts:
  "member_roles (sample_members g) = Done [(''sender-5:sender'', ''sender''), (''sender-12:sender'', ''sender''), (''receiver-8:receiver'', ''receiver'')]"
  "\<exists>w'. verify_group_members sample_base64 sample_as url w (sample_members g) my_identity = Done w'"
proof -
  have p: "parse_credential_identity ''sender-5:sender'' = Done (''sender-5'', ''sender'')"
    "parse_credential_identity ''sender-12:sender'' = Done (''sender-12'', ''sender'')"
    "parse_credential_identity ''receiver-8:receiver'' = Done (''receiver-8'', ''receiver'')"
    by (simp_all add: parse_credential_identity_cases)
  have l: "from_utf8_lossy (ascii ''sender-5:sender'') = ''sender-5:sender''" "from_utf8_lossy (ascii ''sender-12:sender'') = ''sender-12:sender''"
    "from_utf8_lossy (ascii ''receiver-8:receiver'') = ''receiver-8:receiver''" by (rule lossy_ascii, simp)+
  have b: "b64_decode sample_base64 (b64_encode sample_base64 [7]) = Some [7]"
    using sample_base64_sound by (simp only: base64_sound_def)
  have look: "lookup_as sample_base64 sample_as url w id = (w + 1, Inr [7])" for w id
    using b by (simp add: lookup_as_def sample_as_def is_success_def)
  show "member_roles (sample_members g) = Done [(''sender-5:sender'', ''sender''), (''sender-12:sender'', ''sender''), (''receiver-8:receiver'', ''receiver'')]"
    by (simp add: sample_members_def sample_identities l p Let_def)
  show "\<exists>w'. verify_group_members sample_base64 sample_as url w (sample_members g) my_identity = Done w'"
    by (simp add: sample_members_def sample_identities l p look Let_def)
qed

lemma sample_setup_joins:
  assumes "mode \<noteq> Mode_Creator"
  shows "\<exists>w. client_setup sample_env (Cli_default mode) pid 0 0 = Some (Done (w, [[7]]))"
proof -
  let ?id = "generate_identity pid mode" and ?as = "''http://127.0.0.1:8001''" and ?ds = "''http://127.0.0.1:8080''"
  let ?c = "\<lparr> dc_as_url = ?as, dc_ds_url = ?ds, dc_auth_token = Some (), dc_client_id = Some (ascii ?id) \<rparr>"
  let ?m = "\<lparr> mem_provider = (), mem_signer = [1], mem_credential = ascii ?id, mem_signature_key = [1] \<rparr>"
  have mem: "MlsMember_new sample_openmls 0 ?id = Done ?m" by (simp add: MlsMember_new_def sample_openmls_def)
  have reg: "main_register sample_base64 sample_as sample_tls sample_ds sample_openmls sample_kp_ops (DsClient_new ?as ?ds) ?m ?id 0 = Done (?c, ?m, 2)"
    by (simp add: main_register_def MlsMember_generate_key_package_def register_with_as_def register_with_ds_def DsClient_new_def is_success_def sample_setup_defs)
  have attempt: "try_welcome sample_tls sample_ds sample_setup ?c w = Done (w + 1, if w < 4 then None else Some [7])" for w
    by (simp add: try_welcome_def recv_messages_def DsClient_auth_token_def DsClient_id_b64_def is_success_def sample_setup_defs)
  have "poll (try_welcome sample_tls sample_ds sample_setup ?c) 2 = Some (Done (5, [7]))"
    by (subst poll.simps, simp add: attempt)+
  then have "join_group sample_tls sample_ds sample_setup ?c 2 = Some (Done (5, [[7]]))"
    by (simp add: join_group_def sample_setup_def)
  moreover obtain label role where "parse_credential_identity ?id = Done (label, role)"
    using generate_identity_parses [of pid mode] by (cases mode) auto
  moreover obtain w where "verify_group_members sample_base64 sample_as ?as 5 (sample_members [[7]]) ?id = Done w"
    using sample_members_facts(2) by blast
  ultimately show ?thesis using assms mem reg
    by (simp add: client_setup_def sample_env_def Cli_default_def main_setup_def Let_def)
qed


end
