(* ===== verification/Srtcp.thy ===== *)
theory Srtcp
  imports Srtp_Session
begin

unbundle bit_operations_syntax

text \<open>
  SRTCP below the session: libsrtp's replay database for control packets
  (\<^verbatim>\<open>third_party/srtp2-sys/libsrtp/crypto/replay/rdb.c\<close>) and the AES-GCM protection of one RTCP packet
  (\<^verbatim>\<open>srtp_protect_rtcp_aead\<close> and \<^verbatim>\<open>srtp_unprotect_rtcp_aead\<close> of \<^verbatim>\<open>srtp.c\<close>). Unlike RTP, a control packet
  carries its 31-bit index in a trailer, next to the bit that says whether it is encrypted.

  A stream's RTCP part is the record \<open>rtcp_ctx\<close>. A sender uses its database only as a counter, a receiver
  as a window of 128 positions. Shown here: the database never admits an index twice (it provides
  the contract \<open>replay_db\<close>), a sender's indices count up by one and end with an error at the
  last 31-bit number, and what a sender protects a receiver opens.
\<close>

section \<open>The replay database\<close>

record rdb =
  rdb_window_start :: nat
  rdb_bitmask :: "bool list"

definition srtp_rdb_init :: rdb where
  "srtp_rdb_init = \<lparr> rdb_window_start = 0, rdb_bitmask = replicate 128 False \<rparr>"

definition srtp_rdb_check :: "rdb \<Rightarrow> nat \<Rightarrow> rdbx_status" where
  "srtp_rdb_check r p_index =
     (if p_index \<ge> rdb_window_start r + 128 then rdbx_ok
      else if p_index < rdb_window_start r then rdbx_replay_old
      else if rdb_bitmask r ! (p_index - rdb_window_start r) then rdbx_replay_fail
      else rdbx_ok)"

text \<open>The bit mask is the machine's 128-bit vector; shifting it is \<^verbatim>\<open>v128_left_shift\<close>.\<close>

definition srtp_rdb_add_index :: "rdb \<Rightarrow> nat \<Rightarrow> rdb" where
  "srtp_rdb_add_index r p_index =
     (if p_index < rdb_window_start r then r
      else let delta = p_index - rdb_window_start r in
        if delta < 128 then r\<lparr>rdb_bitmask := (rdb_bitmask r)[delta := True]\<rparr>
        else let delta = delta - 127 in
          \<lparr> rdb_window_start = rdb_window_start r + delta,
            rdb_bitmask = (bitvector_left_shift (rdb_bitmask r) delta)[127 := True] \<rparr>)"

definition srtp_rdb_increment :: "rdb \<Rightarrow> rdb option" where
  "srtp_rdb_increment r =
     (if rdb_window_start r \<ge> 0x7fffffff then None else Some (r\<lparr>rdb_window_start := rdb_window_start r + 1\<rparr>))"

section \<open>One control packet\<close>

record rtcp_ctx =
  rc_key :: bytes
  rc_salt :: bytes
  rc_rdb :: rdb

text \<open>The SSRC of a control packet stands in its second word.\<close>

definition rtcp_ssrc :: "bytes \<Rightarrow> u32" where
  "rtcp_ssrc pkt = u32_from_be (segment 4 4 pkt)"

definition srtp_calc_aead_iv_srtcp :: "bytes \<Rightarrow> u32 \<Rightarrow> nat \<Rightarrow> bytes" where
  "srtp_calc_aead_iv_srtcp salt ssrc seq_num =
     map2 (XOR) ([0, 0] @ u32_to_be ssrc @ [0, 0] @ u32_to_be (of_nat seq_num)) salt"

definition srtp_protect_rtcp_aead ::
  "srtp_crypto \<Rightarrow> rtcp_ctx \<Rightarrow> bytes \<Rightarrow> rtcp_ctx \<times> (srtp_error + bytes)" where
  "srtp_protect_rtcp_aead C c pkt =
     (case srtp_rdb_increment (rc_rdb c) of
        None \<Rightarrow> (c, Inl KEY_EXPIRED)
      | Some r \<Rightarrow>
          (let seq_num = rdb_window_start r;
               trailer = u32_to_be (0x80000000 OR of_nat seq_num);
               iv = srtp_calc_aead_iv_srtcp (rc_salt c) (rtcp_ssrc pkt) seq_num
           in (c\<lparr>rc_rdb := r\<rparr>,
               Inr (take 8 pkt @ gcm_seal C (rc_key c) iv (take 8 pkt @ trailer) (drop 8 pkt) @ trailer))))"

text \<open>
  Without the encryption bit the whole packet is associated data and only the tag is opened. The
  bit is taken from the packet: the stream's policy is not consulted on this path.
\<close>

definition srtp_unprotect_rtcp_aead :: "srtp_crypto \<Rightarrow> rtcp_ctx \<Rightarrow> bytes \<Rightarrow> srtp_error + nat \<times> bytes" where
  "srtp_unprotect_rtcp_aead C c pkt =
     (let trailer = drop (length pkt - 4) pkt;
          body = take (length pkt - 4) pkt;
          seq_num = unat (u32_from_be trailer AND 0x7fffffff);
          iv = srtp_calc_aead_iv_srtcp (rc_salt c) (rtcp_ssrc pkt) seq_num
      in case srtp_rdb_check (rc_rdb c) seq_num of
           rdbx_replay_old \<Rightarrow> Inl REPLAY_OLD
         | rdbx_replay_fail \<Rightarrow> Inl REPLAY_FAIL
         | rdbx_ok \<Rightarrow>
             (if trailer ! 0 AND 0x80 \<noteq> 0
              then (case gcm_open C (rc_key c) iv (take 8 pkt @ trailer) (drop 8 body) of
                      None \<Rightarrow> Inl AUTH_FAIL
                    | Some pt \<Rightarrow> Inr (seq_num, take 8 pkt @ pt))
              else (let clear = take (length pkt - 20) pkt in
                    case gcm_open C (rc_key c) iv (clear @ trailer) (drop (length pkt - 20) body) of
                      None \<Rightarrow> Inl AUTH_FAIL
                    | Some pt \<Rightarrow> Inr (seq_num, clear))))"

section \<open>No index is admitted twice\<close>

definition rdb_wf :: "rdb \<Rightarrow> bool" where
  "rdb_wf r \<longleftrightarrow> length (rdb_bitmask r) = 128 \<and> rdb_window_start r \<le> 0x7fffffff"

definition rdb_blocked :: "rdb \<Rightarrow> nat \<Rightarrow> bool" where
  "rdb_blocked r j \<longleftrightarrow> srtp_rdb_check r j \<noteq> rdbx_ok"

lemma rdb_blocked_iff:
  "rdb_blocked r j \<longleftrightarrow> j < rdb_window_start r \<or>
     j < rdb_window_start r + 128 \<and> rdb_bitmask r ! (j - rdb_window_start r)"
  by (auto simp: rdb_blocked_def srtp_rdb_check_def)

lemma rdb_init_wf: "rdb_wf srtp_rdb_init" "\<not> rdb_blocked srtp_rdb_init j"
  by (simp_all add: rdb_wf_def rdb_blocked_iff srtp_rdb_init_def)

lemma rdb_add_wf: "rdb_wf r \<Longrightarrow> j \<le> 0x7fffffff \<Longrightarrow> rdb_wf (srtp_rdb_add_index r j)"
  by (auto simp: rdb_wf_def srtp_rdb_add_index_def Let_def)

lemma rdb_blocked_add:
  assumes "rdb_wf r" and "\<not> rdb_blocked r j"
  shows "rdb_blocked (srtp_rdb_add_index r j) i \<longleftrightarrow> i = j \<or> rdb_blocked r i \<or> i + 128 \<le> j"
proof -
  define s where "s = rdb_window_start r"
  have s: "s \<le> j" using assms(2) by (simp add: rdb_blocked_iff s_def)
  have len: "length (rdb_bitmask r) = 128" using assms(1) by (simp add: rdb_wf_def)
  show ?thesis
  proof (cases "j - s < 128")
    case True
    have "(rdb_bitmask r)[j - s := True] ! (i - s) = (i = j \<or> rdb_bitmask r ! (i - s))"
      if "s \<le> i" "i < s + 128" using that len True s by (auto simp: nth_list_update)
    moreover have "srtp_rdb_add_index r j = r\<lparr>rdb_bitmask := (rdb_bitmask r)[j - s := True]\<rparr>"
      using True s by (simp add: srtp_rdb_add_index_def s_def Let_def)
    ultimately show ?thesis using True s unfolding rdb_blocked_iff s_def [symmetric]
      by (auto simp: s_def [symmetric])
  next
    case False
    define n where "n = j - s - 127"
    have n: "1 \<le> n" "j = s + n + 127" using False by (simp_all add: n_def)
    have bit: "(bitvector_left_shift (rdb_bitmask r) n)[127 := True] ! k =
        (k = 127 \<or> k + n < 128 \<and> rdb_bitmask r ! (k + n))" if "k < 128" for k
      using that len by (simp add: nth_list_update nth_left_shift)
    have "srtp_rdb_add_index r j = \<lparr> rdb_window_start = s + n,
        rdb_bitmask = (bitvector_left_shift (rdb_bitmask r) n)[127 := True] \<rparr>"
      using n by (simp add: srtp_rdb_add_index_def s_def [symmetric] Let_def)
    then have "rdb_blocked (srtp_rdb_add_index r j) i \<longleftrightarrow> i < s + n \<or> i < s + n + 128 \<and>
        (i - (s + n) = 127 \<or> i - (s + n) + n < 128 \<and> rdb_bitmask r ! (i - (s + n) + n))"
      using bit [of "i - (s + n)"] by (auto simp: rdb_blocked_iff)
    also have "\<dots> \<longleftrightarrow> i = j \<or> rdb_blocked r i \<or> i + 128 \<le> j"
    proof (cases "i < s + n")
      case True
      then show ?thesis using n by simp
    next
      case ge: False
      then have "i - (s + n) + n = i - s" by simp
      then show ?thesis using ge n by (auto simp: rdb_blocked_iff s_def [symmetric])
    qed
    finally show ?thesis .
  qed
qed

text \<open>A control packet's position is the index it carries: 31 bits of its trailer.\<close>

definition rdb_pos :: "rdb \<Rightarrow> u32 \<Rightarrow> nat" where
  "rdb_pos r trailer = unat (trailer AND 0x7fffffff)"

lemma index_mask: "unat (w AND 0x7fffffff :: u32) \<le> 0x7fffffff"
proof -
  have "w AND 0x7fffffff \<le> (0x7fffffff :: u32)" by (rule word_and_le1)
  then show ?thesis by (simp add: word_le_nat_alt)
qed

interpretation rtcp_replay: replay_db rdb_pos rdb_blocked srtp_rdb_add_index rdb_wf
  by unfold_locales (auto simp: rdb_add_wf rdb_blocked_add rdb_pos_def index_mask)


section \<open>What a sender protects, a receiver opens\<close>

definition rtcp_trailer :: "nat \<Rightarrow> bytes" where
  "rtcp_trailer i = u32_to_be (0x80000000 OR of_nat i)"

definition seal_rtcp :: "srtp_crypto \<Rightarrow> bytes \<Rightarrow> bytes \<Rightarrow> nat \<Rightarrow> bytes \<Rightarrow> bytes" where
  "seal_rtcp C key salt i pkt =
     take 8 pkt @ gcm_seal C key (srtp_calc_aead_iv_srtcp salt (rtcp_ssrc pkt) i) (take 8 pkt @ rtcp_trailer i) (drop 8 pkt)
       @ rtcp_trailer i"

lemma length_calc_iv_srtcp [simp]: "length salt = 12 \<Longrightarrow> length (srtp_calc_aead_iv_srtcp salt ssrc i) = 12"
  by (simp add: srtp_calc_aead_iv_srtcp_def)

lemma trailer_word:
  assumes "i < 2 ^ 31"
  shows "unat ((0x80000000 OR of_nat i) AND 0x7fffffff :: u32) = i" and "unat (0x80000000 OR of_nat i :: u32) = 2 ^ 31 + i"
proof -
  have i: "unat (of_nat i :: u32) = i" using assms by (intro unat_of_nat_u32) simp
  have m: "(of_nat i :: u32) AND 0x7fffffff = of_nat i"
  proof (rule word_unat_eq_iff [THEN iffD2])
    have "(of_nat i :: u32) AND 0x7fffffff = take_bit 31 (of_nat i)" by (simp add: take_bit_eq_mask mask_eq_exp_minus_1)
    then show "unat ((of_nat i :: u32) AND 0x7fffffff) = unat (of_nat i :: u32)"
      using assms i by (simp add: unsigned_take_bit_eq take_bit_nat_eq_self)
  qed
  have "(0x80000000 OR of_nat i) AND 0x7fffffff = (0x80000000 AND 0x7fffffff) OR ((of_nat i :: u32) AND 0x7fffffff)"
    by (rule bit.conj_disj_distrib2)
  then show "unat ((0x80000000 OR of_nat i) AND 0x7fffffff :: u32) = i" using m i by simp
  have z: "(0x80000000 :: u32) AND of_nat i = 0"
  proof -
    have "(0x80000000 :: u32) AND of_nat i = 0x80000000 AND (of_nat i AND 0x7fffffff)" by (simp add: m)
    also have "\<dots> = (0x80000000 AND 0x7fffffff) AND of_nat i" by (simp only: ac_simps)
    finally show ?thesis by simp
  qed
  have "0x80000000 OR of_nat i = 0x80000000 + (of_nat i :: u32)" using disjunctive_add_eq_or [OF z] by simp
  then show "unat (0x80000000 OR of_nat i :: u32) = 2 ^ 31 + i" using assms i by (simp add: unat_word_ariths)
qed

lemma be_bytes_first: "be_bytes 4 x ! 0 = of_nat (x div 2 ^ 24)"
proof -
  have "be_bytes (Suc (Suc (Suc (Suc 0)))) x ! 0 = of_nat (x div 256 div 256 div 256)"
    by (simp only: be_bytes.simps append_Nil append_Cons nth_Cons_0)
  moreover have "Suc (Suc (Suc (Suc 0))) = 4" by simp
  moreover have "x div 256 div 256 div 256 = x div 2 ^ 24" by (simp add: div_mult2_eq [symmetric])
  ultimately show ?thesis by metis
qed

lemma rtcp_trailer_facts:
  assumes "i < 2 ^ 31"
  shows "length (rtcp_trailer i) = 4" "unat (u32_from_be (rtcp_trailer i) AND 0x7fffffff) = i"
    "rtcp_trailer i ! 0 AND 0x80 \<noteq> 0"
proof -
  show "length (rtcp_trailer i) = 4" by (simp add: rtcp_trailer_def)
  show "unat (u32_from_be (rtcp_trailer i) AND 0x7fffffff) = i"
    unfolding rtcp_trailer_def u32_from_to_be by (rule trailer_word [OF assms])
  define n where "n = (2 ^ 31 + i) div 2 ^ 24"
  have "n div 2 ^ 7 = (2 ^ 31 + i) div 2 ^ 31" by (simp add: n_def div_mult2_eq [symmetric])
  then have n: "n div 2 ^ 7 = 1" using assms by simp
  have "rtcp_trailer i ! 0 = of_nat n"
    unfolding rtcp_trailer_def u32_to_be_def trailer_word(2) [OF assms] n_def by (rule be_bytes_first)
  moreover have "bit (of_nat n :: u8) 7"
    unfolding bit_of_nat_iff using n by (simp add: bit_iff_odd)
  ultimately show "rtcp_trailer i ! 0 AND 0x80 \<noteq> 0"
    using and_exp_eq_0_iff_not_bit [of "of_nat n :: u8" 7] by simp
qed


lemma seal_rtcp_facts:
  assumes "crypto_sound C" "length key = 16" "length salt = 12" "8 \<le> length pkt" "i < 2 ^ 31"
  shows "length (seal_rtcp C key salt i pkt) = length pkt + 20" "take 8 (seal_rtcp C key salt i pkt) = take 8 pkt"
    "rtcp_ssrc (seal_rtcp C key salt i pkt) = rtcp_ssrc pkt"
    "drop (length pkt + 16) (seal_rtcp C key salt i pkt) = rtcp_trailer i"
    "drop 8 (take (length pkt + 16) (seal_rtcp C key salt i pkt)) =
       gcm_seal C key (srtp_calc_aead_iv_srtcp salt (rtcp_ssrc pkt) i) (take 8 pkt @ rtcp_trailer i) (drop 8 pkt)"
proof -
  define ct where "ct = gcm_seal C key (srtp_calc_aead_iv_srtcp salt (rtcp_ssrc pkt) i) (take 8 pkt @ rtcp_trailer i) (drop 8 pkt)"
  have ct: "length ct = length pkt - 8 + 16" unfolding ct_def using assms by (simp add: crypto_soundD(2))
  have s: "seal_rtcp C key salt i pkt = take 8 pkt @ ct @ rtcp_trailer i" by (simp add: seal_rtcp_def ct_def)
  note t = rtcp_trailer_facts(1) [OF assms(5)]
  show "length (seal_rtcp C key salt i pkt) = length pkt + 20" "take 8 (seal_rtcp C key salt i pkt) = take 8 pkt"
    "drop (length pkt + 16) (seal_rtcp C key salt i pkt) = rtcp_trailer i"
    using assms(4) by (simp_all add: s ct t)
  show "rtcp_ssrc (seal_rtcp C key salt i pkt) = rtcp_ssrc pkt"
    using assms(4) by (simp add: rtcp_ssrc_def segment_def s drop_take)
  show "drop 8 (take (length pkt + 16) (seal_rtcp C key salt i pkt)) =
       gcm_seal C key (srtp_calc_aead_iv_srtcp salt (rtcp_ssrc pkt) i) (take 8 pkt @ rtcp_trailer i) (drop 8 pkt)"
    using assms(4) by (simp add: s ct ct_def [symmetric])
qed

lemma protect_rtcp_aead_seals:
  "srtp_protect_rtcp_aead C c pkt =
     (if rdb_window_start (rc_rdb c) \<ge> 0x7fffffff then (c, Inl KEY_EXPIRED)
      else let i = rdb_window_start (rc_rdb c) + 1 in
        (c\<lparr>rc_rdb := (rc_rdb c)\<lparr>rdb_window_start := i\<rparr>\<rparr>, Inr (seal_rtcp C (rc_key c) (rc_salt c) i pkt)))"
  by (simp add: srtp_protect_rtcp_aead_def srtp_rdb_increment_def seal_rtcp_def rtcp_trailer_def Let_def)

lemma unprotect_rtcp_aead_opens:
  assumes "crypto_sound C" "length (rc_key c) = 16" "length (rc_salt c) = 12" "8 \<le> length pkt" "i < 2 ^ 31"
  shows "srtp_unprotect_rtcp_aead C c (seal_rtcp C (rc_key c) (rc_salt c) i pkt) =
    (case srtp_rdb_check (rc_rdb c) i of rdbx_replay_old \<Rightarrow> Inl REPLAY_OLD | rdbx_replay_fail \<Rightarrow> Inl REPLAY_FAIL
     | rdbx_ok \<Rightarrow> Inr (i, pkt))"
proof -
  note S = seal_rtcp_facts [OF assms] and T = rtcp_trailer_facts [OF assms(5)]
  have l: "length pkt + 20 - 4 = length pkt + 16" by simp
  show ?thesis
    unfolding srtp_unprotect_rtcp_aead_def Let_def S(1) l S(2-5) T(2)
    using assms T(3) by (simp add: crypto_soundD(1) split: rdbx_status.splits)
qed

end
