(* ===== verification/Session_Api.thy ===== *)
theory Session_Api
  imports Srtcp
begin

text \<open>
  The whole interface of an SRTP session, \<^verbatim>\<open>impl Session\<close> and \<^verbatim>\<open>impl SessionRef\<close> of
  \<^verbatim>\<open>third_party/srtp/src/session.rs\<close>, over the corresponding functions of libsrtp's \<^verbatim>\<open>srtp.c\<close>. A session is
  the RTP half of theory \<open>Srtp_Session\<close> and, stream by stream in the same order, the RTCP half of
  theory \<open>Srtcp\<close>; libsrtp keeps both in one list node. The key derivation for RTCP is the parameter \<open>K\<close>.
  The machine is little-endian. Not modelled: \<^verbatim>\<open>set_stream_roc\<close> and the user data and event callbacks.

  Shown here: every session the interface can produce is well typed, and so is every result. What
  a session promises about replays is in theory \<open>Session_Replay\<close>.
\<close>

section \<open>State\<close>

record srtp_ctx =
  cx_rtp :: srtp_session
  cx_rtcp :: "(u32 \<times> rtcp_ctx) list"
  cx_rtcp_template :: "rtcp_ctx option"

type_synonym rtcp_kdf = "bytes \<Rightarrow> bytes \<times> bytes"

definition rtcp_stream_init :: "rtcp_kdf \<Rightarrow> StreamPolicy \<Rightarrow> rtcp_ctx" where
  "rtcp_stream_init K p =
     \<lparr> rc_key = fst (K (take 28 (sp_key p))), rc_salt = snd (K (take 28 (sp_key p))), rc_rdb = srtp_rdb_init \<rparr>"

definition rtcp_stream_clone :: "rtcp_ctx \<Rightarrow> rtcp_ctx" where
  "rtcp_stream_clone t = t\<lparr>rc_rdb := srtp_rdb_init\<rparr>"

definition ctx_insert :: "srtp_ctx \<Rightarrow> u32 \<Rightarrow> srtp_stream \<Rightarrow> rtcp_ctx \<Rightarrow> srtp_ctx" where
  "ctx_insert x ssrc st c = x\<lparr>cx_rtp := srtp_stream_list_insert (cx_rtp x) ssrc st, cx_rtcp := (ssrc, c) # cx_rtcp x\<rparr>"

definition ctx_put :: "srtp_ctx \<Rightarrow> u32 \<Rightarrow> srtp_stream \<Rightarrow> rtcp_ctx \<Rightarrow> srtp_ctx" where
  "ctx_put x ssrc st c = x\<lparr>cx_rtp := put_stream (cx_rtp x) ssrc st, cx_rtcp := AList.update ssrc c (cx_rtcp x)\<rparr>"

fun srtp_stream_list_remove :: "u32 \<Rightarrow> (u32 \<times> 'a) list \<Rightarrow> (u32 \<times> 'a) list" where
  "srtp_stream_list_remove ssrc [] = []"
| "srtp_stream_list_remove ssrc (x # xs) = (if fst x = ssrc then xs else x # srtp_stream_list_remove ssrc xs)"

section \<open>Creation\<close>

definition ctx_new :: srtp_ctx where
  "ctx_new = \<lparr> cx_rtp = Session_new, cx_rtcp = [], cx_rtcp_template = None \<rparr>"

definition ctx_with_template ::
  "direction \<Rightarrow> srtp_crypto \<Rightarrow> rtcp_kdf \<Rightarrow> StreamPolicy \<Rightarrow> srtp_error + srtp_ctx" where
  "ctx_with_template dir C K p =
     (case Session_with_template dir C p of
        Inl e \<Rightarrow> Inl e
      | Inr s \<Rightarrow> Inr \<lparr> cx_rtp = s, cx_rtcp = [], cx_rtcp_template = Some (rtcp_stream_init K p) \<rparr>)"

section \<open>Packets\<close>

text \<open>An RTP packet may bring a stream into being; it then has its RTCP half as well.\<close>

definition ctx_rtp ::
  "(srtp_session \<Rightarrow> bytes \<Rightarrow> srtp_session \<times> (srtp_error + bytes)) \<Rightarrow> srtp_ctx \<Rightarrow> bytes \<Rightarrow>
     srtp_ctx \<times> (srtp_error + bytes)" where
  "ctx_rtp f x pkt =
     (case f (cx_rtp x) pkt of (s, res) \<Rightarrow>
        (x\<lparr>cx_rtp := s, cx_rtcp :=
             (if length (ss_streams s) = length (ss_streams (cx_rtp x)) then cx_rtcp x
              else (case cx_rtcp_template x of
                      None \<Rightarrow> cx_rtcp x
                    | Some t \<Rightarrow> (fst (hd (ss_streams s)), rtcp_stream_clone t) # cx_rtcp x))\<rparr>, res))"

definition turned :: "direction \<Rightarrow> srtp_stream \<Rightarrow> srtp_stream" where
  "turned dir st = (if st_direction st = dir_unknown then st\<lparr>st_direction := dir\<rparr> else st)"

definition srtp_protect_rtcp :: "srtp_crypto \<Rightarrow> srtp_ctx \<Rightarrow> bytes \<Rightarrow> srtp_ctx \<times> (srtp_error + bytes)" where
  "srtp_protect_rtcp C x pkt =
     (if length pkt < 8 then (x, Inl BAD_PARAM)
      else let ssrc = rtcp_ssrc pkt;
               found = (case (srtp_get_stream (cx_rtp x) ssrc, map_of (cx_rtcp x) ssrc) of
                   (Some st, Some c) \<Rightarrow> Some (x, st, c)
                 | _ \<Rightarrow> (case (ss_template (cx_rtp x), cx_rtcp_template x) of
                     (Some t, Some ct) \<Rightarrow>
                       (let st = srtp_stream_clone t; c = rtcp_stream_clone ct in Some (ctx_insert x ssrc st c, st, c))
                   | _ \<Rightarrow> None))
           in case found of
                None \<Rightarrow> (x, Inl NO_CTX)
              | Some (x', st, c) \<Rightarrow>
                  (let (c', res) = srtp_protect_rtcp_aead C c pkt
                   in (ctx_put x' ssrc (turned dir_srtp_sender st) c', res)))"

definition srtp_unprotect_rtcp :: "srtp_crypto \<Rightarrow> srtp_ctx \<Rightarrow> bytes \<Rightarrow> srtp_ctx \<times> (srtp_error + bytes)" where
  "srtp_unprotect_rtcp C x pkt =
     (if length pkt < 8 + 4 then (x, Inl BAD_PARAM)
      else let ssrc = rtcp_ssrc pkt in
        case (srtp_get_stream (cx_rtp x) ssrc, map_of (cx_rtcp x) ssrc) of
          (Some st, Some c) \<Rightarrow>
            (if length pkt < 8 + 16 + 4 then (x, Inl BAD_PARAM)
             else (case srtp_unprotect_rtcp_aead C c pkt of
                     Inl e \<Rightarrow> (x, Inl e)
                   | Inr (seq_num, out) \<Rightarrow>
                       (ctx_put x ssrc (turned dir_srtp_receiver st) (c\<lparr>rc_rdb := srtp_rdb_add_index (rc_rdb c) seq_num\<rparr>), Inr out)))
        | _ \<Rightarrow>
            (case (ss_template (cx_rtp x), cx_rtcp_template x) of
               (Some t, Some ct) \<Rightarrow>
                 (if length pkt < 8 + 16 + 4 then (x, Inl BAD_PARAM)
                  else (case srtp_unprotect_rtcp_aead C ct pkt of
                          Inl e \<Rightarrow> (x, Inl e)
                        | Inr (seq_num, out) \<Rightarrow>
                            (let t' = turned dir_srtp_receiver t;
                                 c = rtcp_stream_clone ct
                             in (ctx_insert (x\<lparr>cx_rtp := (cx_rtp x)\<lparr>ss_template := Some t'\<rparr>\<rparr>) ssrc (srtp_stream_clone t')
                                   (c\<lparr>rc_rdb := srtp_rdb_add_index (rc_rdb c) seq_num\<rparr>), Inr out))))
             | _ \<Rightarrow> (x, Inl NO_CTX)))"

definition ctx_protect :: "srtp_crypto \<Rightarrow> srtp_ctx \<Rightarrow> bytes \<Rightarrow> srtp_ctx \<times> bytes \<times> (srtp_error + unit)" where
  "ctx_protect C = SessionRef_overwrite (ctx_rtp (srtp_protect C))"

definition SessionRef_protect_rtcp :: "srtp_crypto \<Rightarrow> srtp_ctx \<Rightarrow> bytes \<Rightarrow> srtp_ctx \<times> bytes \<times> (srtp_error + unit)" where
  "SessionRef_protect_rtcp C = SessionRef_overwrite (srtp_protect_rtcp C)"

definition ctx_unprotect :: "srtp_crypto \<Rightarrow> srtp_ctx \<Rightarrow> bytes \<Rightarrow> srtp_ctx \<times> bytes \<times> (srtp_error + unit)" where
  "ctx_unprotect C = SessionRef_overwrite (ctx_rtp (srtp_unprotect C))"

definition SessionRef_unprotect_rtcp :: "srtp_crypto \<Rightarrow> srtp_ctx \<Rightarrow> bytes \<Rightarrow> srtp_ctx \<times> bytes \<times> (srtp_error + unit)" where
  "SessionRef_unprotect_rtcp C = SessionRef_overwrite (srtp_unprotect_rtcp C)"

section \<open>Streams\<close>

definition ctx_add_stream ::
  "srtp_crypto \<Rightarrow> rtcp_kdf \<Rightarrow> srtp_ctx \<Rightarrow> u32 \<Rightarrow> StreamPolicy \<Rightarrow> srtp_ctx \<times> (srtp_error + unit)" where
  "ctx_add_stream C K x ssrc p =
     (case StreamPolicy_sys_policy p of
        Inl e \<Rightarrow> (x, Inl e)
      | Inr pol \<Rightarrow>
          (case srtp_stream_init C pol of
             Inl e \<Rightarrow> (x, Inl e)
           | Inr st \<Rightarrow> (ctx_insert x ssrc st (rtcp_stream_init K pol), Inr ())))"

text \<open>
  \<^verbatim>\<open>srtp_remove_stream\<close> compares its argument with the SSRC as the stream stores it, in network byte order.
  The model keys streams by the number itself, hence the swap here. The crate hands over the number
  unswapped.
\<close>

definition htonl :: "u32 \<Rightarrow> u32" where
  "htonl w = u32_from_be (le_bytes 4 (unat w))"

definition srtp_remove_stream :: "srtp_ctx \<Rightarrow> u32 \<Rightarrow> srtp_ctx \<times> (srtp_error + unit)" where
  "srtp_remove_stream x net =
     (case srtp_get_stream (cx_rtp x) (htonl net) of
        None \<Rightarrow> (x, Inl NO_CTX)
      | Some _ \<Rightarrow>
          (x\<lparr>cx_rtp := (cx_rtp x)\<lparr>ss_streams := srtp_stream_list_remove (htonl net) (ss_streams (cx_rtp x))\<rparr>,
             cx_rtcp := srtp_stream_list_remove (htonl net) (cx_rtcp x)\<rparr>, Inr ()))"

definition SessionRef_remove_stream :: "srtp_ctx \<Rightarrow> u32 \<Rightarrow> srtp_ctx \<times> (srtp_error + unit)" where
  "SessionRef_remove_stream x ssrc = srtp_remove_stream x ssrc"

definition update_stream ::
  "srtp_crypto \<Rightarrow> rtcp_kdf \<Rightarrow> srtp_ctx \<Rightarrow> u32 \<Rightarrow> StreamPolicy \<Rightarrow> srtp_ctx \<times> (srtp_error + unit)" where
  "update_stream C K x ssrc pol =
     (case (srtp_get_stream (cx_rtp x) ssrc, map_of (cx_rtcp x) ssrc) of
        (Some old, Some oldc) \<Rightarrow>
          (let (x1, removed) = srtp_remove_stream x (htonl ssrc) in
           case srtp_stream_init C pol of
             Inl e \<Rightarrow> (x1, Inl e)
           | Inr st \<Rightarrow>
               (ctx_insert x1 ssrc (st\<lparr>st_rdbx := (st_rdbx st)\<lparr>rdbx_index := rdbx_index (st_rdbx old)\<rparr>\<rparr>)
                  ((rtcp_stream_init K pol)\<lparr>rc_rdb := rc_rdb oldc\<rparr>), Inr ()))
      | _ \<Rightarrow> (x, Inl BAD_PARAM))"

definition SessionRef_update_stream ::
  "srtp_crypto \<Rightarrow> rtcp_kdf \<Rightarrow> srtp_ctx \<Rightarrow> u32 \<Rightarrow> StreamPolicy \<Rightarrow> srtp_ctx \<times> (srtp_error + unit)" where
  "SessionRef_update_stream C K x ssrc p =
     (case StreamPolicy_sys_policy p of Inl e \<Rightarrow> (x, Inl e) | Inr pol \<Rightarrow> update_stream C K x ssrc pol)"

text \<open>
  The list is walked from its head and every stream is put at the head of the new list. Streams
  that are not copies of the template move unchanged.
\<close>

definition update_template_stream_cb :: "srtp_stream \<Rightarrow> rtcp_ctx \<Rightarrow> (u32 \<times> srtp_stream) \<times> (u32 \<times> rtcp_ctx) \<Rightarrow> (u32 \<times> srtp_stream) \<times> (u32 \<times> rtcp_ctx)" where
  "update_template_stream_cb t ct entry =
     (case entry of ((ssrc, st), (ssrc', c)) \<Rightarrow>
        if \<not> st_shared st then entry
        else (let new = srtp_stream_clone t in
              ((ssrc, new\<lparr>st_rdbx := (st_rdbx new)\<lparr>rdbx_index := rdbx_index (st_rdbx st)\<rparr>\<rparr>),
               (ssrc', (rtcp_stream_clone ct)\<lparr>rc_rdb := rc_rdb c\<rparr>))))"

definition update_template_streams ::
  "srtp_crypto \<Rightarrow> rtcp_kdf \<Rightarrow> srtp_ctx \<Rightarrow> StreamPolicy \<Rightarrow> srtp_ctx \<times> (srtp_error + unit)" where
  "update_template_streams C K x pol =
     (if ss_template (cx_rtp x) = None then (x, Inl BAD_PARAM)
      else (case srtp_stream_init C pol of
              Inl e \<Rightarrow> (x, Inl e)
            | Inr t \<Rightarrow>
                (let ct = rtcp_stream_init K pol;
                     new = rev (map (update_template_stream_cb t ct) (zip (ss_streams (cx_rtp x)) (cx_rtcp x)))
                 in (\<lparr> cx_rtp = \<lparr> ss_streams = map fst new, ss_template = Some t \<rparr>,
                       cx_rtcp = map snd new, cx_rtcp_template = Some ct \<rparr>, Inr ()))))"

definition SessionRef_update_template ::
  "srtp_crypto \<Rightarrow> rtcp_kdf \<Rightarrow> srtp_ctx \<Rightarrow> StreamPolicy \<Rightarrow> srtp_ctx \<times> (srtp_error + unit)" where
  "SessionRef_update_template C K x p =
     (case StreamPolicy_sys_policy p of Inl e \<Rightarrow> (x, Inl e) | Inr pol \<Rightarrow> update_template_streams C K x pol)"

definition SessionRef_get_stream_roc :: "srtp_ctx \<Rightarrow> u32 \<Rightarrow> srtp_error + u32" where
  "SessionRef_get_stream_roc x ssrc =
     (case srtp_get_stream (cx_rtp x) ssrc of
        None \<Rightarrow> Inl BAD_PARAM
      | Some st \<Rightarrow> Inr (of_nat (rdbx_index (st_rdbx st) div 65536)))"

definition ctx_inplace_rekey :: "srtp_ctx \<Rightarrow> u32 \<Rightarrow> bytes \<Rightarrow> bytes \<Rightarrow> srtp_ctx \<times> (srtp_error + unit)" where
  "ctx_inplace_rekey x ssrc key salt =
     (case SessionRef_inplace_rekey (cx_rtp x) ssrc key salt of (s, res) \<Rightarrow> (x\<lparr>cx_rtp := s\<rparr>, res))"

section \<open>Well-typed sessions\<close>

text \<open>What the RTCP key derivation provides, as \<open>crypto_sound\<close> states it for RTP.\<close>

definition rtcp_kdf_sound :: "rtcp_kdf \<Rightarrow> bool" where
  "rtcp_kdf_sound K \<longleftrightarrow> (\<forall>m. length m = 28 \<longrightarrow> length (fst (K m)) = 16 \<and> length (snd (K m)) = 12)"

definition stream_wf :: "srtp_stream \<Rightarrow> bool" where
  "stream_wf st \<longleftrightarrow> length (st_key st) = 16 \<and> length (st_salt st) = 12 \<and>
     64 \<le> length (rdbx_bits (st_rdbx st)) \<and> length (rdbx_bits (st_rdbx st)) \<le> 0x8000 \<and>
     32 dvd length (rdbx_bits (st_rdbx st))"

definition session_wf :: "srtp_session \<Rightarrow> bool" where
  "session_wf s \<longleftrightarrow> (\<forall>st\<in>snd ` set (ss_streams s). stream_wf st) \<and> (\<forall>t\<in>set_option (ss_template s). stream_wf t)"

definition rtcp_wf :: "rtcp_ctx \<Rightarrow> bool" where
  "rtcp_wf c \<longleftrightarrow> length (rc_key c) = 16 \<and> length (rc_salt c) = 12 \<and> rdb_wf (rc_rdb c)"

definition ctx_wf :: "srtp_ctx \<Rightarrow> bool" where
  "ctx_wf x \<longleftrightarrow> session_wf (cx_rtp x) \<and> map fst (cx_rtcp x) = map fst (ss_streams (cx_rtp x)) \<and>
     (cx_rtcp_template x = None \<longleftrightarrow> ss_template (cx_rtp x) = None) \<and>
     (\<forall>c\<in>snd ` set (cx_rtcp x). rtcp_wf c) \<and> (\<forall>c\<in>set_option (cx_rtcp_template x). rtcp_wf c)"

lemma add_index_length [simp]: "length (rdbx_bits (srtp_rdbx_add_index r d)) = length (rdbx_bits r)"
  by (simp add: srtp_rdbx_add_index_def Let_def)

lemma round_up:
  fixes w :: nat
  assumes "64 \<le> w" and "w < 0x8000"
  shows "64 \<le> (w + 31) div 32 * 32" "(w + 31) div 32 * 32 \<le> 0x8000"
proof -
  have "2 \<le> (w + 31) div 32" using assms(1) by (simp add: less_eq_div_iff_mult_less_eq)
  then show "64 \<le> (w + 31) div 32 * 32" by linarith
  have "(w + 31) div 32 < 1025" using assms(2) by (intro less_mult_imp_div_less) simp
  then show "(w + 31) div 32 * 32 \<le> 0x8000" by linarith
qed

lemma init_bits: "64 \<le> w \<Longrightarrow> w < 0x8000 \<Longrightarrow>
    64 \<le> length (rdbx_bits (srtp_rdbx_init w)) \<and> length (rdbx_bits (srtp_rdbx_init w)) \<le> 0x8000 \<and>
    32 dvd length (rdbx_bits (srtp_rdbx_init w))"
  using round_up [of w] by (simp add: srtp_rdbx_init_def)

text \<open>A window that is already a multiple of 32 bits is copied at its size.\<close>

lemma init_same: "32 dvd n \<Longrightarrow> length (rdbx_bits (srtp_rdbx_init n)) = n"
  by (auto simp: srtp_rdbx_init_def elim!: dvdE)

lemma stream_init_wf:
  assumes "crypto_sound C" and "28 \<le> length (sp_key p)" and "srtp_stream_init C p = Inr st"
  shows "stream_wf st \<and> st_shared st = False"
proof -
  have "length (take 28 (sp_key p)) = 28" using assms(2) by simp
  note K = crypto_soundD(4,5) [OF assms(1) this]
  show ?thesis using assms(3) K init_bits [of "sp_window_size p"] init_bits [of 128]
    by (auto simp: srtp_stream_init_def stream_wf_def split: if_splits)
qed

lemma clone_wf [simp]: "stream_wf t \<Longrightarrow> stream_wf (srtp_stream_clone t)"
  by (auto simp: stream_wf_def srtp_stream_clone_def init_same)

lemma stream_wf_updates [simp]:
  "stream_wf (st\<lparr>st_direction := d\<rparr>) = stream_wf st"
  "stream_wf (st\<lparr>st_shared := b\<rparr>) = stream_wf st"
  "stream_wf (st\<lparr>st_rdbx := (st_rdbx st)\<lparr>rdbx_index := i\<rparr>\<rparr>) = stream_wf st"
  "stream_wf (turned d st) = stream_wf st"
  "length (rdbx_bits r) = length (rdbx_bits (st_rdbx st)) \<Longrightarrow> stream_wf (st\<lparr>st_rdbx := r\<rparr>) = stream_wf st"
  by (simp_all add: stream_wf_def turned_def)

lemma alist_update_set: "set (AList.update k v xs) \<subseteq> insert (k, v) (set xs)"
  by (induction xs) auto

lemma put_wf: "session_wf s \<Longrightarrow> stream_wf st \<Longrightarrow> session_wf (put_stream s k st)"
  using alist_update_set [of k st "ss_streams s"] unfolding session_wf_def put_stream_def by fastforce

lemma insert_wf: "session_wf s \<Longrightarrow> stream_wf st \<Longrightarrow> session_wf (srtp_stream_list_insert s k st)"
  by (auto simp: session_wf_def srtp_stream_list_insert_def)

lemma get_wf: "session_wf s \<Longrightarrow> srtp_get_stream s k = Some st \<Longrightarrow> stream_wf st"
  by (force simp: session_wf_def srtp_get_stream_def dest!: map_of_SomeD)

lemma template_wf: "session_wf s \<Longrightarrow> ss_template s = Some t \<Longrightarrow> stream_wf t"
  by (simp add: session_wf_def)

lemma get_key: "srtp_get_stream s k = Some st \<Longrightarrow> k \<in> set (map fst (ss_streams s))"
  by (force simp: srtp_get_stream_def dest!: map_of_SomeD)

lemma get_None: "srtp_get_stream s k = None \<Longrightarrow> k \<notin> set (map fst (ss_streams s))"
  by (simp add: srtp_get_stream_def map_of_eq_None_iff)

lemma put_keys: "k \<in> set (map fst (ss_streams s)) \<Longrightarrow> map fst (ss_streams (put_stream s k st)) = map fst (ss_streams s)"
  by (simp add: put_stream_def update_keys)

lemma key_wf: "session_wf s \<Longrightarrow> stream_wf st \<Longrightarrow> length (stream_key s st) = 16"
  by (auto simp: stream_key_def session_wf_def stream_wf_def split: option.splits)


text \<open>Of the list of streams, an RTP packet changes entries or adds one for its SSRC at the head.\<close>

definition grows :: "u32 \<Rightarrow> srtp_session \<Rightarrow> srtp_session \<Rightarrow> bool" where
  "grows ssrc s s' \<longleftrightarrow> (ss_template s' = None \<longleftrightarrow> ss_template s = None) \<and>
     (map fst (ss_streams s') = map fst (ss_streams s) \<or>
      ss_template s \<noteq> None \<and> ssrc \<notin> set (map fst (ss_streams s)) \<and> map fst (ss_streams s') = ssrc # map fst (ss_streams s))"

lemma put_grows: "k \<in> set (map fst (ss_streams s)) \<Longrightarrow> grows k' s (put_stream s k st)"
  unfolding grows_def put_keys by (simp add: put_keys) (simp add: put_stream_def)

lemma protect_aead_typed:
  assumes "crypto_sound C" and "stream_wf st" and "length key = 16" and "srtp_protect_aead C key st pkt = (st', res)"
  shows "stream_wf st' \<and> (\<forall>out. res = Inr out \<longrightarrow> length out = length pkt + 16)"
proof -
  obtain est delta where e: "srtp_rdbx_estimate_index (st_rdbx st) (header_seq pkt) = (est, delta)" by fastforce
  have "length (srtp_calc_aead_iv (st_salt st) (header_ssrc pkt) est) = 12" using assms(2) by (simp add: stream_wf_def)
  note L = crypto_soundD(2) [OF assms(1,3) this]
  show ?thesis using assms(2,4)
    by (auto simp: srtp_protect_aead_def e Let_def L split: if_splits rdbx_status.splits)
qed

lemma protect_typed:
  assumes "crypto_sound C" and "session_wf s" and "srtp_protect C s pkt = (s', res)"
  shows "session_wf s' \<and> grows (header_ssrc pkt) s s' \<and> (\<forall>out. res = Inr out \<longrightarrow> length out = length pkt + 16)"
proof -
  let ?k = "header_ssrc pkt"
  have *: "session_wf (put_stream s0 ?k st2) \<and> grows ?k s (put_stream s0 ?k st2) \<and> (\<forall>out. r = Inr out \<longrightarrow> length out = length pkt + 16)"
    if "session_wf s0" "stream_wf st1" "?k \<in> set (map fst (ss_streams s0))" "grows ?k s s0"
      "srtp_protect_aead C (stream_key s0 st1) st1 pkt = (st2, r)" for s0 st1 st2 r
    using protect_aead_typed [OF assms(1) that(2) key_wf [OF that(1,2)] that(5)] that put_keys [OF that(3), of st2]
    by (simp add: put_wf grows_def) (simp add: put_stream_def)
  show ?thesis
  proof (cases "srtp_validate_rtp_header pkt")
    case (Some e)
    then show ?thesis using assms by (auto simp: srtp_protect_def grows_def)
  next
    case None
    show ?thesis
    proof (cases "srtp_get_stream s ?k")
      case (Some st)
      define st1 where "st1 = (if st_direction st = dir_unknown then st\<lparr>st_direction := dir_srtp_sender\<rparr> else st)"
      have "stream_wf st1" using get_wf [OF assms(2) Some] by (simp add: st1_def)
      moreover obtain st2 r where "srtp_protect_aead C (stream_key s st1) st1 pkt = (st2, r)" by fastforce
      ultimately show ?thesis using *[of s st1 st2 r] assms(2,3) get_key [OF Some] None Some
        by (simp add: srtp_protect_def st1_def [symmetric] grows_def)
    next
      case nostream: None
      show ?thesis
      proof (cases "ss_template s")
        case None
        then show ?thesis using assms nostream \<open>srtp_validate_rtp_header pkt = None\<close> by (auto simp: srtp_protect_def grows_def)
      next
        case (Some t)
        define st where "st = (srtp_stream_clone t)\<lparr>st_direction := dir_srtp_sender\<rparr>"
        define s0 where "s0 = srtp_stream_list_insert s ?k st"
        have "stream_wf st" using template_wf [OF assms(2) Some] by (simp add: st_def)
        moreover obtain st2 r where "srtp_protect_aead C (stream_key s0 st) st pkt = (st2, r)" by fastforce
        moreover have "session_wf s0" "?k \<in> set (map fst (ss_streams s0))" "grows ?k s s0"
          using \<open>stream_wf st\<close> insert_wf [OF assms(2)] Some get_None [OF nostream] by (simp_all add: s0_def grows_def srtp_stream_list_insert_def)
        moreover have "st_direction st \<noteq> dir_unknown" by (simp add: st_def)
        ultimately show ?thesis using *[of s0 st st2 r] assms(3) nostream Some \<open>srtp_validate_rtp_header pkt = None\<close>
          by (simp add: srtp_protect_def Let_def st_def [symmetric] s0_def [symmetric])
      qed
    qed
  qed
qed

lemma unprotect_aead_typed:
  assumes "crypto_sound C" and "srtp_unprotect_aead C key st est pkt = Inr out" and "enc_start pkt \<le> length pkt"
  shows "length pkt = length out + 16"
  using assms crypto_soundD(3) [OF assms(1)]
  by (fastforce simp: srtp_unprotect_aead_def Let_def split: if_splits option.splits)

lemma validated_enc_start: "srtp_validate_rtp_header pkt = None \<Longrightarrow> enc_start pkt \<le> length pkt"
  by (auto simp: srtp_validate_rtp_header_def enc_start_def split: if_splits)

lemma unprotect_typed:
  assumes "crypto_sound C" and "session_wf s" and "srtp_unprotect C s pkt = (s', res)"
  shows "session_wf s' \<and> grows (header_ssrc pkt) s s' \<and> (\<forall>out. res = Inr out \<longrightarrow> length pkt = length out + 16)"
proof (cases "srtp_validate_rtp_header pkt")
  case (Some e)
  then show ?thesis using assms by (auto simp: srtp_unprotect_def grows_def)
next
  case None
  note L = unprotect_aead_typed [OF assms(1) _ validated_enc_start [OF None]]
  show ?thesis
  proof (cases "srtp_get_stream s (header_ssrc pkt)")
    case (Some st)
    obtain est delta where e: "srtp_rdbx_estimate_index (st_rdbx st) (header_seq pkt) = (est, delta)" by fastforce
    have st: "stream_wf st" by (rule get_wf [OF assms(2) Some])
    have same: "grows (header_ssrc pkt) s s" by (simp add: grows_def)
    show ?thesis
    proof (cases "srtp_rdbx_check (st_rdbx st) delta = rdbx_ok \<and> (\<exists>out. srtp_unprotect_aead C (stream_key s st) st est pkt = Inr out)")
      case True
      then obtain out where "srtp_rdbx_check (st_rdbx st) delta = rdbx_ok" and o: "srtp_unprotect_aead C (stream_key s st) st est pkt = Inr out" by blast
      define st' where "st' = (turned dir_srtp_receiver st)\<lparr>st_rdbx := srtp_rdbx_add_index (st_rdbx st) delta\<rparr>"
      have "st_rdbx (turned dir_srtp_receiver st) = st_rdbx st" by (simp add: turned_def)
      then have "stream_wf st'" using st unfolding st'_def by simp
      moreover have "s' = put_stream s (header_ssrc pkt) st' \<and> res = Inr out"
        using assms(3) None Some e o \<open>srtp_rdbx_check (st_rdbx st) delta = rdbx_ok\<close>
        by (simp add: srtp_unprotect_def Let_def st'_def turned_def split: if_splits)
      ultimately show ?thesis using put_wf [OF assms(2)] put_grows [OF get_key [OF Some]] L [OF o] by auto
    next
      case False
      define u where "u = srtp_unprotect_aead C (stream_key s st) st est pkt"
      have "s' = s \<and> (\<exists>e. res = Inl e)"
        using False assms(3) None Some e unfolding u_def [symmetric]
        by (cases "srtp_rdbx_check (st_rdbx st) delta"; cases u) (simp_all add: srtp_unprotect_def Let_def u_def [symmetric], blast+)
      then show ?thesis using assms(2) same by auto
    qed
  next
    case nostream: None
    have same: "grows (header_ssrc pkt) s s" by (simp add: grows_def)
    show ?thesis
    proof (cases "\<exists>t out. ss_template s = Some t \<and> srtp_unprotect_aead C (st_key t) t (unat (header_seq pkt)) pkt = Inr out")
      case True
      then obtain t out where t: "ss_template s = Some t" and o: "srtp_unprotect_aead C (st_key t) t (unat (header_seq pkt)) pkt = Inr out" by blast
      define t' where "t' = turned dir_srtp_receiver t"
      define st where "st = srtp_stream_clone t'"
      have w: "stream_wf t'" "stream_wf st" using template_wf [OF assms(2) t] by (simp_all add: t'_def st_def)
      have "s' = srtp_stream_list_insert (s\<lparr>ss_template := Some t'\<rparr>) (header_ssrc pkt)
          (st\<lparr>st_rdbx := srtp_rdbx_add_index (st_rdbx st) (int (unat (header_seq pkt)))\<rparr>) \<and> res = Inr out"
        using assms(3) None nostream t o by (simp add: srtp_unprotect_def Let_def t'_def st_def turned_def split: if_splits)
      moreover have "session_wf (s\<lparr>ss_template := Some t'\<rparr>)" using assms(2) w(1) by (simp add: session_wf_def)
      moreover have "stream_wf (st\<lparr>st_rdbx := srtp_rdbx_add_index (st_rdbx st) (int (unat (header_seq pkt)))\<rparr>)" using w(2) by simp
      ultimately have "session_wf s'" "res = Inr out" using insert_wf by blast+
      moreover have "grows (header_ssrc pkt) s s'"
        using \<open>s' = _ \<and> _\<close> t get_None [OF nostream] by (simp add: grows_def srtp_stream_list_insert_def)
      ultimately show ?thesis using L [OF o] by simp
    next
      case False
      have "s' = s \<and> (\<exists>e. res = Inl e)"
      proof (cases "ss_template s")
        case notemp: None
        then show ?thesis using assms(3) None nostream by (auto simp: srtp_unprotect_def)
      next
        case (Some t)
        define u where "u = srtp_unprotect_aead C (st_key t) t (unat (header_seq pkt)) pkt"
        show ?thesis using False assms(3) None nostream Some
          by (cases u) (simp_all add: srtp_unprotect_def Let_def u_def [symmetric], blast)
      qed
      then show ?thesis using assms(2) same by auto
    qed
  qed
qed

section \<open>Every operation keeps a session well typed\<close>

lemma ctx_wfD:
  assumes "ctx_wf x"
  shows "session_wf (cx_rtp x)" "map fst (cx_rtcp x) = map fst (ss_streams (cx_rtp x))"
    "(cx_rtcp_template x = None) = (ss_template (cx_rtp x) = None)"
    "map_of (cx_rtcp x) k = Some c \<Longrightarrow> rtcp_wf c" "cx_rtcp_template x = Some ct \<Longrightarrow> rtcp_wf ct"
  using assms by (force simp: ctx_wf_def dest!: map_of_SomeD)+

lemma ctx_both:
  assumes "ctx_wf x"
  shows "srtp_get_stream (cx_rtp x) k = None \<longleftrightarrow> map_of (cx_rtcp x) k = None"
  using ctx_wfD(2) [OF assms] by (simp add: srtp_get_stream_def map_of_eq_None_iff flip: set_map)

lemma rtcp_wf_updates [simp]:
  "rtcp_wf c \<Longrightarrow> rdb_wf r \<Longrightarrow> rtcp_wf (c\<lparr>rc_rdb := r\<rparr>)"
  "rtcp_wf c \<Longrightarrow> rtcp_wf (rtcp_stream_clone c)"
  by (auto simp: rtcp_wf_def rtcp_stream_clone_def rdb_init_wf)

lemma rtcp_init_wf:
  assumes "rtcp_kdf_sound K" and "28 \<le> length (sp_key p)"
  shows "rtcp_wf (rtcp_stream_init K p)"
proof -
  have "length (take 28 (sp_key p)) = 28" using assms(2) by simp
  then show ?thesis using assms(1) by (simp add: rtcp_kdf_sound_def rtcp_wf_def rtcp_stream_init_def rdb_init_wf)
qed

lemma ctx_insert_wf: "ctx_wf x \<Longrightarrow> stream_wf st \<Longrightarrow> rtcp_wf c \<Longrightarrow> ctx_wf (ctx_insert x k st c)"
  by (auto simp: ctx_wf_def ctx_insert_def insert_wf) (simp_all add: srtp_stream_list_insert_def)

lemma ctx_put_wf:
  assumes "ctx_wf x" and "stream_wf st" and "rtcp_wf c" and "k \<in> set (map fst (ss_streams (cx_rtp x)))"
  shows "ctx_wf (ctx_put x k st c)"
proof -
  have k: "k \<in> fst ` set (cx_rtcp x)" using ctx_wfD(2) [OF assms(1)] assms(4) by (simp flip: set_map)
  have "map fst (AList.update k c (cx_rtcp x)) = map fst (ss_streams (cx_rtp x))"
    using ctx_wfD(2) [OF assms(1)] k assms(4) by (simp add: update_keys)
  moreover have "\<forall>c\<in>snd ` set (AList.update k c (cx_rtcp x)). rtcp_wf c"
    using alist_update_set [of k c "cx_rtcp x"] assms(1,3) unfolding ctx_wf_def by fastforce
  ultimately show ?thesis using assms put_keys [OF assms(4), of st]
    unfolding ctx_wf_def ctx_put_def by (simp add: put_wf) (simp add: put_stream_def)
qed

lemma ctx_rtp_typed:
  assumes "ctx_wf x" and "\<And>s' res. f (cx_rtp x) pkt = (s', res) \<Longrightarrow> session_wf s' \<and> grows ssrc (cx_rtp x) s' \<and> P res"
    and "ctx_rtp f x pkt = (x', res)"
  shows "ctx_wf x' \<and> P res"
proof -
  obtain s' where f: "f (cx_rtp x) pkt = (s', res)" using assms(3) by (auto simp: ctx_rtp_def split: prod.splits)
  note A = assms(2) [OF f]
  have m: "map fst xs = map fst ys \<Longrightarrow> length xs = length ys" for xs ys :: "(u32 \<times> srtp_stream) list"
    by (metis length_map)
  have g: "grows ssrc (cx_rtp x) s'" "session_wf s'" "P res" using A by simp_all
  show ?thesis
  proof (cases "map fst (ss_streams s') = map fst (ss_streams (cx_rtp x))")
    case True
    then have "x' = x\<lparr>cx_rtp := s'\<rparr>" using assms(3) f m [OF True] by (simp add: ctx_rtp_def)
    then show ?thesis using g True assms(1) unfolding ctx_wf_def by (simp add: grows_def)
  next
    case False
    then obtain t where t: "ss_template (cx_rtp x) = Some t" "map fst (ss_streams s') = ssrc # map fst (ss_streams (cx_rtp x))"
      using g(1) by (auto simp: grows_def)
    obtain ct where ct: "cx_rtcp_template x = Some ct" using t(1) ctx_wfD(3) [OF assms(1)] by fastforce
    have h: "fst (hd (ss_streams s')) = ssrc" using t(2) by (cases "ss_streams s'") simp_all
    have "length (ss_streams s') = Suc (length (ss_streams (cx_rtp x)))" using arg_cong [OF t(2), of length] by simp
    then have "x' = x\<lparr>cx_rtp := s', cx_rtcp := (ssrc, rtcp_stream_clone ct) # cx_rtcp x\<rparr>"
      using assms(3) f ct h by (simp add: ctx_rtp_def)
    moreover have "rtcp_wf (rtcp_stream_clone ct)" using ctx_wfD(5) [OF assms(1) ct] by simp
    ultimately show ?thesis using g t ct ctx_wfD(2) [OF assms(1)] assms(1) unfolding ctx_wf_def by (simp add: grows_def)
  qed
qed

lemma protect_rtcp_aead_typed:
  assumes "crypto_sound C" and "rtcp_wf c" and "8 \<le> length pkt" and "srtp_protect_rtcp_aead C c pkt = (c', res)"
  shows "rtcp_wf c' \<and> (\<forall>out. res = Inr out \<longrightarrow> length out = length pkt + 20)"
proof -
  have "length (seal_rtcp C (rc_key c) (rc_salt c) i pkt) = length pkt + 20" if "i < 2 ^ 31" for i
    using seal_rtcp_facts(1) [OF assms(1) _ _ assms(3) that] assms(2) by (simp add: rtcp_wf_def)
  then show ?thesis using assms(2,4)
    by (auto simp: protect_rtcp_aead_seals Let_def rtcp_wf_def rdb_wf_def split: if_splits)
qed

lemma protect_rtcp_typed:
  assumes "crypto_sound C" and "ctx_wf x" and "srtp_protect_rtcp C x pkt = (x', res)"
  shows "ctx_wf x' \<and> (\<forall>out. res = Inr out \<longrightarrow> length out = length pkt + 20)"
proof -
  let ?k = "rtcp_ssrc pkt"
  have *: "ctx_wf (ctx_put x0 ?k (turned dir_srtp_sender st) c') \<and> (\<forall>out. r = Inr out \<longrightarrow> length out = length pkt + 20)"
    if "ctx_wf x0" "stream_wf st" "rtcp_wf c" "?k \<in> set (map fst (ss_streams (cx_rtp x0)))" "8 \<le> length pkt"
      "srtp_protect_rtcp_aead C c pkt = (c', r)" for x0 st c c' r
    using protect_rtcp_aead_typed [OF assms(1) that(3,5,6)] ctx_put_wf [OF that(1) _ _ that(4)] that(2) by simp
  show ?thesis
  proof (cases "length pkt < 8")
    case True
    then show ?thesis using assms(2,3) by (auto simp: srtp_protect_rtcp_def)
  next
    case False
    then have len: "8 \<le> length pkt" by simp
    show ?thesis
    proof (cases "srtp_get_stream (cx_rtp x) ?k")
      case (Some st)
      obtain c where c: "map_of (cx_rtcp x) ?k = Some c" using ctx_both [OF assms(2), of ?k] Some by auto
      obtain c' r where "srtp_protect_rtcp_aead C c pkt = (c', r)" by fastforce
      then show ?thesis
        using *[OF assms(2) get_wf [OF ctx_wfD(1) [OF assms(2)] Some] ctx_wfD(4) [OF assms(2) c] get_key [OF Some] len, of c' r] assms(3) Some c False
        by (simp add: srtp_protect_rtcp_def)
    next
      case None
      then have c: "map_of (cx_rtcp x) ?k = None" using ctx_both [OF assms(2), of ?k] by simp
      show ?thesis
      proof (cases "ss_template (cx_rtp x)")
        case notemp: None
        then show ?thesis using assms(2,3) None c False by (auto simp: srtp_protect_rtcp_def)
      next
        case (Some t)
        obtain ct where ct: "cx_rtcp_template x = Some ct" using Some ctx_wfD(3) [OF assms(2)] by fastforce
        have w: "stream_wf (srtp_stream_clone t)" "rtcp_wf (rtcp_stream_clone ct)"
          using template_wf [OF ctx_wfD(1) [OF assms(2)] Some] ctx_wfD(5) [OF assms(2) ct] by simp_all
        have k: "?k \<in> set (map fst (ss_streams (cx_rtp (ctx_insert x ?k (srtp_stream_clone t) (rtcp_stream_clone ct)))))"
          by (simp add: ctx_insert_def srtp_stream_list_insert_def)
        obtain c' r where "srtp_protect_rtcp_aead C (rtcp_stream_clone ct) pkt = (c', r)" by fastforce
        then show ?thesis using *[OF ctx_insert_wf [OF assms(2) w] w k len, of c' r] assms(3) None Some c ct False
          by (simp add: srtp_protect_rtcp_def Let_def)
      qed
    qed
  qed
qed


lemma unprotect_rtcp_aead_typed:
  assumes "crypto_sound C" and "28 \<le> length pkt" and "srtp_unprotect_rtcp_aead C c pkt = Inr (i, out)"
  shows "i \<le> 0x7fffffff \<and> \<not> rdb_blocked (rc_rdb c) i \<and> length pkt = length out + 20"
  using assms(2,3) crypto_soundD(3) [OF assms(1)]
  by (fastforce simp: srtp_unprotect_rtcp_aead_def Let_def rdb_blocked_def index_mask
      split: rdbx_status.splits if_splits option.splits)

lemma unprotect_rtcp_typed:
  assumes "crypto_sound C" and "ctx_wf x" and "srtp_unprotect_rtcp C x pkt = (x', res)"
  shows "ctx_wf x' \<and> (\<forall>out. res = Inr out \<longrightarrow> length pkt = length out + 20)"
proof -
  let ?k = "rtcp_ssrc pkt"
  note A = unprotect_rtcp_aead_typed [OF assms(1)]
  show ?thesis
  proof (cases "length pkt < 28")
    case True
    then have "x' = x \<and> (\<exists>e. res = Inl e)"
      using assms(3) by (auto simp: srtp_unprotect_rtcp_def Let_def split: if_splits option.splits)
    then show ?thesis using assms(2) by auto
  next
    case False
    then have len: "28 \<le> length pkt" "\<not> length pkt < 12" by simp_all
    show ?thesis
    proof (cases "srtp_get_stream (cx_rtp x) ?k")
      case (Some st)
      obtain c where c: "map_of (cx_rtcp x) ?k = Some c" using ctx_both [OF assms(2), of ?k] Some by auto
      have st: "stream_wf st" by (rule get_wf [OF ctx_wfD(1) [OF assms(2)] Some])
      define u where "u = srtp_unprotect_rtcp_aead C c pkt"
      show ?thesis
      proof (cases u)
        case (Inl e)
        then show ?thesis using assms(2,3) Some c False len by (auto simp: srtp_unprotect_rtcp_def u_def)
      next
        case (Inr r)
        obtain i out where r: "r = (i, out)" by fastforce
        note B = A [OF len(1) Inr [unfolded u_def r]]
        have "rtcp_wf (c\<lparr>rc_rdb := srtp_rdb_add_index (rc_rdb c) i\<rparr>)"
          using ctx_wfD(4) [OF assms(2) c] B by (simp add: rdb_add_wf rtcp_wf_def)
        moreover have "x' = ctx_put x ?k (turned dir_srtp_receiver st) (c\<lparr>rc_rdb := srtp_rdb_add_index (rc_rdb c) i\<rparr>) \<and> res = Inr out"
          using assms(3) Some c False len Inr by (simp add: srtp_unprotect_rtcp_def u_def r)
        ultimately show ?thesis using ctx_put_wf [OF assms(2) _ _ get_key [OF Some]] st B by simp
      qed
    next
      case None
      then have c: "map_of (cx_rtcp x) ?k = None" using ctx_both [OF assms(2), of ?k] by simp
      show ?thesis
      proof (cases "ss_template (cx_rtp x)")
        case notemp: None
        then show ?thesis using assms(2,3) None c False len by (auto simp: srtp_unprotect_rtcp_def)
      next
        case (Some t)
        obtain ct where ct: "cx_rtcp_template x = Some ct" using Some ctx_wfD(3) [OF assms(2)] by fastforce
        define u where "u = srtp_unprotect_rtcp_aead C ct pkt"
        show ?thesis
        proof (cases u)
          case (Inl e)
          then show ?thesis using assms(2,3) None Some c ct False len by (auto simp: srtp_unprotect_rtcp_def u_def)
        next
          case (Inr r)
          obtain i out where r: "r = (i, out)" by fastforce
          note B = A [OF len(1) Inr [unfolded u_def r]]
          define t' where "t' = turned dir_srtp_receiver t"
          define c' where "c' = (rtcp_stream_clone ct)\<lparr>rc_rdb := srtp_rdb_add_index srtp_rdb_init i\<rparr>"
          have t': "stream_wf t'" using template_wf [OF ctx_wfD(1) [OF assms(2)] Some] by (simp add: t'_def)
          have "rtcp_wf c'" using ctx_wfD(5) [OF assms(2) ct] B rdb_add_wf [OF rdb_init_wf(1)] by (simp add: c'_def)
          moreover have "ctx_wf (x\<lparr>cx_rtp := (cx_rtp x)\<lparr>ss_template := Some t'\<rparr>\<rparr>)"
            using assms(2) t' Some by (auto simp: ctx_wf_def session_wf_def)
          moreover have "x' = ctx_insert (x\<lparr>cx_rtp := (cx_rtp x)\<lparr>ss_template := Some t'\<rparr>\<rparr>) ?k (srtp_stream_clone t') c' \<and> res = Inr out"
            using assms(3) None Some c ct False len Inr
            by (simp add: srtp_unprotect_rtcp_def u_def r t'_def c'_def Let_def rtcp_stream_clone_def)
          ultimately show ?thesis using ctx_insert_wf t' B by simp
        qed
      qed
    qed
  qed
qed

lemma sys_policy_cases: "StreamPolicy_sys_policy p = Inr pol \<Longrightarrow> pol = p \<and> 28 \<le> length (sp_key p)"
  by (auto simp: StreamPolicy_sys_policy_def split: if_splits)

lemma add_stream_typed:
  assumes "crypto_sound C" and "rtcp_kdf_sound K" and "ctx_wf x"
  shows "ctx_wf (fst (ctx_add_stream C K x ssrc p))"
  using assms stream_init_wf [OF assms(1), of p] ctx_insert_wf [OF assms(3)] rtcp_init_wf [OF assms(2), of p]
  by (auto simp: ctx_add_stream_def dest!: sys_policy_cases split: sum.splits)

lemma list_remove_facts:
  "set (srtp_stream_list_remove k xs) \<subseteq> set xs"
  "map fst xs = map fst ys \<Longrightarrow> map fst (srtp_stream_list_remove k xs) = map fst (srtp_stream_list_remove k ys)"
proof -
  show "set (srtp_stream_list_remove k xs) \<subseteq> set xs" by (induction xs) auto
  show "map fst xs = map fst ys \<Longrightarrow> map fst (srtp_stream_list_remove k xs) = map fst (srtp_stream_list_remove k ys)"
    by (induction xs arbitrary: ys) auto
qed

lemma remove_stream_typed:
  assumes "ctx_wf x"
  shows "ctx_wf (fst (srtp_remove_stream x net))"
proof (cases "srtp_get_stream (cx_rtp x) (htonl net)")
  case None
  then show ?thesis using assms by (simp add: srtp_remove_stream_def)
next
  case (Some st)
  have "session_wf ((cx_rtp x)\<lparr>ss_streams := srtp_stream_list_remove (htonl net) (ss_streams (cx_rtp x))\<rparr>)"
    using ctx_wfD(1) [OF assms] list_remove_facts(1) unfolding session_wf_def by fastforce
  moreover have "\<forall>c\<in>snd ` set (srtp_stream_list_remove (htonl net) (cx_rtcp x)). rtcp_wf c"
    using assms list_remove_facts(1) unfolding ctx_wf_def by fastforce
  ultimately show ?thesis
    using assms list_remove_facts(2) [OF ctx_wfD(2) [OF assms], of "htonl net"] Some
    unfolding ctx_wf_def srtp_remove_stream_def by simp
qed


lemma update_stream_typed:
  assumes "crypto_sound C" and "rtcp_kdf_sound K" and "ctx_wf x"
  shows "ctx_wf (fst (SessionRef_update_stream C K x ssrc p))"
proof (cases "28 \<le> length (sp_key p) \<and> srtp_get_stream (cx_rtp x) ssrc \<noteq> None")
  case False
  then show ?thesis using assms(3)
    by (auto simp: SessionRef_update_stream_def StreamPolicy_sys_policy_def update_stream_def)
next
  case True
  then obtain old oldc where o: "srtp_get_stream (cx_rtp x) ssrc = Some old" "map_of (cx_rtcp x) ssrc = Some oldc"
    using ctx_both [OF assms(3), of ssrc] by (cases "map_of (cx_rtcp x) ssrc") auto
  have p: "StreamPolicy_sys_policy p = Inr p" using True by (simp add: StreamPolicy_sys_policy_def)
  obtain x1 r where r: "srtp_remove_stream x (htonl ssrc) = (x1, r)" by fastforce
  have x1: "ctx_wf x1" using remove_stream_typed [OF assms(3), of "htonl ssrc"] r by simp
  have c: "rtcp_wf ((rtcp_stream_init K p)\<lparr>rc_rdb := rc_rdb oldc\<rparr>)"
    using rtcp_init_wf [OF assms(2)] True ctx_wfD(4) [OF assms(3) o(2)] by (simp add: rtcp_wf_def)
  show ?thesis
    using x1 c stream_init_wf [OF assms(1), of p] True ctx_insert_wf [OF x1 _ c]
    by (auto simp: SessionRef_update_stream_def p update_stream_def o r split: sum.splits)
qed

lemma template_cb_typed:
  assumes "stream_wf t" and "rtcp_wf ct" and "stream_wf (snd (fst e))" and "rtcp_wf (snd (snd e))"
  shows "fst (fst (update_template_stream_cb t ct e)) = fst (fst e)" "fst (snd (update_template_stream_cb t ct e)) = fst (snd e)"
    "stream_wf (snd (fst (update_template_stream_cb t ct e)))" "rtcp_wf (snd (snd (update_template_stream_cb t ct e)))"
  using assms clone_wf [OF assms(1)]
  by (auto simp: update_template_stream_cb_def Let_def rtcp_wf_def rtcp_stream_clone_def split: prod.splits)

lemma update_template_typed:
  assumes "crypto_sound C" and "rtcp_kdf_sound K" and "ctx_wf x"
  shows "ctx_wf (fst (SessionRef_update_template C K x p))"
proof (cases "28 \<le> length (sp_key p) \<and> ss_template (cx_rtp x) \<noteq> None \<and> (\<exists>t. srtp_stream_init C p = Inr t)")
  case False
  then show ?thesis using assms(3)
    by (auto simp: SessionRef_update_template_def StreamPolicy_sys_policy_def update_template_streams_def split: sum.splits)
next
  case True
  then obtain t t0 where t: "srtp_stream_init C p = Inr t" and t0: "ss_template (cx_rtp x) = Some t0" by blast
  define ct where "ct = rtcp_stream_init K p"
  have w: "stream_wf t" "rtcp_wf ct" using stream_init_wf [OF assms(1) _ t] rtcp_init_wf [OF assms(2)] True by (simp_all add: ct_def)
  let ?z = "zip (ss_streams (cx_rtp x)) (cx_rtcp x)" and ?f = "update_template_stream_cb t ct"
  have len: "length (ss_streams (cx_rtp x)) = length (cx_rtcp x)" using arg_cong [OF ctx_wfD(2) [OF assms(3)], of length] by simp
  have e: "stream_wf (snd (fst e)) \<and> rtcp_wf (snd (snd e))" if "e \<in> set ?z" for e
    using that assms(3) set_zip_leftD [of "fst e" "snd e"] set_zip_rightD [of "fst e" "snd e"]
    by (auto simp: ctx_wf_def session_wf_def dest: set_zip_leftD set_zip_rightD)
  note F = template_cb_typed [OF w]
  have keys: "map (fst \<circ> (fst \<circ> ?f)) ?z = map fst (ss_streams (cx_rtp x))" "map (fst \<circ> (snd \<circ> ?f)) ?z = map fst (cx_rtcp x)"
  proof -
    have "map (fst \<circ> (fst \<circ> ?f)) ?z = map (fst \<circ> fst) ?z" "map (fst \<circ> (snd \<circ> ?f)) ?z = map (fst \<circ> snd) ?z"
      using F(1,2) e by simp_all
    then show "map (fst \<circ> (fst \<circ> ?f)) ?z = map fst (ss_streams (cx_rtp x))" "map (fst \<circ> (snd \<circ> ?f)) ?z = map fst (cx_rtcp x)"
      using len by (simp_all flip: map_map)
  qed
  have "session_wf \<lparr> ss_streams = map fst (rev (map ?f ?z)), ss_template = Some t \<rparr>"
    using w F(3) e by (auto simp: session_wf_def)
  moreover have "\<forall>c\<in>snd ` set (map snd (rev (map ?f ?z))). rtcp_wf c" using F(4) e by auto
  moreover have "map fst (map snd (rev (map ?f ?z))) = map fst (map fst (rev (map ?f ?z)))"
    using keys ctx_wfD(2) [OF assms(3)] by (simp add: rev_map comp_assoc flip: rev_map)
  ultimately show ?thesis using True t t0 w
    by (simp add: SessionRef_update_template_def StreamPolicy_sys_policy_def update_template_streams_def ct_def [symmetric] ctx_wf_def Let_def
        del: map_map rev_map)
qed

lemma rekey_typed:
  assumes "ctx_wf x"
  shows "ctx_wf (fst (ctx_inplace_rekey x ssrc key salt))"
proof (cases "length key = 16 \<and> length salt = 12 \<and> srtp_get_stream (cx_rtp x) ssrc \<noteq> None")
  case False
  then show ?thesis using assms by (auto simp: ctx_inplace_rekey_def SessionRef_inplace_rekey_def srtp_inplace_rekey_def)
next
  case True
  then obtain st where st: "srtp_get_stream (cx_rtp x) ssrc = Some st" by blast
  have w: "stream_wf st" by (rule get_wf [OF ctx_wfD(1) [OF assms] st])
  let ?s = "(cx_rtp x)\<lparr>ss_template := map_option (\<lambda>t. t\<lparr>st_key := key\<rparr>) (ss_template (cx_rtp x))\<rparr>"
  have s: "session_wf ?s" using ctx_wfD(1) [OF assms] True by (auto simp: session_wf_def stream_wf_def)
  have k: "ssrc \<in> set (map fst (ss_streams (cx_rtp x)))" "ssrc \<in> set (map fst (ss_streams ?s))" using get_key [OF st] by simp_all
  have "ctx_wf (x\<lparr>cx_rtp := put_stream ?s ssrc (st\<lparr>st_salt := salt\<rparr>)\<rparr>)"
    using assms w True put_wf [OF s] put_keys [OF k(2)] unfolding ctx_wf_def by (simp add: stream_wf_def) (simp add: put_stream_def)
  moreover have "ctx_wf (x\<lparr>cx_rtp := put_stream (cx_rtp x) ssrc (st\<lparr>st_key := key, st_salt := salt\<rparr>)\<rparr>)"
    using assms w True put_wf [OF ctx_wfD(1) [OF assms]] put_keys [OF k(1)] unfolding ctx_wf_def by (simp add: stream_wf_def) (simp add: put_stream_def)
  ultimately show ?thesis using True st by (simp add: ctx_inplace_rekey_def SessionRef_inplace_rekey_def srtp_inplace_rekey_def)
qed


section \<open>The sessions a program can have\<close>

datatype session_call =
    Call_Protect bytes
  | Call_Unprotect bytes
  | Call_Protect_Rtcp bytes
  | Call_Unprotect_Rtcp bytes
  | Call_Add_Stream u32 StreamPolicy
  | Call_Remove_Stream u32
  | Call_Update_Stream u32 StreamPolicy
  | Call_Update_Template StreamPolicy
  | Call_Inplace_Rekey u32 bytes bytes

fun ctx_call :: "srtp_crypto \<Rightarrow> rtcp_kdf \<Rightarrow> srtp_ctx \<Rightarrow> session_call \<Rightarrow> srtp_ctx" where
  "ctx_call C K x (Call_Protect buf) = fst (ctx_protect C x buf)"
| "ctx_call C K x (Call_Unprotect buf) = fst (ctx_unprotect C x buf)"
| "ctx_call C K x (Call_Protect_Rtcp buf) = fst (SessionRef_protect_rtcp C x buf)"
| "ctx_call C K x (Call_Unprotect_Rtcp buf) = fst (SessionRef_unprotect_rtcp C x buf)"
| "ctx_call C K x (Call_Add_Stream ssrc p) = fst (ctx_add_stream C K x ssrc p)"
| "ctx_call C K x (Call_Remove_Stream ssrc) = fst (SessionRef_remove_stream x ssrc)"
| "ctx_call C K x (Call_Update_Stream ssrc p) = fst (SessionRef_update_stream C K x ssrc p)"
| "ctx_call C K x (Call_Update_Template p) = fst (SessionRef_update_template C K x p)"
| "ctx_call C K x (Call_Inplace_Rekey ssrc key salt) = fst (ctx_inplace_rekey x ssrc key salt)"

inductive session_reachable :: "srtp_crypto \<Rightarrow> rtcp_kdf \<Rightarrow> srtp_ctx \<Rightarrow> bool" for C K where
  new: "session_reachable C K ctx_new"
| template: "ctx_with_template dir C K p = Inr x \<Longrightarrow> session_reachable C K x"
| call: "session_reachable C K x \<Longrightarrow> session_reachable C K (ctx_call C K x c)"

lemma overwrite_typed:
  assumes "I x" and "\<And>x' res. f x buf = (x', res) \<Longrightarrow> I x' \<and> (\<forall>out. res = Inr out \<longrightarrow> Q out)"
    and "SessionRef_overwrite f x buf = (x', out, r)"
  shows "I x' \<and> (r = Inr () \<longrightarrow> Q out)"
  using assms by (fastforce simp: SessionRef_overwrite_def split: if_splits prod.splits sum.splits)

lemma packets_typed:
  assumes "crypto_sound C" and "ctx_wf x"
  shows "ctx_protect C x buf = (x', out, r) \<Longrightarrow> ctx_wf x' \<and> (r = Inr () \<longrightarrow> length out = length buf + 16)"
    and "ctx_unprotect C x buf = (x', out, r) \<Longrightarrow> ctx_wf x' \<and> (r = Inr () \<longrightarrow> length buf = length out + 16)"
    and "SessionRef_protect_rtcp C x buf = (x', out, r) \<Longrightarrow> ctx_wf x' \<and> (r = Inr () \<longrightarrow> length out = length buf + 20)"
    and "SessionRef_unprotect_rtcp C x buf = (x', out, r) \<Longrightarrow> ctx_wf x' \<and> (r = Inr () \<longrightarrow> length buf = length out + 20)"
proof -
  note W = ctx_wfD(1) [OF assms(2)]
  show "ctx_protect C x buf = (x', out, r) \<Longrightarrow> ctx_wf x' \<and> (r = Inr () \<longrightarrow> length out = length buf + 16)"
    unfolding ctx_protect_def
    by (rule overwrite_typed [where I = ctx_wf and Q = "\<lambda>out. length out = length buf + 16", OF assms(2)]) (rule ctx_rtp_typed [OF assms(2) protect_typed [OF assms(1) W]], assumption)
  show "ctx_unprotect C x buf = (x', out, r) \<Longrightarrow> ctx_wf x' \<and> (r = Inr () \<longrightarrow> length buf = length out + 16)"
    unfolding ctx_unprotect_def
    by (rule overwrite_typed [where I = ctx_wf and Q = "\<lambda>out. length buf = length out + 16", OF assms(2)]) (rule ctx_rtp_typed [OF assms(2) unprotect_typed [OF assms(1) W]], assumption)
  show "SessionRef_protect_rtcp C x buf = (x', out, r) \<Longrightarrow> ctx_wf x' \<and> (r = Inr () \<longrightarrow> length out = length buf + 20)"
    unfolding SessionRef_protect_rtcp_def
    by (rule overwrite_typed [where I = ctx_wf and Q = "\<lambda>out. length out = length buf + 20", OF assms(2)]) (rule protect_rtcp_typed [OF assms], assumption)
  show "SessionRef_unprotect_rtcp C x buf = (x', out, r) \<Longrightarrow> ctx_wf x' \<and> (r = Inr () \<longrightarrow> length buf = length out + 20)"
    unfolding SessionRef_unprotect_rtcp_def
    by (rule overwrite_typed [where I = ctx_wf and Q = "\<lambda>out. length buf = length out + 20", OF assms(2)]) (rule unprotect_rtcp_typed [OF assms], assumption)
qed

lemma call_typed:
  assumes "crypto_sound C" and "rtcp_kdf_sound K" and "ctx_wf x"
  shows "ctx_wf (ctx_call C K x c)"
  using packets_typed [OF assms(1,3)] add_stream_typed [OF assms] remove_stream_typed [OF assms(3)]
    update_stream_typed [OF assms] update_template_typed [OF assms] rekey_typed [OF assms(3)]
  by (cases c) (simp_all add: SessionRef_remove_stream_def, (metis prod.collapse)+)

lemma reachable_wf:
  assumes "crypto_sound C" and "rtcp_kdf_sound K" and "session_reachable C K x"
  shows "ctx_wf x"
  using assms(3)
proof (induction rule: session_reachable.induct)
  case new
  then show ?case by (simp add: ctx_new_def ctx_wf_def session_wf_def Session_new_def)
next
  case (template dir p x)
  obtain st where st: "28 \<le> length (sp_key p)" "srtp_stream_init C p = Inr st"
    "x = \<lparr> cx_rtp = Session_new\<lparr>ss_template := Some (st\<lparr>st_direction := dir\<rparr>)\<rparr>, cx_rtcp = [], cx_rtcp_template = Some (rtcp_stream_init K p) \<rparr>"
    using template by (auto simp: ctx_with_template_def Session_with_template_def StreamPolicy_sys_policy_def split: sum.splits if_splits)
  then show ?case using stream_init_wf [OF assms(1) st(1,2)] rtcp_init_wf [OF assms(2) st(1)]
    by (simp add: ctx_wf_def session_wf_def Session_new_def)
next
  case (call x c)
  then show ?case using call_typed [OF assms(1,2)] by blast
qed

text \<open>
  The crate's \<^verbatim>\<open>remove_stream\<close> does not find the stream its own \<^verbatim>\<open>add_stream\<close> made, unless the SSRC reads the same
  in both byte orders.
\<close>

lemma remove_added_stream:
  assumes "ctx_add_stream C K ctx_new ssrc p = (x, Inr ())" and "htonl ssrc \<noteq> ssrc"
  shows "SessionRef_remove_stream x ssrc = (x, Inl NO_CTX)"
proof -
  have "\<exists>st. ss_streams (cx_rtp x) = [(ssrc, st)]"
    using assms(1) by (auto simp: ctx_add_stream_def ctx_insert_def ctx_new_def Session_new_def srtp_stream_list_insert_def
        split: sum.splits)
  then show ?thesis using assms(2) by (auto simp: SessionRef_remove_stream_def srtp_remove_stream_def srtp_get_stream_def)
qed

section \<open>Properties\<close>

definition sample_kdf :: rtcp_kdf where
  "sample_kdf m = (take 16 m, drop 16 m)"

lemma sample_kdf_sound: "rtcp_kdf_sound sample_kdf"
  by (simp add: rtcp_kdf_sound_def sample_kdf_def)

definition sample_stream_policy :: "u8 \<Rightarrow> StreamPolicy" where
  "sample_stream_policy k = \<lparr> sp_key = replicate 28 k, sp_window_size = 0, sp_allow_repeat_tx = False \<rparr>"

definition sample_report :: "u8 \<Rightarrow> bytes" where
  "sample_report b = [0x80, 201, 0, 1, 0, 0, 0, 9, b]"

lemma sample_report_facts: "rtcp_ssrc (sample_report b) = 9" "length (sample_report b) = 9"
proof -
  have "rtcp_ssrc (sample_report b) = u32_from_be [0, 0, 0, 9]"
    by (simp add: rtcp_ssrc_def sample_report_def segment_def)
  also have "\<dots> = 9" by code_simp
  finally show "rtcp_ssrc (sample_report b) = 9" .
qed (simp add: sample_report_def)

text \<open>
  C10. Typing of the session interface: every session that the interface's calls can build, in any
  order and with any arguments, has streams with keys, salts and replay windows of the sizes
  libsrtp allocates, the same streams on its RTP and its RTCP side, and a packet call that succeeds
  grows or shrinks the packet by exactly the authentication tag, and for RTCP the trailer.
\<close>

theorem session_api_typed:
  assumes "crypto_sound C" and "rtcp_kdf_sound K" and "session_reachable C K x"
  shows "ctx_wf x \<and>
    (case ctx_protect C x buf of (x', out, r) \<Rightarrow> r = Inr () \<longrightarrow> length out = length buf + 16) \<and>
    (case ctx_unprotect C x buf of (x', out, r) \<Rightarrow> r = Inr () \<longrightarrow> length buf = length out + 16) \<and>
    (case SessionRef_protect_rtcp C x buf of (x', out, r) \<Rightarrow> r = Inr () \<longrightarrow> length out = length buf + 20) \<and>
    (case SessionRef_unprotect_rtcp C x buf of (x', out, r) \<Rightarrow> r = Inr () \<longrightarrow> length buf = length out + 20)"
proof -
  note wf = reachable_wf [OF assms]
  show ?thesis using wf packets_typed [OF assms(1) wf] by (simp split: prod.split)
qed

theorem session_api_typed_witness:
  "let x = ctx_call sample_crypto sample_kdf ctx_new (Call_Add_Stream 9 (sample_stream_policy 1));
       sent = SessionRef_protect_rtcp sample_crypto x (sample_report 1)
   in ctx_wf x \<and> snd (snd sent) = Inr () \<and> length (fst (snd sent)) = 29"
proof -
  define x where "x = ctx_call sample_crypto sample_kdf ctx_new (Call_Add_Stream 9 (sample_stream_policy 1))"
  have "session_reachable sample_crypto sample_kdf x" unfolding x_def by (intro session_reachable.intros)
  moreover have "snd (snd (SessionRef_protect_rtcp sample_crypto x (sample_report 1))) = Inr ()"
    by (simp add: x_def ctx_add_stream_def ctx_insert_def ctx_new_def Session_new_def sample_stream_policy_def
        StreamPolicy_sys_policy_def srtp_stream_init_def srtp_stream_list_insert_def SessionRef_protect_rtcp_def
        SessionRef_overwrite_def srtp_protect_rtcp_def sample_report_facts srtp_get_stream_def
        protect_rtcp_aead_seals rtcp_stream_init_def srtp_rdb_init_def Let_def)
  ultimately show ?thesis
    using session_api_typed [OF sample_crypto_sound sample_kdf_sound, of x "sample_report 1"]
    by (simp add: Let_def x_def sample_report_facts split: prod.splits)
qed

end
