(* ===== verification/Session_Replay.thy ===== *)
theory Session_Replay
  imports Session_Api
begin

text \<open>
  Replay protection over the whole session interface. A stream's RTCP database survives every call
  that keeps the stream: other streams' traffic, rekeys in place, updates of the stream and of the
  template. So no control packet is accepted twice (locale \<open>media_session\<close>). For RTP the two ways of
  changing a key differ: a rekey in place keeps the database, an update keeps only its index.
\<close>

section \<open>Control packets\<close>

text \<open>
  Calls after which the stream of an SSRC is still there, and alone under its SSRC. Sending control
  packets on a stream that also receives them is excluded: libsrtp documents that the counter
  and the window must not share a database.
\<close>

definition window_ok :: "StreamPolicy \<Rightarrow> bool" where
  "window_ok p \<longleftrightarrow> sp_window_size p = 0 \<or> 64 \<le> sp_window_size p \<and> sp_window_size p < 0x8000"

fun keeps_stream :: "u32 \<Rightarrow> session_call \<Rightarrow> bool" where
  "keeps_stream ssrc (Call_Protect_Rtcp buf) = (rtcp_ssrc buf \<noteq> ssrc)"
| "keeps_stream ssrc (Call_Add_Stream k p) = (k \<noteq> ssrc)"
| "keeps_stream ssrc (Call_Remove_Stream k) = (htonl k \<noteq> ssrc)"
| "keeps_stream ssrc (Call_Update_Stream k p) = (k = ssrc \<longrightarrow> window_ok p)"
| "keeps_stream ssrc c = True"

definition rdbs :: "u32 \<Rightarrow> srtp_ctx \<Rightarrow> rdb list" where
  "rdbs ssrc x = map (rc_rdb \<circ> snd) (filter (\<lambda>e. fst e = ssrc) (cx_rtcp x))"

text \<open>The index of a control packet, when it is accepted for the stream.\<close>

fun rtcp_step :: "srtp_crypto \<Rightarrow> rtcp_kdf \<Rightarrow> u32 \<Rightarrow> srtp_ctx \<Rightarrow> session_call \<Rightarrow> srtp_ctx \<times> nat option" where
  "rtcp_step C K ssrc x (Call_Unprotect_Rtcp buf) =
     (case SessionRef_unprotect_rtcp C x buf of
        (x', out, Inr _) \<Rightarrow> (x', if rtcp_ssrc buf = ssrc then Some (unat (u32_from_be (drop (length buf - 4) buf) AND 0x7fffffff)) else None)
      | (x', out, Inl e) \<Rightarrow> (x', None))"
| "rtcp_step C K ssrc x c = (ctx_call C K x c, None)"

lemma filter_update: "k \<noteq> ssrc \<Longrightarrow> filter (\<lambda>e. fst e = ssrc) (AList.update k c xs) = filter (\<lambda>e. fst e = ssrc) xs"
  by (induction xs) auto

lemma filter_update_same:
  "filter (\<lambda>e. fst e = ssrc) xs = [e] \<Longrightarrow> filter (\<lambda>e. fst e = ssrc) (AList.update ssrc c xs) = [(ssrc, c)]"
  by (induction xs) (auto split: if_splits)

lemma filter_remove:
  "k \<noteq> ssrc \<Longrightarrow> filter (\<lambda>e. fst e = ssrc) (srtp_stream_list_remove k xs) = filter (\<lambda>e. fst e = ssrc) xs"
  "filter (\<lambda>e. fst e = ssrc) xs = [e] \<Longrightarrow> filter (\<lambda>e. fst e = ssrc) (srtp_stream_list_remove ssrc xs) = []"
  by (induction xs) (auto split: if_splits)

lemma filter_single: "filter (\<lambda>e. fst e = k) xs = [e] \<Longrightarrow> map_of xs k = Some (snd e) \<and> fst e = k"
  by (induction xs) (auto split: if_splits)

lemma rdbs_single:
  assumes "rdbs ssrc x = [r]"
  obtains c where "filter (\<lambda>e. fst e = ssrc) (cx_rtcp x) = [(ssrc, c)]" "rc_rdb c = r" "map_of (cx_rtcp x) ssrc = Some c"
proof -
  obtain e where e: "filter (\<lambda>e. fst e = ssrc) (cx_rtcp x) = [e]" "rc_rdb (snd e) = r"
    using assms by (auto simp: rdbs_def map_eq_Cons_conv)
  from filter_single [OF e(1)] e show ?thesis using that [of "snd e"] by (cases e) auto
qed

lemma rdbs_put: "k \<noteq> ssrc \<Longrightarrow> rdbs ssrc (ctx_put x k st c) = rdbs ssrc x"
  by (simp add: rdbs_def ctx_put_def filter_update)

lemma rdbs_insert: "k \<noteq> ssrc \<Longrightarrow> rdbs ssrc (ctx_insert x k st c) = rdbs ssrc x"
  by (simp add: rdbs_def ctx_insert_def)

lemma rdbs_rtp [simp]: "rdbs ssrc (x\<lparr>cx_rtp := s\<rparr>) = rdbs ssrc x"
  by (simp add: rdbs_def)

lemma htonl_htonl [simp]: "htonl (htonl w) = w"
proof -
  have u: "unat (u32_from_be bs) = be_val bs" if "length bs = 4" for bs
    using be_val_less [of bs] that by (simp add: u32_from_be_def unat_of_nat_u32)
  have "le_bytes 4 (be_val (le_bytes 4 n)) = be_bytes 4 n" for n
    using be_bytes_be_val [of "le_bytes 4 n"] by (simp add: le_bytes_def)
  then show ?thesis using u32_from_to_be [of w] by (simp add: htonl_def u u32_to_be_def)
qed


lemma rdbs_has_stream:
  assumes "ctx_wf x" and "rdbs ssrc x = [r]"
  shows "ssrc \<in> set (map fst (ss_streams (cx_rtp x)))"
proof -
  have "map_of (cx_rtcp x) ssrc \<noteq> None" using assms(2) by (auto elim: rdbs_single)
  then show ?thesis unfolding ctx_wfD(2) [OF assms(1), symmetric] by (simp add: map_of_eq_None_iff)
qed

lemma overwrite_fst:
  "fst (SessionRef_overwrite f x buf) = (if length buf \<ge> 2 ^ 31 then x else fst (f x buf))"
  by (simp add: SessionRef_overwrite_def split: prod.splits sum.splits)

lemma rdbs_ctx_rtp:
  assumes "ctx_wf x" and "rdbs ssrc x = [r]" and "f (cx_rtp x) pkt = (s', res)" and "grows k (cx_rtp x) s'"
  shows "rdbs ssrc (fst (ctx_rtp f x pkt)) = [r]"
proof (cases "map fst (ss_streams s') = map fst (ss_streams (cx_rtp x))")
  case True
  then have "length (ss_streams s') = length (ss_streams (cx_rtp x))" by (metis length_map)
  then show ?thesis using assms(2,3) by (simp add: ctx_rtp_def rdbs_def)
next
  case False
  then have k: "k \<notin> set (map fst (ss_streams (cx_rtp x)))" "map fst (ss_streams s') = k # map fst (ss_streams (cx_rtp x))"
    using assms(4) by (auto simp: grows_def)
  have "k \<noteq> ssrc" using k(1) rdbs_has_stream [OF assms(1,2)] by blast
  moreover have "fst (hd (ss_streams s')) = k" using k(2) by (cases "ss_streams s'") simp_all
  ultimately show ?thesis using assms(2,3) by (simp add: ctx_rtp_def rdbs_def split: option.splits)
qed

lemma protect_rtcp_shape:
  "fst (srtp_protect_rtcp C x pkt) = x \<or> (\<exists>x0 st c. (x0 = x \<or> (\<exists>st0 c0. x0 = ctx_insert x (rtcp_ssrc pkt) st0 c0)) \<and>
     fst (srtp_protect_rtcp C x pkt) = ctx_put x0 (rtcp_ssrc pkt) st c)"
  by (auto simp: srtp_protect_rtcp_def Let_def split: option.splits prod.splits)

lemma rdbs_protect_rtcp:
  assumes "rtcp_ssrc pkt \<noteq> ssrc"
  shows "rdbs ssrc (fst (srtp_protect_rtcp C x pkt)) = rdbs ssrc x"
  using protect_rtcp_shape [of C x pkt] assms by (auto simp: rdbs_put rdbs_insert)

lemma unprotect_rtcp_known:
  assumes "ctx_wf x" and "map_of (cx_rtcp x) (rtcp_ssrc pkt) = Some c"
  obtains (refused) e where "srtp_unprotect_rtcp C x pkt = (x, Inl e)"
  | (opened) i out st where "srtp_unprotect_rtcp_aead C c pkt = Inr (i, out)" "28 \<le> length pkt"
      "srtp_unprotect_rtcp C x pkt = (ctx_put x (rtcp_ssrc pkt) st (c\<lparr>rc_rdb := srtp_rdb_add_index (rc_rdb c) i\<rparr>), Inr out)"
proof -
  obtain st where st: "srtp_get_stream (cx_rtp x) (rtcp_ssrc pkt) = Some st"
    using ctx_both [OF assms(1), of "rtcp_ssrc pkt"] assms(2) by auto
  show ?thesis
  proof (cases "length pkt < 28")
    case True
    then show ?thesis using refused [of BAD_PARAM] st assms(2) by (simp add: srtp_unprotect_rtcp_def split: if_splits)
  next
    case False
    define u where "u = srtp_unprotect_rtcp_aead C c pkt"
    show ?thesis
    proof (cases u)
      case (Inl e)
      then show ?thesis using refused [of e] False st assms(2) by (simp add: srtp_unprotect_rtcp_def u_def)
    next
      case (Inr r)
      then show ?thesis using opened [of "fst r" "snd r" "turned dir_srtp_receiver st"] False st assms(2)
        by (cases r) (simp add: srtp_unprotect_rtcp_def u_def)
    qed
  qed
qed

lemma rdbs_unprotect_rtcp_other:
  assumes "rtcp_ssrc pkt \<noteq> ssrc"
  shows "rdbs ssrc (fst (srtp_unprotect_rtcp C x pkt)) = rdbs ssrc x"
  using assms
  by (auto simp: srtp_unprotect_rtcp_def Let_def rdbs_put rdbs_insert split: option.splits sum.splits)

lemma rdbs_update_template:
  assumes "ctx_wf x"
  shows "rdbs ssrc (fst (SessionRef_update_template C K x p)) = rdbs ssrc x \<or>
    rdbs ssrc (fst (SessionRef_update_template C K x p)) = rev (rdbs ssrc x)"
proof -
  have len: "length (ss_streams (cx_rtp x)) = length (cx_rtcp x)" using arg_cong [OF ctx_wfD(2) [OF assms], of length] by simp
  have "map (rc_rdb \<circ> snd) (filter (\<lambda>e. fst e = ssrc) (map snd (map (update_template_stream_cb t ct) (zip xs ys)))) =
      map (rc_rdb \<circ> snd) (filter (\<lambda>e. fst e = ssrc) ys)" if "length xs = length ys" for t ct xs ys
    using that by (induction xs ys rule: list_induct2)
      (auto simp: update_template_stream_cb_def Let_def split: prod.splits)
  from this [OF len] show ?thesis
    by (auto simp: SessionRef_update_template_def update_template_streams_def rdbs_def Let_def rev_map [symmetric] rev_filter [symmetric]
        split: sum.splits simp del: map_map)
qed


lemma update_keeps_rdb:
  assumes "ctx_wf x" and "rdbs ssrc x = [r]" and "window_ok p"
  shows "rdbs ssrc (fst (SessionRef_update_stream C K x ssrc p)) = [r]"
proof (cases "28 \<le> length (sp_key p)")
  case False
  then show ?thesis using assms(2) by (simp add: SessionRef_update_stream_def StreamPolicy_sys_policy_def)
next
  case True
  obtain c where c: "filter (\<lambda>e. fst e = ssrc) (cx_rtcp x) = [(ssrc, c)]" "rc_rdb c = r" "map_of (cx_rtcp x) ssrc = Some c"
    using rdbs_single [OF assms(2)] .
  obtain old where old: "srtp_get_stream (cx_rtp x) ssrc = Some old" using ctx_both [OF assms(1), of ssrc] c(3) by auto
  obtain st where st: "srtp_stream_init C p = Inr st" using assms(3) by (auto simp: window_ok_def srtp_stream_init_def)
  show ?thesis using True
    by (simp add: SessionRef_update_stream_def StreamPolicy_sys_policy_def update_stream_def old c(3) st srtp_remove_stream_def
        rdbs_def ctx_insert_def filter_remove(2) [OF c(1)] c(2))
qed

lemma rdbs_remove:
  assumes "htonl net \<noteq> ssrc"
  shows "rdbs ssrc (fst (srtp_remove_stream x net)) = rdbs ssrc x"
  using assms by (simp add: srtp_remove_stream_def rdbs_def filter_remove(1) split: option.splits)

lemma rdbs_update_other:
  assumes "k \<noteq> ssrc"
  shows "rdbs ssrc (fst (SessionRef_update_stream C K x k p)) = rdbs ssrc x"
proof -
  have "rdbs ssrc (fst (srtp_remove_stream x (htonl k))) = rdbs ssrc x" using assms by (simp add: rdbs_remove)
  then show ?thesis using assms
    by (auto simp: SessionRef_update_stream_def update_stream_def rdbs_insert split: sum.splits option.splits prod.splits)
qed

lemma call_keeps_rdb:
  assumes ok: "crypto_sound C" "ctx_wf x" and r: "rdbs ssrc x = [r]" and "keeps_stream ssrc c"
    and "\<And>buf. c \<noteq> Call_Unprotect_Rtcp buf"
  shows "rdbs ssrc (ctx_call C K x c) = [r]"
proof (cases c)
  case (Call_Protect buf)
  obtain s' res where f: "srtp_protect C (cx_rtp x) buf = (s', res)" by fastforce
  then have "grows (header_ssrc buf) (cx_rtp x) s'" using protect_typed [OF ok(1) ctx_wfD(1) [OF ok(2)]] by blast
  with rdbs_ctx_rtp [where f = "srtp_protect C", OF ok(2) r f] show ?thesis
    using r by (simp add: Call_Protect ctx_protect_def overwrite_fst)
next
  case (Call_Unprotect buf)
  obtain s' res where f: "srtp_unprotect C (cx_rtp x) buf = (s', res)" by fastforce
  then have "grows (header_ssrc buf) (cx_rtp x) s'" using unprotect_typed [OF ok(1) ctx_wfD(1) [OF ok(2)]] by blast
  with rdbs_ctx_rtp [where f = "srtp_unprotect C", OF ok(2) r f] show ?thesis
    using r by (simp add: Call_Unprotect ctx_unprotect_def overwrite_fst)
next
  case (Call_Protect_Rtcp buf)
  then show ?thesis using r assms(4) by (simp add: SessionRef_protect_rtcp_def overwrite_fst rdbs_protect_rtcp)
next
  case (Call_Unprotect_Rtcp buf)
  then show ?thesis using assms(5) by blast
next
  case (Call_Add_Stream k p)
  then show ?thesis using r assms(4) by (auto simp: ctx_add_stream_def rdbs_insert split: sum.splits)
next
  case (Call_Remove_Stream k)
  then show ?thesis using r assms(4) by (simp add: SessionRef_remove_stream_def rdbs_remove)
next
  case (Call_Update_Stream k p)
  then show ?thesis using r assms(4) update_keeps_rdb [OF ok(2) r] rdbs_update_other [of k ssrc]
    by (cases "k = ssrc") simp_all
next
  case (Call_Update_Template p)
  then show ?thesis using rdbs_update_template [OF ok(2), of ssrc C K p] r by auto
next
  case (Call_Inplace_Rekey k key salt)
  then show ?thesis using r by (simp add: ctx_inplace_rekey_def split: prod.splits)
qed

text \<open>One step of a session in which the stream lives on, and the state it can be in.\<close>

definition stream_alone :: "srtp_crypto \<Rightarrow> rtcp_kdf \<Rightarrow> u32 \<Rightarrow> srtp_ctx \<Rightarrow> bool" where
  "stream_alone C K ssrc x \<longleftrightarrow> crypto_sound C \<and> rtcp_kdf_sound K \<and> ctx_wf x \<and> (\<exists>r. rdbs ssrc x = [r])"

definition kept_step :: "srtp_crypto \<Rightarrow> rtcp_kdf \<Rightarrow> u32 \<Rightarrow> srtp_ctx \<Rightarrow> session_call \<Rightarrow> srtp_ctx \<times> nat option" where
  "kept_step C K ssrc x c = (if keeps_stream ssrc c then rtcp_step C K ssrc x c else (x, None))"

lemma step_other:
  assumes "stream_alone C K ssrc x" and "keeps_stream ssrc c" and "\<And>buf. c \<noteq> Call_Unprotect_Rtcp buf"
  shows "rtcp_step C K ssrc x c = (ctx_call C K x c, None)" "stream_alone C K ssrc (ctx_call C K x c)"
    "hd (rdbs ssrc (ctx_call C K x c)) = hd (rdbs ssrc x)"
proof -
  show "rtcp_step C K ssrc x c = (ctx_call C K x c, None)" using assms(3) by (cases c) auto
  obtain r where r: "rdbs ssrc x = [r]" "crypto_sound C" "rtcp_kdf_sound K" "ctx_wf x"
    using assms(1) by (auto simp: stream_alone_def)
  note k = call_keeps_rdb [OF r(2,4,1) assms(2,3), of K]
  show "stream_alone C K ssrc (ctx_call C K x c)"
    using r k call_typed [OF r(2,3,4)] by (simp add: stream_alone_def)
  show "hd (rdbs ssrc (ctx_call C K x c)) = hd (rdbs ssrc x)" using r k by simp
qed

lemma step_rtcp:
  assumes "stream_alone C K ssrc x" and "rtcp_step C K ssrc x (Call_Unprotect_Rtcp buf) = (x', out)"
  shows "stream_alone C K ssrc x' \<and> (case out of None \<Rightarrow> hd (rdbs ssrc x') = hd (rdbs ssrc x)
    | Some j \<Rightarrow> (\<exists>q. j = rdb_pos (hd (rdbs ssrc x)) q) \<and> \<not> rdb_blocked (hd (rdbs ssrc x)) j \<and>
        hd (rdbs ssrc x') = srtp_rdb_add_index (hd (rdbs ssrc x)) j)"
proof -
  obtain r where r: "rdbs ssrc x = [r]" "crypto_sound C" "rtcp_kdf_sound K" "ctx_wf x"
    using assms(1) by (auto simp: stream_alone_def)
  obtain x1 o1 res where u: "SessionRef_unprotect_rtcp C x buf = (x1, o1, res)" by (cases "SessionRef_unprotect_rtcp C x buf")
  have x1: "x' = x1" using assms(2) u by (auto split: sum.splits)
  have wf: "ctx_wf x'" using packets_typed(4) [OF r(2,4) u] x1 by simp
  have fs: "x1 = (if length buf \<ge> 2 ^ 31 then x else fst (srtp_unprotect_rtcp C x buf))"
    using overwrite_fst [of "srtp_unprotect_rtcp C" x buf] u by (simp add: SessionRef_unprotect_rtcp_def)
  show ?thesis
  proof (cases "rtcp_ssrc buf = ssrc \<and> length buf < 2 ^ 31")
    case False
    then have "rdbs ssrc x1 = [r]" using r(1) fs rdbs_unprotect_rtcp_other [of buf ssrc C x] by auto
    moreover have "out = None"
      using assms(2) u False by (auto simp: SessionRef_unprotect_rtcp_def SessionRef_overwrite_def split: sum.splits if_splits)
    ultimately show ?thesis using r wf x1 by (simp add: stream_alone_def)
  next
    case True
    obtain c where c: "filter (\<lambda>e. fst e = ssrc) (cx_rtcp x) = [(ssrc, c)]" "rc_rdb c = r" "map_of (cx_rtcp x) ssrc = Some c"
      using rdbs_single [OF r(1)] .
    show ?thesis
    proof (rule unprotect_rtcp_known [OF r(4), of buf c C])
      show "map_of (cx_rtcp x) (rtcp_ssrc buf) = Some c" using c(3) True by simp
    next
      fix e assume "srtp_unprotect_rtcp C x buf = (x, Inl e)"
      then have "x' = x" "out = None"
        using assms(2) True by (simp_all add: SessionRef_unprotect_rtcp_def SessionRef_overwrite_def)
      then show ?thesis using assms(1) by simp
    next
      fix i pt st assume o: "srtp_unprotect_rtcp_aead C c buf = Inr (i, pt)" "28 \<le> length buf"
        "srtp_unprotect_rtcp C x buf = (ctx_put x (rtcp_ssrc buf) st (c\<lparr>rc_rdb := srtp_rdb_add_index (rc_rdb c) i\<rparr>), Inr pt)"
      have i: "i = rdb_pos r (u32_from_be (drop (length buf - 4) buf))"
        using o(1) by (auto simp: srtp_unprotect_rtcp_aead_def Let_def rdb_pos_def split: rdbx_status.splits if_splits option.splits)
      have "x' = ctx_put x ssrc st (c\<lparr>rc_rdb := srtp_rdb_add_index r i\<rparr>)" "out = Some i"
        using assms(2) True o(3) c(2) i by (simp_all add: SessionRef_unprotect_rtcp_def SessionRef_overwrite_def rdb_pos_def)
      moreover have "rdbs ssrc (ctx_put x ssrc st (c\<lparr>rc_rdb := srtp_rdb_add_index r i\<rparr>)) = [srtp_rdb_add_index r i]"
        by (simp add: rdbs_def ctx_put_def filter_update_same [OF c(1)])
      ultimately show ?thesis using unprotect_rtcp_aead_typed [OF r(2) o(2,1)] wf r c(2) i
        by (auto simp: stream_alone_def)
    qed
  qed
qed

interpretation rtcp_stream: media_session rdb_pos rdb_blocked srtp_rdb_add_index rdb_wf
  "kept_step C K ssrc" "\<lambda>x. hd (rdbs ssrc x)" "stream_alone C K ssrc" for C K ssrc
proof unfold_locales
  fix x c x'
  assume a: "stream_alone C K ssrc x" "kept_step C K ssrc x c = (x', None)"
  show "stream_alone C K ssrc x' \<and> hd (rdbs ssrc x') = hd (rdbs ssrc x)"
  proof (cases "keeps_stream ssrc c")
    case True
    show ?thesis
    proof (cases "\<exists>buf. c = Call_Unprotect_Rtcp buf")
      case unp: True
      then show ?thesis using a True step_rtcp [OF a(1), of _ x' None] by (auto simp: kept_step_def simp del: rtcp_step.simps)
    next
      case False
      then show ?thesis using a True step_other [OF a(1) True] by (simp add: kept_step_def)
    qed
  next
    case False
    then show ?thesis using a by (simp add: kept_step_def)
  qed
next
  fix x c x' j
  assume a: "stream_alone C K ssrc x" "kept_step C K ssrc x c = (x', Some j)"
  then have k: "keeps_stream ssrc c" by (auto simp: kept_step_def split: if_splits)
  have "\<exists>buf. c = Call_Unprotect_Rtcp buf" using a k step_other(1) [OF a(1) k] by (fastforce simp: kept_step_def)
  then show "stream_alone C K ssrc x' \<and> (\<exists>q. j = rdb_pos (hd (rdbs ssrc x)) q) \<and>
      \<not> rdb_blocked (hd (rdbs ssrc x)) j \<and> hd (rdbs ssrc x') = srtp_rdb_add_index (hd (rdbs ssrc x)) j"
    using a k step_rtcp [OF a(1), of _ x' "Some j"] by (auto simp: kept_step_def simp del: rtcp_step.simps)
qed


section \<open>A template session of one stream\<close>

text \<open>
  The RTCP side of a session made from a template, before and after its stream came into being:
  the stream has the template's keys and its own database.
\<close>

definition rtcp_side :: "u32 \<Rightarrow> rtcp_ctx \<Rightarrow> rdb option \<Rightarrow> srtp_ctx \<Rightarrow> bool" where
  "rtcp_side ssrc ct db x \<longleftrightarrow> cx_rtcp_template x = Some ct \<and> ss_template (cx_rtp x) \<noteq> None \<and>
     (case db of
        None \<Rightarrow> srtp_get_stream (cx_rtp x) ssrc = None \<and> map_of (cx_rtcp x) ssrc = None
      | Some r \<Rightarrow> srtp_get_stream (cx_rtp x) ssrc \<noteq> None \<and> map_of (cx_rtcp x) ssrc = Some (ct\<lparr>rc_rdb := r\<rparr>))"

definition side_db :: "rdb option \<Rightarrow> rdb" where
  "side_db db = (case db of None \<Rightarrow> srtp_rdb_init | Some r \<Rightarrow> r)"

lemma side_db_simps [simp]: "side_db None = srtp_rdb_init" "side_db (Some r) = r"
  by (simp_all add: side_db_def)

lemma get_put [simp]: "srtp_get_stream (put_stream s k st) k = Some st"
  by (simp add: srtp_get_stream_def put_stream_def update_conv)

lemma put_template [simp]: "ss_template (put_stream s k st) = ss_template s"
  by (simp add: put_stream_def)

lemma side_put: "rtcp_side ssrc ct db x \<Longrightarrow> rtcp_side ssrc ct (Some r) (ctx_put x ssrc st (ct\<lparr>rc_rdb := r\<rparr>))"
  by (simp add: rtcp_side_def ctx_put_def update_conv)

lemma side_insert: "rtcp_side ssrc ct db x \<Longrightarrow> rtcp_side ssrc ct (Some r) (ctx_insert x ssrc st (ct\<lparr>rc_rdb := r\<rparr>))"
  by (simp add: rtcp_side_def ctx_insert_def srtp_stream_list_insert_def srtp_get_stream_def)

lemma side_send:
  assumes "rtcp_side ssrc ct db x" and "rc_rdb ct = srtp_rdb_init" and "rtcp_ssrc pkt = ssrc"
    and "8 \<le> length pkt" and "length pkt < 2 ^ 31" and "rdb_window_start (side_db db) < 0x7fffffff"
  shows "\<exists>x'. SessionRef_protect_rtcp C x pkt =
      (x', seal_rtcp C (rc_key ct) (rc_salt ct) (rdb_window_start (side_db db) + 1) pkt, Inr ()) \<and>
    rtcp_side ssrc ct (Some ((side_db db)\<lparr>rdb_window_start := rdb_window_start (side_db db) + 1\<rparr>)) x'"
proof -
  define r where "r = (side_db db)\<lparr>rdb_window_start := rdb_window_start (side_db db) + 1\<rparr>"
  have seal: "srtp_protect_rtcp_aead C (ct\<lparr>rc_rdb := side_db db\<rparr>) pkt =
      (ct\<lparr>rc_rdb := r\<rparr>, Inr (seal_rtcp C (rc_key ct) (rc_salt ct) (rdb_window_start (side_db db) + 1) pkt))"
    using assms(6) by (simp add: protect_rtcp_aead_seals r_def Let_def)
  have l: "\<not> length pkt < 8" "\<not> 2 ^ 31 \<le> length pkt" using assms(4,5) by simp_all
  show ?thesis
  proof (cases db)
    case None
    obtain t where t: "ss_template (cx_rtp x) = Some t" using assms(1) by (auto simp: rtcp_side_def)
    have ct: "rtcp_stream_clone ct = ct\<lparr>rc_rdb := side_db db\<rparr>" using None by (simp add: rtcp_stream_clone_def)
    have "SessionRef_protect_rtcp C x pkt = (ctx_put (ctx_insert x ssrc (srtp_stream_clone t) (ct\<lparr>rc_rdb := side_db db\<rparr>)) ssrc
        (turned dir_srtp_sender (srtp_stream_clone t)) (ct\<lparr>rc_rdb := r\<rparr>),
        seal_rtcp C (rc_key ct) (rc_salt ct) (rdb_window_start (side_db db) + 1) pkt, Inr ())"
      using assms(1,3) None t l seal
      by (simp add: SessionRef_protect_rtcp_def SessionRef_overwrite_def srtp_protect_rtcp_def rtcp_side_def ct Let_def)
    then show ?thesis using side_put [OF side_insert [OF assms(1)]] unfolding r_def by blast
  next
    case (Some r0)
    obtain st where st: "srtp_get_stream (cx_rtp x) ssrc = Some st" using assms(1) Some by (auto simp: rtcp_side_def)
    have "SessionRef_protect_rtcp C x pkt = (ctx_put x ssrc (turned dir_srtp_sender st) (ct\<lparr>rc_rdb := r\<rparr>),
        seal_rtcp C (rc_key ct) (rc_salt ct) (rdb_window_start (side_db db) + 1) pkt, Inr ())"
      using assms(1,3) Some st l seal
      by (simp add: SessionRef_protect_rtcp_def SessionRef_overwrite_def srtp_protect_rtcp_def rtcp_side_def Let_def)
    then show ?thesis using side_put [OF assms(1)] unfolding r_def by blast
  qed
qed

lemma side_receive:
  assumes "rtcp_side ssrc ct db x" and "rc_rdb ct = srtp_rdb_init" and "rtcp_ssrc pkt = ssrc"
    and "8 \<le> length pkt" and "length pkt + 20 < 2 ^ 31" and "i < 2 ^ 31"
    and C: "crypto_sound C" "length (rc_key ct) = 16" "length (rc_salt ct) = 12"
  shows "if rdb_blocked (side_db db) i
    then \<exists>e\<in>{REPLAY_FAIL, REPLAY_OLD}. SessionRef_unprotect_rtcp C x (seal_rtcp C (rc_key ct) (rc_salt ct) i pkt) = (x, [], Inl e)
    else \<exists>x'. SessionRef_unprotect_rtcp C x (seal_rtcp C (rc_key ct) (rc_salt ct) i pkt) = (x', pkt, Inr ()) \<and>
      rtcp_side ssrc ct (Some (srtp_rdb_add_index (side_db db) i)) x'"
proof -
  define w where "w = seal_rtcp C (rc_key ct) (rc_salt ct) i pkt"
  note S = seal_rtcp_facts [OF C assms(4,6), folded w_def]
  have o: "srtp_unprotect_rtcp_aead C (ct\<lparr>rc_rdb := r\<rparr>) w = (case srtp_rdb_check r i of rdbx_replay_old \<Rightarrow> Inl REPLAY_OLD
      | rdbx_replay_fail \<Rightarrow> Inl REPLAY_FAIL | rdbx_ok \<Rightarrow> Inr (i, pkt))" for r
    using unprotect_rtcp_aead_opens [OF C(1), of "ct\<lparr>rc_rdb := r\<rparr>" pkt i] C assms(4,6) by (simp add: w_def)
  have l: "\<not> length w < 12" "\<not> length w < 28" "\<not> 2 ^ 31 \<le> length w" using S(1) assms(4,5) by simp_all
  show ?thesis
  proof (cases db)
    case None
    obtain t where t: "ss_template (cx_rtp x) = Some t" using assms(1) by (auto simp: rtcp_side_def)
    have ct: "ct\<lparr>rc_rdb := srtp_rdb_init\<rparr> = ct" using assms(2) by simp
    have ok: "srtp_unprotect_rtcp_aead C ct w = Inr (i, pkt)"
      using o [of srtp_rdb_init] rdb_init_wf(2) [of i] unfolding ct by (simp add: rdb_blocked_def)
    define x0 where "x0 = x\<lparr>cx_rtp := (cx_rtp x)\<lparr>ss_template := Some (turned dir_srtp_receiver t)\<rparr>\<rparr>"
    have x0: "rtcp_side ssrc ct db x0" using assms(1) by (simp add: rtcp_side_def x0_def srtp_get_stream_def split: option.splits)
    have "SessionRef_unprotect_rtcp C x w = (ctx_insert x0 ssrc (srtp_stream_clone (turned dir_srtp_receiver t))
        (ct\<lparr>rc_rdb := srtp_rdb_add_index srtp_rdb_init i\<rparr>), pkt, Inr ())"
      using assms(1,3) None t l ok S(3)
      by (simp add: SessionRef_unprotect_rtcp_def SessionRef_overwrite_def srtp_unprotect_rtcp_def rtcp_side_def Let_def
          rtcp_stream_clone_def x0_def)
    then show ?thesis using side_insert [OF x0] None rdb_init_wf(2) [of i] unfolding w_def by auto
  next
    case (Some r)
    obtain st where st: "srtp_get_stream (cx_rtp x) ssrc = Some st" using assms(1) Some by (auto simp: rtcp_side_def)
    have m: "map_of (cx_rtcp x) ssrc = Some (ct\<lparr>rc_rdb := r\<rparr>)" using assms(1) Some by (simp add: rtcp_side_def)
    have "SessionRef_unprotect_rtcp C x w = (case srtp_rdb_check r i of rdbx_replay_old \<Rightarrow> (x, [], Inl REPLAY_OLD)
        | rdbx_replay_fail \<Rightarrow> (x, [], Inl REPLAY_FAIL)
        | rdbx_ok \<Rightarrow> (ctx_put x ssrc (turned dir_srtp_receiver st) (ct\<lparr>rc_rdb := srtp_rdb_add_index r i\<rparr>), pkt, Inr ()))"
      using assms(3) st m l S(3) o [of r]
      by (simp add: SessionRef_unprotect_rtcp_def SessionRef_overwrite_def srtp_unprotect_rtcp_def Let_def split: rdbx_status.splits)
    then show ?thesis using side_put [OF assms(1)] Some unfolding w_def [symmetric] rdb_blocked_def
      by (cases "srtp_rdb_check r i") auto
  qed
qed

text \<open>A sender's packets in order, and what becomes of the packets that arrive.\<close>

fun rtcp_send_all :: "srtp_crypto \<Rightarrow> srtp_ctx \<Rightarrow> bytes list \<Rightarrow> bytes list" where
  "rtcp_send_all C x [] = []"
| "rtcp_send_all C x (pkt # pkts) =
     (case SessionRef_protect_rtcp C x pkt of (x', out, _) \<Rightarrow> out # rtcp_send_all C x' pkts)"

fun rtcp_receive_all :: "srtp_crypto \<Rightarrow> srtp_ctx \<Rightarrow> bytes list \<Rightarrow> (srtp_error + bytes) list" where
  "rtcp_receive_all C x [] = []"
| "rtcp_receive_all C x (w # ws) =
     (case SessionRef_unprotect_rtcp C x w of
        (x', out, Inl e) \<Rightarrow> Inl e # rtcp_receive_all C x' ws
      | (x', out, Inr _) \<Rightarrow> Inr out # rtcp_receive_all C x' ws)"

definition report_ok :: "u32 \<Rightarrow> bytes \<Rightarrow> bool" where
  "report_ok ssrc pkt \<longleftrightarrow> rtcp_ssrc pkt = ssrc \<and> 8 \<le> length pkt \<and> length pkt + 20 < 2 ^ 31"

lemma send_all_seals:
  assumes "rtcp_side ssrc ct db x" and "rc_rdb ct = srtp_rdb_init" and "\<forall>pkt\<in>set pkts. report_ok ssrc pkt"
    and "rdb_window_start (side_db db) + length pkts \<le> 0x7fffffff"
  shows "rtcp_send_all C x pkts =
    map (\<lambda>i. seal_rtcp C (rc_key ct) (rc_salt ct) (rdb_window_start (side_db db) + 1 + i) (pkts ! i)) [0..<length pkts]"
  using assms
proof (induction pkts arbitrary: x db)
  case (Cons pkt pkts)
  define r where "r = (side_db db)\<lparr>rdb_window_start := rdb_window_start (side_db db) + 1\<rparr>"
  obtain x' where x': "SessionRef_protect_rtcp C x pkt =
      (x', seal_rtcp C (rc_key ct) (rc_salt ct) (rdb_window_start (side_db db) + 1) pkt, Inr ())" "rtcp_side ssrc ct (Some r) x'"
    using side_send [OF Cons.prems(1,2), of pkt C] Cons.prems(3,4) by (auto simp: report_ok_def r_def)
  have "rtcp_send_all C x' pkts =
      map (\<lambda>i. seal_rtcp C (rc_key ct) (rc_salt ct) (rdb_window_start r + 1 + i) (pkts ! i)) [0..<length pkts]"
    using Cons.IH [OF x'(2) Cons.prems(2)] Cons.prems(3,4) by (simp add: r_def)
  then show ?case
    by (simp add: x'(1) r_def upt_conv_Cons map_Suc_upt [symmetric] del: upt_Suc)
qed simp

text \<open>What the database has blocked once the indices of a set were offered to it.\<close>

definition seen :: "nat set \<Rightarrow> nat \<Rightarrow> bool" where
  "seen A i \<longleftrightarrow> i \<in> A \<or> (\<exists>a\<in>A. i + 128 \<le> a)"

lemma seen_insert_seen: "seen A j \<Longrightarrow> seen (insert j A) = seen A"
  by (fastforce simp: seen_def)

lemma receive_all_delivers:
  assumes "rtcp_side ssrc ct db x" and "rc_rdb ct = srtp_rdb_init" and "\<forall>pkt\<in>set pkts. report_ok ssrc pkt"
    and C: "crypto_sound C" "length (rc_key ct) = 16" "length (rc_salt ct) = 12"
    and "\<forall>i\<in>set is. i < length pkts" and "length pkts \<le> 0x7fffffff"
    and "rdb_wf (side_db db)" and "\<And>i. rdb_blocked (side_db db) (i + 1) = seen A i" and "n < length is"
  shows "let res = rtcp_receive_all C x (map (\<lambda>i. seal_rtcp C (rc_key ct) (rc_salt ct) (i + 1) (pkts ! i)) is) in
    if seen (A \<union> set (take n is)) (is ! n) then res ! n \<in> {Inl REPLAY_FAIL, Inl REPLAY_OLD} else res ! n = Inr (pkts ! (is ! n))"
  using assms(1,7,9-)
proof (induction "is" arbitrary: x db A n)
  case (Cons i "is")
  have i: "i < length pkts" and rest: "\<forall>i\<in>set is. i < length pkts" using Cons.prems(2) by simp_all
  then have "report_ok ssrc (pkts ! i)" "i + 1 < 2 ^ 31" using assms(3,8) by simp_all
  note R = side_receive [OF Cons.prems(1) assms(2) _ _ _ this(2) C, of "pkts ! i"] this(1)
  define f where "f = (\<lambda>i. seal_rtcp C (rc_key ct) (rc_salt ct) (i + 1) (pkts ! i))"
  obtain x' db' res where s: "rtcp_receive_all C x (map f (i # is)) = res # rtcp_receive_all C x' (map f is)"
    "rtcp_side ssrc ct db' x'" "rdb_wf (side_db db')" "\<And>k. rdb_blocked (side_db db') (k + 1) = seen (insert i A) k"
    "if seen A i then res \<in> {Inl REPLAY_FAIL, Inl REPLAY_OLD} else res = Inr (pkts ! i)"
  proof (cases "seen A i")
    case True
    then obtain e where "e \<in> {REPLAY_FAIL, REPLAY_OLD}" "SessionRef_unprotect_rtcp C x (f i) = (x, [], Inl e)"
      using R Cons.prems(4) by (auto simp: f_def report_ok_def)
    then show ?thesis using that [of "Inl e" x db] Cons.prems(1,3,4) True by (auto simp: seen_insert_seen)
  next
    case False
    then obtain x' where x': "SessionRef_unprotect_rtcp C x (f i) = (x', pkts ! i, Inr ())"
      "rtcp_side ssrc ct (Some (srtp_rdb_add_index (side_db db) (i + 1))) x'"
      using R Cons.prems(4) by (auto simp: f_def report_ok_def)
    have nb: "\<not> rdb_blocked (side_db db) (i + 1)" using False Cons.prems(4) by simp
    have "rdb_blocked (srtp_rdb_add_index (side_db db) (i + 1)) (k + 1) = seen (insert i A) k" for k
      unfolding rdb_blocked_add [OF Cons.prems(3) nb] Cons.prems(4) by (auto simp: seen_def)
    then show ?thesis using that [of "Inr (pkts ! i)" x' "Some (srtp_rdb_add_index (side_db db) (i + 1))"] x' False
        rdb_add_wf [OF Cons.prems(3)] i assms(8) by simp
  qed
  show ?case
  proof (cases n)
    case 0
    then show ?thesis using s(5) unfolding s(1) [unfolded f_def] by (simp split: if_splits)
  next
    case (Suc m)
    then show ?thesis using Cons.IH [OF s(2) rest s(3,4), of m] Cons.prems(5) unfolding s(1) [unfolded f_def]
      by (simp add: Let_def split: if_splits)
  qed
qed simp

section \<open>Two ways to change a key\<close>

lemma last_bit_replay: "rdbx_bits r \<noteq> [] \<Longrightarrow> rdbx_bits r ! (length (rdbx_bits r) - 1) \<Longrightarrow> srtp_rdbx_check r 0 = rdbx_replay_fail"
  by (cases "rdbx_bits r") (simp_all add: srtp_rdbx_check_def)

text \<open>A fresh window, and what it is after its first packet: the packet's index and its one bit.\<close>

lemma first_packet:
  fixes q :: u16
  assumes "0 < ws"
  defines "r \<equiv> rdbx_add (srtp_rdbx_init ws) (unat q)"
  shows "rdbx_index r = unat q" "srtp_rdbx_check r 0 = rdbx_replay_fail" "rdbx_bits r \<noteq> []"
proof -
  note q = unat_u16_less [of q]
  have "rdbx_index (srtp_rdbx_init ws) = 0" and n: "rdbx_bits (srtp_rdbx_init ws) \<noteq> []"
    using assms(1) by (simp_all add: srtp_rdbx_init_def)
  then have nb: "\<not> rdbx_blocked (srtp_rdbx_init ws) (unat q)" using assms(1)
    by (auto simp: rdbx_blocked_iff) (simp_all add: srtp_rdbx_init_def)
  note W = rdbx_add_wf [of "srtp_rdbx_init ws" "unat q", folded r_def] rdbx_init_wf [OF assms(1)]
  show i: "rdbx_index r = unat q" and b: "rdbx_bits r \<noteq> []"
    using W q nb by (simp_all add: rdbx_wf_def, simp_all add: srtp_rdbx_init_def)
  have "rdbx_blocked r (unat q)"
    using rdbx_blocked_add [of "srtp_rdbx_init ws" "unat q" "unat q"] W(4) q nb by (simp add: r_def)
  then have "rdbx_bits r ! (length (rdbx_bits r) - 1)" using b i by (auto simp: rdbx_blocked_iff)
  then show "srtp_rdbx_check r 0 = rdbx_replay_fail" by (rule last_bit_replay [OF b])
qed

lemma same_index: "rdbx_index r = unat (q :: u16) \<Longrightarrow> srtp_rdbx_estimate_index r q = (unat q, 0)"
proof -
  assume a: "rdbx_index r = unat q"
  have "unat q < 65536" by (rule unat_u16_less)
  then show ?thesis using a by (simp add: srtp_rdbx_estimate_index_def srtp_index_guess_def Let_def)
qed

text \<open>The session with one stream, and the policy's keys in it.\<close>

definition policy_stream :: "srtp_crypto \<Rightarrow> StreamPolicy \<Rightarrow> u32 \<Rightarrow> direction \<Rightarrow> rdbx \<Rightarrow> srtp_session" where
  "policy_stream C p ssrc d r =
     single_stream ssrc d (fst (srtp_kdf C (take 28 (sp_key p)))) (snd (srtp_kdf C (take 28 (sp_key p)))) r"

definition policy_window :: "StreamPolicy \<Rightarrow> nat" where
  "policy_window p = (if sp_window_size p = 0 then 128 else sp_window_size p)"

lemma fresh_stream:
  assumes "ctx_add_stream C K ctx_new ssrc p = (x, Inr ())" and "\<not> sp_allow_repeat_tx p"
  shows "cx_rtp x = policy_stream C p ssrc dir_unknown (srtp_rdbx_init (policy_window p))"
    "cx_rtcp x = [(ssrc, rtcp_stream_init K p)]" "28 \<le> length (sp_key p)" "window_ok p"
  using assms
  by (auto simp: ctx_add_stream_def StreamPolicy_sys_policy_def srtp_stream_init_def ctx_insert_def ctx_new_def
      Session_new_def srtp_stream_list_insert_def policy_stream_def single_stream_def policy_window_def window_ok_def
      split: if_splits)

lemma ctx_unprotect_single:
  assumes "cx_rtp x = single_stream ssrc d key salt r"
  shows "ctx_unprotect C x buf = (case SessionRef_unprotect C (single_stream ssrc d key salt r) buf of
    (s, out, res) \<Rightarrow> (x\<lparr>cx_rtp := s\<rparr>, out, res))"
proof -
  obtain s out res where u: "SessionRef_unprotect C (single_stream ssrc d key salt r) buf = (s, out, res)"
    by (cases "SessionRef_unprotect C (single_stream ssrc d key salt r) buf")
  have "length (ss_streams s) = 1" using unprotect_single_cases [OF u] by (auto simp: single_stream_def)
  with u show ?thesis
    by (auto simp: ctx_unprotect_def SessionRef_unprotect_def SessionRef_overwrite_def ctx_rtp_def assms
        split: if_splits prod.splits sum.splits) (simp_all add: single_stream_def)
qed

lemma accepted_valid:
  "SessionRef_unprotect C s pkt = (s', out, Inr ()) \<Longrightarrow> srtp_validate_rtp_header pkt = None \<and> length pkt < 2 ^ 31"
  by (auto simp: SessionRef_unprotect_def SessionRef_overwrite_def srtp_unprotect_def Let_def
      split: if_splits option.splits prod.splits sum.splits)

lemma update_fresh:
  assumes "cx_rtp x = policy_stream C p ssrc d r" and "cx_rtcp x = [(ssrc, c)]"
    and "28 \<le> length (sp_key p)" and "window_ok p" and "\<not> sp_allow_repeat_tx p"
  shows "\<exists>x'. SessionRef_update_stream C K x ssrc p = (x', Inr ()) \<and>
    cx_rtp x' = policy_stream C p ssrc dir_unknown ((srtp_rdbx_init (policy_window p))\<lparr>rdbx_index := rdbx_index r\<rparr>)"
  using assms
  by (auto simp: SessionRef_update_stream_def StreamPolicy_sys_policy_def update_stream_def srtp_remove_stream_def
      htonl_htonl srtp_get_stream_def policy_stream_def single_stream_def srtp_stream_init_def ctx_insert_def
      srtp_stream_list_insert_def policy_window_def window_ok_def)

text \<open>
  What a fresh stream is after its first packet: the packet's index is in its window, and the
  packet still opens under the policy's keys at that index.
\<close>

lemma first_accepted:
  assumes "ctx_add_stream C K ctx_new ssrc p = (x, Inr ())" and "\<not> sp_allow_repeat_tx p"
    and "ctx_unprotect C x pkt = (x1, out, Inr ())"
  defines "r \<equiv> rdbx_add (srtp_rdbx_init (policy_window p)) (unat (header_seq pkt))"
  shows "cx_rtp x1 = policy_stream C p ssrc dir_srtp_receiver r" "cx_rtcp x1 = [(ssrc, rtcp_stream_init K p)]"
    "srtp_validate_rtp_header pkt = None" "length pkt < 2 ^ 31" "header_ssrc pkt = ssrc"
    "st_salt st = snd (srtp_kdf C (take 28 (sp_key p))) \<Longrightarrow>
      srtp_unprotect_aead C (fst (srtp_kdf C (take 28 (sp_key p)))) st (unat (header_seq pkt)) pkt = Inr out"
proof -
  note F = fresh_stream [OF assms(1,2)]
  define k n where "k = fst (srtp_kdf C (take 28 (sp_key p)))" and "n = snd (srtp_kdf C (take 28 (sp_key p)))"
  note P = policy_stream_def [of C p, folded k_def n_def]
  obtain s where u: "SessionRef_unprotect C (policy_stream C p ssrc dir_unknown (srtp_rdbx_init (policy_window p))) pkt = (s, out, Inr ())"
    and x1: "x1 = x\<lparr>cx_rtp := s\<rparr>"
    using assms(3) ctx_unprotect_single [of x, OF F(1) [unfolded P]] unfolding P by (auto split: prod.splits)
  note v = accepted_valid [OF u]
  then show "srtp_validate_rtp_header pkt = None" "length pkt < 2 ^ 31" by simp_all
  have "s = policy_stream C p ssrc dir_srtp_receiver r" and ssrc: "header_ssrc pkt = ssrc"
    using unprotect_single_cases [OF u [unfolded P]] by (auto simp: P rdbx_pos_first r_def sets_direction_def)
  then show "cx_rtp x1 = policy_stream C p ssrc dir_srtp_receiver r" "cx_rtcp x1 = [(ssrc, rtcp_stream_init K p)]" "header_ssrc pkt = ssrc"
    using x1 F(2) by simp_all
  have est: "rdbx_est (srtp_rdbx_init (policy_window p)) (header_seq pkt) = unat (header_seq pkt)"
    by (simp add: rdbx_est_def srtp_rdbx_estimate_index_def srtp_rdbx_init_def)
  have "\<exists>st. st_salt st = n \<and> srtp_unprotect_aead C k st (unat (header_seq pkt)) pkt = Inr out"
    using u v ssrc unfolding P
    by (intro exI [of _ "\<lparr> st_key = k, st_salt = n, st_rdbx = srtp_rdbx_init (policy_window p), st_direction = dir_unknown,
        st_allow_repeat_tx = False, st_shared = False \<rparr>"])
      (simp add: single_stream_unprotect_any rdbx_pos_first est split: if_splits sum.splits)
  then show "srtp_unprotect_aead C (fst (srtp_kdf C (take 28 (sp_key p)))) st (unat (header_seq pkt)) pkt = Inr out"
    if "st_salt st = snd (srtp_kdf C (take 28 (sp_key p)))"
    using unprotect_aead_salt [of st] that unfolding k_def n_def by metis
qed

section \<open>Properties\<close>



text \<open>
  C9. Delivery of control packets: between a sender and a receiver whose sessions were made from the
  same template policy, packets of one SSRC that arrive in any order, with any repetitions and
  losses, come out byte for byte as they were sent, each at its first arrival, unless a packet at
  least 128 later has arrived before; every other arrival is refused as a replay.
\<close>

theorem srtcp_delivery:
  assumes "crypto_sound C" and "rtcp_kdf_sound K"
    and "ctx_with_template dir_srtp_sender C K p = Inr sender" and "ctx_with_template dir_srtp_receiver C K p = Inr receiver"
    and "\<forall>pkt\<in>set pkts. report_ok ssrc pkt" and "length pkts \<le> 0x7fffffff"
    and "\<forall>i\<in>set is. i < length pkts" and "n < length is"
  shows "let res = rtcp_receive_all C receiver (map ((!) (rtcp_send_all C sender pkts)) is) in
    if is ! n \<in> set (take n is) \<or> (\<exists>a\<in>set (take n is). is ! n + 128 \<le> a)
    then res ! n \<in> {Inl REPLAY_FAIL, Inl REPLAY_OLD} else res ! n = Inr (pkts ! (is ! n))"
proof -
  define ct where "ct = rtcp_stream_init K p"
  have side: "28 \<le> length (sp_key p) \<and> rtcp_side ssrc ct None x" if "ctx_with_template d C K p = Inr x" for d x
    using that by (auto simp: ctx_with_template_def Session_with_template_def StreamPolicy_sys_policy_def rtcp_side_def
        Session_new_def srtp_get_stream_def ct_def split: sum.splits if_splits)
  have ct: "rc_rdb ct = srtp_rdb_init" "length (rc_key ct) = 16" "length (rc_salt ct) = 12"
    using rtcp_init_wf [OF assms(2)] side [OF assms(3)] by (auto simp: ct_def rtcp_wf_def) (simp add: rtcp_stream_init_def)
  have start: "rdb_window_start (side_db None) = 0" by (simp add: srtp_rdb_init_def)
  have "rtcp_send_all C sender pkts = map (\<lambda>i. seal_rtcp C (rc_key ct) (rc_salt ct) (i + 1) (pkts ! i)) [0..<length pkts]"
    using send_all_seals [of ssrc ct None, OF _ ct(1) assms(5)] side [OF assms(3)] assms(6) unfolding start by simp
  then have sent: "map ((!) (rtcp_send_all C sender pkts)) is = map (\<lambda>i. seal_rtcp C (rc_key ct) (rc_salt ct) (i + 1) (pkts ! i)) is"
    using assms(7) by simp
  show ?thesis unfolding sent
    using receive_all_delivers [of ssrc ct None receiver, OF _ ct(1) assms(5,1) ct(2,3) assms(7,6) _ _ assms(8), where A = "{}"]
      side [OF assms(4)] by (simp add: seen_def rdb_init_wf)
qed

theorem srtcp_delivery_witness:
  "\<exists>sender receiver. ctx_with_template dir_srtp_sender sample_crypto sample_kdf (sample_stream_policy 1) = Inr sender \<and>
    ctx_with_template dir_srtp_receiver sample_crypto sample_kdf (sample_stream_policy 1) = Inr receiver \<and>
    (let sent = rtcp_send_all sample_crypto sender [sample_report 1, sample_report 2];
         res = rtcp_receive_all sample_crypto receiver [sent ! 1, sent ! 0, sent ! 1]
     in res ! 1 = Inr (sample_report 1) \<and> res ! 2 \<in> {Inl REPLAY_FAIL, Inl REPLAY_OLD})"
proof -
  obtain sender receiver where t: "ctx_with_template dir_srtp_sender sample_crypto sample_kdf (sample_stream_policy 1) = Inr sender"
    "ctx_with_template dir_srtp_receiver sample_crypto sample_kdf (sample_stream_policy 1) = Inr receiver"
    by (simp add: ctx_with_template_def Session_with_template_def StreamPolicy_sys_policy_def srtp_stream_init_def
        sample_stream_policy_def)
  note D = srtcp_delivery [OF sample_crypto_sound sample_kdf_sound t, of "[sample_report 1, sample_report 2]" 9 "[1, 0, 1]"]
  show ?thesis using t D [of 1] D [of 2] by (auto simp: Let_def report_ok_def sample_report_facts)
qed

text \<open>
  C11. A rekey in place keeps what an update loses: once a stream has accepted its first packet, the
  same bytes are refused after any rekey in place, but accepted a second time after an update of the
  stream with the policy it already has.
\<close>

theorem update_reopens_window:
  assumes "ctx_add_stream C K ctx_new ssrc p = (x, Inr ())" and "\<not> sp_allow_repeat_tx p"
    and "ctx_unprotect C x pkt = (x1, out, Inr ())" and "length key = 16" and "length salt = 12"
  shows "(\<exists>x2 x3. SessionRef_update_stream C K x1 ssrc p = (x2, Inr ()) \<and> ctx_unprotect C x2 pkt = (x3, out, Inr ())) \<and>
    (\<exists>x2. ctx_inplace_rekey x1 ssrc key salt = (x2, Inr ()) \<and> ctx_unprotect C x2 pkt = (x2, [], Inl REPLAY_FAIL))"
proof -
  note F = fresh_stream [OF assms(1,2)]
  define r where "r = rdbx_add (srtp_rdbx_init (policy_window p)) (unat (header_seq pkt))"
  define r' where "r' = (srtp_rdbx_init (policy_window p))\<lparr>rdbx_index := rdbx_index r\<rparr>"
  have w: "0 < policy_window p" by (simp add: policy_window_def)
  note R = first_packet [OF w, of "header_seq pkt", folded r_def]
  note A = first_accepted [OF assms(1-3), folded r_def]
  have r': "rdbx_index r' = unat (header_seq pkt)" using R(1) by (simp add: r'_def)
  note E = same_index [OF r'] same_index [OF R(1)]
  have nb: "\<not> rdbx_blocked r' (rdbx_pos r' (header_seq pkt))"
    using w r' by (auto simp: rdbx_pos_def E rdbx_blocked_iff) (simp_all add: r'_def srtp_rdbx_init_def)
  have bl: "rdbx_blocked r (rdbx_pos r (header_seq pkt))" "replay_error r (header_seq pkt) = REPLAY_FAIL"
    using R by (simp_all add: rdbx_blocked_def rdbx_pos_def E replay_error_def)
  obtain x2 where x2: "SessionRef_update_stream C K x1 ssrc p = (x2, Inr ())" "cx_rtp x2 = policy_stream C p ssrc dir_unknown r'"
    using update_fresh [OF A(1,2) F(3,4) assms(2), of K] unfolding r'_def by blast
  have "\<exists>x3. ctx_unprotect C x2 pkt = (x3, out, Inr ())"
    unfolding ctx_unprotect_single [OF x2(2) [unfolded policy_stream_def]] using A(3-6) nb
    by (simp add: single_stream_unprotect_any rdbx_est_def E split: sum.splits)
  moreover define x3 where "x3 = x1\<lparr>cx_rtp := single_stream ssrc dir_srtp_receiver key salt r\<rparr>"
  have "ctx_inplace_rekey x1 ssrc key salt = (x3, Inr ())"
    using assms(4,5) by (simp add: ctx_inplace_rekey_def A(1) policy_stream_def single_stream_rekey x3_def)
  moreover have x3: "cx_rtp x3 = single_stream ssrc dir_srtp_receiver key salt r" by (simp add: x3_def)
  have "ctx_unprotect C x3 pkt = (x3, [], Inl REPLAY_FAIL)"
    unfolding ctx_unprotect_single [OF x3] using A(3-5) bl by (simp add: single_stream_unprotect_any x3_def)
  ultimately show ?thesis using x2(1) by blast
qed

theorem update_reopens_window_witness:
  "\<exists>x x1 out. ctx_add_stream sample_crypto sample_kdf ctx_new 9 (sample_stream_policy 1) = (x, Inr ()) \<and>
    ctx_unprotect sample_crypto x (seal_packet sample_crypto (replicate 16 1) (replicate 12 1) 3 (sample_packet 3 0)) = (x1, out, Inr ()) \<and>
    (\<exists>x2 x3. SessionRef_update_stream sample_crypto sample_kdf x1 9 (sample_stream_policy 1) = (x2, Inr ()) \<and>
      ctx_unprotect sample_crypto x2 (seal_packet sample_crypto (replicate 16 1) (replicate 12 1) 3 (sample_packet 3 0)) = (x3, out, Inr ()))"
proof -
  let ?p = "sample_stream_policy 1" and ?w = "seal_packet sample_crypto (replicate 16 1) (replicate 12 1) 3 (sample_packet 3 0)"
  obtain x where x: "ctx_add_stream sample_crypto sample_kdf ctx_new 9 ?p = (x, Inr ())"
    by (simp add: ctx_add_stream_def StreamPolicy_sys_policy_def srtp_stream_init_def sample_stream_policy_def)
  have rep: "\<not> sp_allow_repeat_tx ?p" by (simp add: sample_stream_policy_def)
  have cx: "cx_rtp x = single_stream 9 dir_unknown (replicate 16 1) (replicate 12 1) (srtp_rdbx_init 128)"
    using fresh_stream(1) [OF x rep] by (simp add: policy_stream_def policy_window_def sample_stream_policy_def sample_crypto_def)
  have "\<not> rdbx_blocked (srtp_rdbx_init 128) 3" "rdbx_est (srtp_rdbx_init 128) 3 = 3"
    by (simp_all add: rdbx_blocked_iff rdbx_est_def srtp_rdbx_estimate_index_def srtp_rdbx_init_def)
  then obtain x1 where x1: "ctx_unprotect sample_crypto x ?w = (x1, sample_packet 3 0, Inr ())"
    using single_stream_unprotect_seal [OF sample_crypto_sound, of "replicate 16 1" "replicate 12 1" "sample_packet 3 0" "srtp_rdbx_init 128" 3 dir_unknown]
    unfolding ctx_unprotect_single [OF cx] by (simp add: sample_packet_facts rdbx_pos_first)
  show ?thesis
    using x x1 update_reopens_window [OF x rep x1, of "replicate 16 2" "replicate 12 2"] by auto
qed

end
