(* ===== verification/Unit_Tests.thy ===== *)
theory Unit_Tests
  imports Tesla_Sender Ratchet Generation Index_Recovery
begin

text \<open>
  The unit tests in the \<^verbatim>\<open>mod tests\<close> of the library's source files, as programs over the model. A test
  is an \<open>outcome\<close>: it passes when it is \<open>Done ()\<close>, a failed assertion is a panic. Tests that call
  external cryptography take it as a parameter, and are shown to pass for every sound one; tests
  that expect two of its outputs to differ are shown to pass exactly when those outputs do. So the
  model agrees with the code on every example its authors chose.
\<close>

section \<open>The tests\<close>

definition assert_all :: "bool list \<Rightarrow> unit outcome" where
  "assert_all bs = guard_panic (list_all (\<lambda>b. b) bs) AssertFailed"

subsection \<open>\<^verbatim>\<open>receiver/index_recovery.rs\<close>\<close>

definition test_index_recovery_cold_start :: "unit outcome" where
  "test_index_recovery_cold_start =
     (let rec = IndexRecovery_default in
      assert_all [IndexRecovery_recover rec 0 = 0, IndexRecovery_recover rec 500 = 500])"

definition test_index_recovery_within_rollover :: "unit outcome" where
  "test_index_recovery_within_rollover =
     (let rec = IndexRecovery_update IndexRecovery_default 40000 in
      assert_all [IndexRecovery_recover rec 40010 = 40010, IndexRecovery_recover rec 39990 = 39990])"

definition test_index_recovery_across_wrap :: "unit outcome" where
  "test_index_recovery_across_wrap =
     (let rec = IndexRecovery_update IndexRecovery_default 65530 in
      obind (assert_all [IndexRecovery_recover rec 3 = 65536 + 3]) (\<lambda>_.
      let rec' = IndexRecovery_update rec (65536 + 2) in
      assert_all [IndexRecovery_recover rec' 65534 = 65534, IndexRecovery_recover rec' 50 = 65536 + 50]))"

subsection \<open>\<^verbatim>\<open>receiver/generation.rs\<close>\<close>

definition test_frame_generation_increments_per_frame :: "unit outcome" where
  "test_frame_generation_increments_per_frame =
     (let start = 1000; period = 1500 in
      assert_all [frame_generation start start period = Done 0, frame_generation start start period = Done 0,
        frame_generation (start + period) start period = Done 1,
        frame_generation (start + period + 700) start period = Done 1,
        frame_generation (start + 5 * period) start period = Done 5])"

definition test_frame_generation_survives_timestamp_wrap :: "unit outcome" where
  "test_frame_generation_survives_timestamp_wrap =
     (let period = 1500; start = 0xffffffff - 2 * period + 1; ts = start + 3 * period in
      assert_all [frame_generation ts start period = Done 3])"

subsection \<open>\<^verbatim>\<open>tesla/schedule.rs\<close>\<close>

definition test_params :: "TeslaSchedule outcome" where
  "test_params = TeslaSchedule_new 0 1000000000 2 100 100000000 16"

definition test_safety_boundaries :: "unit outcome" where
  "test_safety_boundaries =
     obind test_params (\<lambda>p.
     assert_all [TeslaSchedule_accepts p 6400000000 6 = Safe, TeslaSchedule_accepts p 7200000000 6 = UnsafeLate])"

definition test_interval_assignment_and_disclosure :: "unit outcome" where
  "test_interval_assignment_and_disclosure =
     obind test_params (\<lambda>p.
     assert_all [TeslaSchedule_interval_of p 0 = Done 1, TeslaSchedule_interval_of p 999999999 = Done 1,
       TeslaSchedule_interval_of p 1000000000 = Done 2,
       TeslaSchedule_disclosed_index p 1 = 0, TeslaSchedule_disclosed_index p 2 = 0, TeslaSchedule_disclosed_index p 3 = 1])"

subsection \<open>\<^verbatim>\<open>tesla/chain.rs\<close>\<close>

definition test_chain :: "hmac \<Rightarrow> nat \<Rightarrow> TeslaChain" where
  "test_chain M n = TeslaChain_from_final_key M (replicate TESLA_KEY_LEN 7) n"

definition roundtrip_step :: "hmac \<Rightarrow> TeslaChain \<Rightarrow> ChainVerifier \<Rightarrow> nat \<Rightarrow> (ChainVerifier \<times> unit) outcome" where
  "roundtrip_step M chain v i =
     obind (TeslaChain_key chain i) (\<lambda>k.
     case ChainVerifier_check M v k i of
       (v', DNew keys) \<Rightarrow> obind (assert_all [keys = [(i, k)]]) (\<lambda>_. Done (v', ()))
     | (v', other) \<Rightarrow> Panic ExplicitPanic)"

definition test_chain_roundtrip :: "hmac \<Rightarrow> unit outcome" where
  "test_chain_roundtrip M =
     (let chain = test_chain M 8 in
      obind (TeslaChain_anchor chain) (\<lambda>anchor.
      obind (run_steps (roundtrip_step M chain) (ChainVerifier_new anchor 8 16) [1..<9]) (\<lambda>_. Done ())))"

definition test_gap_recovery :: "hmac \<Rightarrow> unit outcome" where
  "test_gap_recovery M =
     (let chain = test_chain M 8 in
      obind (TeslaChain_anchor chain) (\<lambda>anchor.
      obind (TeslaChain_key chain 4) (\<lambda>k4.
      case ChainVerifier_check M (ChainVerifier_new anchor 8 16) k4 4 of
        (v, DNew keys) \<Rightarrow>
          obind (run_steps (\<lambda>u i. obind (TeslaChain_key chain i) (\<lambda>k. Done (u, (i, k)))) () [1..<5]) (\<lambda>(_, expect).
          obind (assert_all [keys = expect, cv_trusted_index v = 4]) (\<lambda>_.
          obind (TeslaChain_key chain 3) (\<lambda>k3.
          case ChainVerifier_check M v k3 3 of (v', d) \<Rightarrow> assert_all [d = DNotNew, cv_trusted_index v' = 4])))
      | (v, other) \<Rightarrow> Panic ExplicitPanic)))"

definition test_tampered_key_rejected :: "hmac \<Rightarrow> unit outcome" where
  "test_tampered_key_rejected M =
     (let chain = test_chain M 8 in
      obind (TeslaChain_anchor chain) (\<lambda>anchor.
      obind (TeslaChain_key chain 3) (\<lambda>k3.
      let bad = k3[0 := k3 ! 0 XOR 0xFF] in
      case ChainVerifier_check M (ChainVerifier_new anchor 8 16) bad 3 of (v, d) \<Rightarrow>
        obind (assert_all [d = DInvalid, cv_trusted_index v = 0]) (\<lambda>_.
        case ChainVerifier_check M v k3 3 of (v', d') \<Rightarrow>
          assert_all [case d' of DNew _ \<Rightarrow> True | _ \<Rightarrow> False]))))"

subsection \<open>\<^verbatim>\<open>tesla/mod.rs\<close>, \<^verbatim>\<open>tesla/mac.rs\<close>\<close>

definition test_extension_roundtrip :: "unit outcome" where
  "test_extension_roundtrip =
     (let packet = map of_nat [0..<100]; disclosed = replicate TESLA_KEY_LEN 0xAB; mac = replicate TESLA_MAC_LEN 0xCD;
          buf = append_extension packet 0x01020304 disclosed mac
      in obind (assert_all [length buf = length packet + TESLA_EXT_LEN]) (\<lambda>_.
         case split_extension buf of (buf', ext) \<Rightarrow>
           obind (expect ext) (\<lambda>(i, d, m).
           assert_all [i = 0x01020304, d = disclosed, m = mac, buf' = packet])))"

definition test_deterministic_and_input_sensitive :: "hmac \<Rightarrow> gmac \<Rightarrow> TeslaMacAlg \<Rightarrow> unit outcome" where
  "test_deterministic_and_input_sensitive M A alg =
     (let chain_key = replicate TESLA_KEY_LEN 5; packet = map of_nat [0..<64] in
      obind (TeslaMacAlg_prepare M alg chain_key) (\<lambda>p.
      let t = PreparedMac_tag M A p 7 packet; other = packet[10 := packet ! 10 XOR 1] in
      obind (TeslaMacAlg_prepare M alg chain_key) (\<lambda>q.
      obind (assert_all [t = PreparedMac_tag M A p 7 packet, t = PreparedMac_tag M A q 7 packet,
        t \<noteq> PreparedMac_tag M A p 7 other, t \<noteq> PreparedMac_tag M A p (7 + 65536) packet]) (\<lambda>_.
      obind (TeslaMacAlg_prepare M alg (replicate TESLA_KEY_LEN 6)) (\<lambda>p2.
      assert_all [t \<noteq> PreparedMac_tag M A p2 7 packet])))))"

subsection \<open>\<^verbatim>\<open>tesla/sender.rs\<close>, \<^verbatim>\<open>tesla/commitment.rs\<close>\<close>

definition test_receiver_can_verify_sender_output :: "hmac \<Rightarrow> gmac \<Rightarrow> bytes \<Rightarrow> unit outcome" where
  "test_receiver_can_verify_sender_output M A random =
     obind (TeslaSchedule_new 0 1000000 2 10 0 16) (\<lambda>params.
     obind (TeslaSender_new M random params HmacSha256) (\<lambda>sender.
     obind (TeslaSender_anchor sender) (\<lambda>anchor.
     let verifier = ChainVerifier_new anchor 10 16 in
     obind (TeslaSender_authenticate M A sender (map of_nat [0..<60]) 0 500000) (\<lambda>(sender1, buf0).
     case split_extension buf0 of (p0, ext0) \<Rightarrow>
     obind (expect ext0) (\<lambda>(i0, k0, mac0).
     case ChainVerifier_check M verifier k0 (TeslaSchedule_disclosed_index params i0) of (verifier1, d0) \<Rightarrow>
     obind (assert_all [i0 = 1, d0 = DNotNew]) (\<lambda>_.
     obind (TeslaSender_authenticate M A sender1 (map of_nat [100..<160]) 1 2500000) (\<lambda>(sender2, buf1).
     case split_extension buf1 of (p1, ext1) \<Rightarrow>
     obind (expect ext1) (\<lambda>(i1, k1, mac1).
     obind (assert_all [i1 = 3]) (\<lambda>_.
     case ChainVerifier_check M verifier1 k1 (TeslaSchedule_disclosed_index params i1) of
       (verifier2, DNew recovered) \<Rightarrow>
         obind (assert_all [length recovered = 1, fst (recovered ! 0) = 1]) (\<lambda>_.
         obind (TeslaMacAlg_prepare M HmacSha256 (snd (recovered ! 0))) (\<lambda>prepared.
         assert_all [PreparedMac_tag M A prepared 0 p0 = mac0]))
     | (verifier2, other) \<Rightarrow> Panic ExplicitPanic)))))))))"

definition test_commitment :: TeslaCommitment where
  "test_commitment =
     \<lparr> co_anchor = replicate 20 7, co_t0_ns = 0, co_t_int_ns = 1000000, co_d = 2, co_n_chain = 64,
       co_mac_alg = HmacSha256, co_sender_identity = ascii ''camera-1:sender'', co_ssrc = 0x1234,
       co_group_id = ascii ''studio-group'', co_epoch = 3 \<rparr>"

definition test_sign_verify_and_tamper ::
  "(bytes \<Rightarrow> bytes option) \<Rightarrow> (bytes \<Rightarrow> bytes \<Rightarrow> bytes \<Rightarrow> bool) \<Rightarrow> bytes \<Rightarrow> bytes \<Rightarrow> unit outcome" where
  "test_sign_verify_and_tamper sig vs public_key other_public_key =
     (let c = test_commitment; altered = c\<lparr>co_mac_alg := GmacAes128\<rparr> in
      obind (TeslaCommitment_sign sig c) (\<lambda>s.
      assert_all [TeslaCommitment_verify vs c s public_key, \<not> TeslaCommitment_verify vs altered s public_key,
        \<not> TeslaCommitment_verify vs c s other_public_key]))"

subsection \<open>\<^verbatim>\<open>keying/ratchet.rs\<close>\<close>

definition test_seed :: bytes where
  "test_seed = map of_nat [0..<CHAIN_SECRET_LEN]"

definition deterministic_step ::
  "hkdf \<Rightarrow> StreamRatchet \<times> StreamRatchet \<Rightarrow> nat \<Rightarrow> ((StreamRatchet \<times> StreamRatchet) \<times> unit) outcome" where
  "deterministic_step H st expected_g =
     (case st of (a, b) \<Rightarrow>
        obind (StreamRatchet_next_key_salt H a) (\<lambda>(ga, ks_a, a').
        obind (StreamRatchet_next_key_salt H b) (\<lambda>(gb, ks_b, b').
        obind (assert_all [ga = expected_g, gb = expected_g, ks_a = ks_b]) (\<lambda>_. Done ((a', b'), ())))))"

definition test_ratchet_is_deterministic :: "hkdf \<Rightarrow> unit outcome" where
  "test_ratchet_is_deterministic H =
     obind (StreamRatchet_from_seed test_seed) (\<lambda>a.
     obind (StreamRatchet_from_seed test_seed) (\<lambda>b.
     obind (run_steps (deterministic_step H) (a, b) [0..<8]) (\<lambda>_. Done ())))"

definition test_key_salt_is_derived_and_distinct_per_generation :: "hkdf \<Rightarrow> unit outcome" where
  "test_key_salt_is_derived_and_distinct_per_generation H =
     obind (StreamRatchet_from_seed test_seed) (\<lambda>r.
     obind (StreamRatchet_derive_key_salt H r) (\<lambda>ks0.
     obind (StreamRatchet_advance H r) (\<lambda>r1.
     obind (StreamRatchet_derive_key_salt H r1) (\<lambda>ks1.
     assert_all [ks0 \<noteq> take SRTP_KEY_MATERIAL_LEN test_seed, ks0 \<noteq> ks1]))))"

definition test_generation_counter_advances :: "hkdf \<Rightarrow> unit outcome" where
  "test_generation_counter_advances H =
     obind (StreamRatchet_from_seed test_seed) (\<lambda>r.
     obind (assert_all [sr_generation r = 0]) (\<lambda>_.
     obind (StreamRatchet_advance H r) (\<lambda>r1.
     obind (assert_all [sr_generation r1 = 1]) (\<lambda>_.
     obind (StreamRatchet_next_key_salt H r1) (\<lambda>(g, ks, r2).
     assert_all [g = 1, sr_generation r2 = 2])))))"

definition test_different_seeds_diverge :: "hkdf \<Rightarrow> unit outcome" where
  "test_different_seeds_diverge H =
     obind (StreamRatchet_from_seed test_seed) (\<lambda>a.
     obind (StreamRatchet_from_seed (test_seed[0 := test_seed ! 0 XOR 0xFF])) (\<lambda>b.
     obind (StreamRatchet_next_key_salt H a) (\<lambda>(ga, ks_a, a').
     obind (StreamRatchet_next_key_salt H b) (\<lambda>(gb, ks_b, b').
     assert_all [ks_a \<noteq> ks_b]))))"

definition test_key_salt_splits_16_12 :: "hkdf \<Rightarrow> unit outcome" where
  "test_key_salt_splits_16_12 H =
     obind (StreamRatchet_from_seed test_seed) (\<lambda>r.
     obind (StreamRatchet_derive_key_salt H r) (\<lambda>ks.
     case split_key_salt ks of (key, salt) \<Rightarrow> assert_all [length key = 16, length salt = 12]))"

section \<open>Lemmas\<close>

lemma assert_all_Done [simp]: "assert_all bs = Done () \<longleftrightarrow> list_all (\<lambda>b. b) bs"
  by (simp add: assert_all_def guard_panic_def)


lemma index_tests:
  "test_index_recovery_cold_start = Done ()" "test_index_recovery_within_rollover = Done ()" "test_index_recovery_across_wrap = Done ()"
  by (simp_all add: test_index_recovery_cold_start_def test_index_recovery_within_rollover_def test_index_recovery_across_wrap_def
      IndexRecovery_default_def IndexRecovery_update_def IndexRecovery_recover_def assert_all_def sat_sub64_def wrap64_def Let_def)

lemma generation_tests:
  "test_frame_generation_increments_per_frame = Done ()" "test_frame_generation_survives_timestamp_wrap = Done ()"
  by (simp_all add: test_frame_generation_increments_per_frame_def test_frame_generation_survives_timestamp_wrap_def frame_generation_def Let_def)

lemma schedule_tests: "test_safety_boundaries = Done ()" "test_interval_assignment_and_disclosure = Done ()"
  by (simp_all add: test_safety_boundaries_def test_interval_assignment_and_disclosure_def test_params_def TeslaSchedule_new_def
      TeslaSchedule_accepts_def TeslaSchedule_sender_upper_bound_def TeslaSchedule_interval_of_def TeslaSchedule_disclosed_index_def
      sat_add64_def sat_sub64_def wrap64_def Let_def)

text \<open>The verifier of the chain tests, once it trusts the key of an interval.\<close>

definition test_verifier :: "hmac \<Rightarrow> nat \<Rightarrow> ChainVerifier" where
  "test_verifier M i = \<lparr> cv_n_chain = 8, cv_g_max = 16, cv_trusted_index = i, cv_trusted_key = chain_at M (replicate 20 7) 8 i \<rparr>"

lemma test_chain_facts:
  "TeslaChain_anchor (test_chain M 8) = Done (chain_at M (replicate 20 7) 8 0)"
  "i \<le> 8 \<Longrightarrow> TeslaChain_key (test_chain M 8) i = Done (chain_at M (replicate 20 7) 8 i)"
  "ChainVerifier_new (chain_at M (replicate 20 7) 8 0) 8 16 = test_verifier M 0"
  by (simp_all add: TeslaChain_anchor_def test_chain_def from_final_key_key TESLA_KEY_LEN_def ChainVerifier_new_def test_verifier_def)

lemma test_check:
  assumes "i < j" and "j \<le> 8"
  shows "ChainVerifier_check M (test_verifier M i) (chain_at M (replicate 20 7) 8 j) j =
    (test_verifier M j, DNew (map (\<lambda>k. (k, chain_at M (replicate 20 7) 8 k)) [Suc i..<Suc j]))"
  using check_genuine(1) [of M "replicate 20 7" "test_verifier M i" j] assms
  by (simp add: on_chain_def test_verifier_def del: upt_Suc)

lemma roundtrip_steps:
  "m \<le> 8 \<Longrightarrow> \<exists>us. run_steps (roundtrip_step M (test_chain M 8)) (test_verifier M m) [Suc m..<9] = Done (test_verifier M 8, us)"
proof (induction "8 - m" arbitrary: m)
  case (Suc d)
  then have m: "m < Suc m" "Suc m \<le> 8" "d = 8 - Suc m" by simp_all
  then have "roundtrip_step M (test_chain M 8) (test_verifier M m) (Suc m) = Done (test_verifier M (Suc m), ())"
    using test_check [OF m(1,2), of M] by (simp add: roundtrip_step_def test_chain_facts(2) assert_all_def)
  then show ?case using Suc.hyps(1) [OF m(3,2)] m(2) by (auto simp: upt_conv_Cons simp del: upt_Suc)
qed simp

lemma chain_tests: "test_chain_roundtrip M = Done ()" "test_gap_recovery M = Done ()"
proof -
  show "test_chain_roundtrip M = Done ()" using roundtrip_steps [of 0 M]
    by (auto simp: test_chain_roundtrip_def Let_def test_chain_facts simp del: upt_Suc)
  show "test_gap_recovery M = Done ()"
    using test_check [of 0 4 M]
    by (simp add: test_gap_recovery_def Let_def test_chain_facts upt_rec assert_all_def)
      (simp add: ChainVerifier_check_def test_verifier_def)
qed

text \<open>A tampered key is rejected exactly when it does not happen to hash to the anchor.\<close>

lemma tampered_key_test:
  "test_tampered_key_rejected M = Done () \<longleftrightarrow>
     (let k = chain_at M (replicate 20 7) 8 3 in (f_step M ^^ 3) (k[0 := k ! 0 XOR 0xFF]) \<noteq> chain_at M (replicate 20 7) 8 0)"
  using test_check [of 0 3 M]
  by (auto simp: test_tampered_key_rejected_def Let_def test_chain_facts check_cases [of M "test_verifier M 0" "list_update _ _ _"]
      assert_all_def guard_panic_def)
    (simp_all add: test_verifier_def)

lemma extension_test: "test_extension_roundtrip = Done ()"
  using split_append_extension [of "replicate TESLA_KEY_LEN 0xAB" "replicate TESLA_MAC_LEN 0xCD" "0x01020304" "map of_nat [0..<100]"]
  by (simp add: test_extension_roundtrip_def Let_def assert_all_def del: upt_Suc) (simp add: append_extension_def tesla_len_defs)

lemma ratchet_tests:
  assumes "hkdf_sound H"
  shows "test_ratchet_is_deterministic H = Done ()" "test_generation_counter_advances H = Done ()" "test_key_salt_splits_16_12 H = Done ()"
proof -
  have len: "length test_seed = 32" by (simp add: test_seed_def CHAIN_SECRET_LEN_def)
  then have ok: "ratchet_ok H test_seed" using assms by (simp add: ratchet_ok_def)
  have seed: "StreamRatchet_from_seed test_seed = Done (ratchet_at H test_seed 0)" using from_seed_at [of test_seed H] len by simp
  have "\<exists>us. run_steps (deterministic_step H) (ratchet_at H test_seed m, ratchet_at H test_seed m) [m..<n] =
      Done ((ratchet_at H test_seed n, ratchet_at H test_seed n), us)" if "m \<le> n" for m n
    using that
  proof (induction "n - m" arbitrary: m)
    case (Suc d)
    then have "m < n" "d = n - Suc m" by simp_all
    with Suc.hyps(1) [of "Suc m"] show ?case
      by (auto simp: upt_conv_Cons deterministic_step_def next_key_salt_at [OF ok] assert_all_def simp del: upt_Suc)
  qed simp
  from this [of 0 8] show "test_ratchet_is_deterministic H = Done ()"
    by (auto simp: test_ratchet_is_deterministic_def seed simp del: upt_Suc)
  obtain ks where d: "StreamRatchet_derive_key_salt H (ratchet_at H test_seed 0) = Done ks" "length ks = 28"
    using next_key_salt_at [OF ok, of 0] length_key_salt_at [OF ok, of 0]
    by (auto simp: StreamRatchet_next_key_salt_def Let_def outcome_simps)
  show "test_key_salt_splits_16_12 H = Done ()" using split_key_salt_lengths [OF d(2)]
    by (auto simp: test_key_salt_splits_16_12_def seed d(1) assert_all_def split: prod.splits)
  have "StreamRatchet_advance H (ratchet_at H test_seed 0) = Done (ratchet_at H test_seed 1)"
    using next_key_salt_at [OF ok, of 0] by (auto simp: StreamRatchet_next_key_salt_def Let_def outcome_simps)
  then show "test_generation_counter_advances H = Done ()"
    by (simp add: test_generation_counter_advances_def seed next_key_salt_at [OF ok] assert_all_def) (simp add: ratchet_at_def)
qed

lemma sender_test:
  assumes "mac_sound M A" and "length random = TESLA_KEY_LEN"
  shows "test_receiver_can_verify_sender_output M A random = Done ()"
proof -
  define params where "params = \<lparr> ts_t0_ns = 0, ts_t_int_ns = 1000000, ts_d = 2, ts_n_chain = 10, ts_d_t_ns = 0, ts_g_max = 16 \<rparr>"
  have n: "ts_n_chain params = 10" by (simp add: params_def)
  have new: "TeslaSchedule_new 0 1000000 2 10 0 16 = Done params" by (simp add: TeslaSchedule_new_def params_def)
  have i: "TeslaSchedule_interval_of params 500000 = Done 1" "TeslaSchedule_interval_of params 2500000 = Done 3"
    by (simp_all add: interval_of_iff params_def)
  have d: "TeslaSchedule_disclosed_index params 1 = 0" "TeslaSchedule_disclosed_index params 3 = 1"
    by (simp_all add: TeslaSchedule_disclosed_index_def params_def)
  let ?k = "chain_at M random 10"
  have split: "split_extension (datagram M A random params HmacSha256 i ext buf) =
      (buf, Some (i, ?k (TeslaSchedule_disclosed_index params i), packet_mac M A random params HmacSha256 i ext buf))"
    if "i < 2 ^ 32" "buf \<noteq> []" for i ext buf
    unfolding datagram_def n by (rule split_append_extension) (use assms that in \<open>simp_all add: length_chain_at length_tag packet_mac_def\<close>)
  have anchor: "TeslaSender_anchor (sender_state M random params HmacSha256 i) = Done (?k 0)" for i
    by (simp add: TeslaSender_anchor_def TeslaChain_anchor_def sender_state_def from_final_key_key n)
  have v0: "ChainVerifier_check M (ChainVerifier_new (?k 0) 10 16) c 0 = (ChainVerifier_new (?k 0) 10 16, DNotNew)" for c
    by (simp add: ChainVerifier_check_def)
  have v1: "snd (ChainVerifier_check M (ChainVerifier_new (?k 0) 10 16) (?k 1) 1) = DNew [(1, ?k 1)]"
    using check_genuine(1) [of M random "ChainVerifier_new (?k 0) 10 16" 1] by (simp add: on_chain_def ChainVerifier_new_def)
  obtain v' where v1: "ChainVerifier_check M (ChainVerifier_new (?k 0) 10 16) (?k (Suc 0)) (Suc 0) = (v', DNew [(Suc 0, ?k (Suc 0))])"
    using v1 by (cases "ChainVerifier_check M (ChainVerifier_new (?k 0) 10 16) (?k 1) 1") auto
  show ?thesis
    using d by (simp add: test_receiver_can_verify_sender_output_def new sender_new n anchor Let_def
        sender_authenticate [OF i(1)] sender_authenticate [OF i(2)] split v0 v1 assert_all_def prepare_eq packet_mac_def del: upt_Suc)
qed

text \<open>
  The signature test, for a scheme in which this signature verifies for the message it was made for
  and the signer's key, and for nothing else.
\<close>

lemma commitment_test:
  assumes "sig (TeslaCommitment_to_bytes test_commitment) = Some s"
    and "\<And>m k. vs m k s \<longleftrightarrow> m = TeslaCommitment_to_bytes test_commitment \<and> k = public_key" and "other \<noteq> public_key"
  shows "test_sign_verify_and_tamper sig vs public_key other = Done ()"
proof -
  have "commitment_wf test_commitment" "commitment_wf (test_commitment\<lparr>co_mac_alg := GmacAes128\<rparr>)"
    by (simp_all add: commitment_wf_def test_commitment_def TESLA_KEY_LEN_def ascii_def)
  then have "TeslaCommitment_to_bytes (test_commitment\<lparr>co_mac_alg := GmacAes128\<rparr>) \<noteq> TeslaCommitment_to_bytes test_commitment"
    using commitment_to_bytes_inj by (fastforce simp: test_commitment_def)
  then show ?thesis using assms
    by (simp add: test_sign_verify_and_tamper_def TeslaCommitment_sign_def TeslaCommitment_verify_def assert_all_def Let_def)
qed

text \<open>The remaining tests compare outputs of HKDF and of the MACs, and pass exactly when these differ.\<close>

lemma divergence_tests:
  assumes "hkdf_sound H"
  shows "test_key_salt_is_derived_and_distinct_per_generation H = Done () \<longleftrightarrow>
      key_salt_at H test_seed 0 \<noteq> take 28 test_seed \<and> key_salt_at H test_seed 0 \<noteq> key_salt_at H test_seed 1"
    and "test_different_seeds_diverge H = Done () \<longleftrightarrow>
      key_salt_at H test_seed 0 \<noteq> key_salt_at H (test_seed[0 := 0xFF]) 0"
proof -
  have len: "length test_seed = 32" "length (test_seed[0 := 0xFF]) = 32" by (simp_all add: test_seed_def CHAIN_SECRET_LEN_def)
  have x: "test_seed[0 := test_seed ! 0 XOR 0xFF] = test_seed[0 := 0xFF]" by (simp add: test_seed_def CHAIN_SECRET_LEN_def)
  have ok: "ratchet_ok H test_seed" "ratchet_ok H (test_seed[0 := 0xFF])" using assms len by (simp_all add: ratchet_ok_def)
  have seed: "StreamRatchet_from_seed test_seed = Done (ratchet_at H test_seed 0)"
    "StreamRatchet_from_seed (test_seed[0 := 0xFF]) = Done (ratchet_at H (test_seed[0 := 0xFF]) 0)"
    using from_seed_at [of test_seed H] from_seed_at [of "test_seed[0 := 0xFF]" H] len by simp_all
  have "StreamRatchet_derive_key_salt H (ratchet_at H test_seed n) = Done (key_salt_at H test_seed n)"
    "StreamRatchet_advance H (ratchet_at H test_seed n) = Done (ratchet_at H test_seed (Suc n))" for n
    using next_key_salt_at [OF ok(1), of n] by (auto simp: StreamRatchet_next_key_salt_def Let_def outcome_simps)
  then show "test_key_salt_is_derived_and_distinct_per_generation H = Done () \<longleftrightarrow>
      key_salt_at H test_seed 0 \<noteq> take 28 test_seed \<and> key_salt_at H test_seed 0 \<noteq> key_salt_at H test_seed 1"
    by (simp add: test_key_salt_is_derived_and_distinct_per_generation_def seed key_len_defs)
  show "test_different_seeds_diverge H = Done () \<longleftrightarrow> key_salt_at H test_seed 0 \<noteq> key_salt_at H (test_seed[0 := 0xFF]) 0"
    by (simp add: test_different_seeds_diverge_def x seed next_key_salt_at [OF ok(1)] next_key_salt_at [OF ok(2)])
qed

lemma mac_test:
  "test_deterministic_and_input_sensitive M A alg = Done () \<longleftrightarrow>
     (let tag = \<lambda>k. PreparedMac_tag M A (interval_mac M alg (replicate 20 k)); packet = map of_nat [0..<64]; t = tag 5 7 packet in
      t \<noteq> tag 5 7 (packet[10 := 11]) \<and> t \<noteq> tag 5 (7 + 65536) packet \<and> t \<noteq> tag 6 7 packet)"
proof -
  have "(map of_nat [0..<64] :: bytes) ! 10 XOR 1 = 11" by simp
  then show ?thesis
    by (auto simp: test_deterministic_and_input_sensitive_def prepare_eq TESLA_KEY_LEN_def Let_def outcome_simps assert_all_def
        simp del: upt_Suc)
qed

section \<open>Properties\<close>



end
