(* ===== verification/Spec2Isabelle.thy ===== *)
theory Spec2Isabelle
  imports Delivery Tesla_Receiver Stream_Model Network Client_Main Session_Replay Unit_Tests
begin

text \<open>
  SafeCast: media streams protected with SRTP, whose keys come from an MLS group and may change with every
  packet, optionally authenticated per packet with TESLA. This development models its library
  (\<^verbatim>\<open>src/src\<close>), the parts of the vendored SRTP stack it runs on (\<^verbatim>\<open>src/third_party\<close>) and its demo
  (\<^verbatim>\<open>src/demo\<close>).

  \<^bold>\<open>How the parts interact.\<close> Group members export key material from the MLS group. A sender feeds an
  exported seed to a ratchet, which yields one SRTP key per generation, and rekeys its session at the
  boundaries its granularity sets. A receiver recovers a packet's position and generation from its
  header, keeps a window of keys, and decrypts; libsrtp refuses repetitions. TESLA adds a tag under a
  key that is disclosed later. A simulated stream and network drive sender and receiver. The demo
  runs clients that register with an authentication service, set up a group and exchange media.

  \<^bold>\<open>Theories.\<close> The paths are below \<^verbatim>\<open>src/\<close>.
  \<^item> \<open>Prelude\<close>: machine types, panics as values, byte strings, the codec contract \<open>wire_codec\<close>.
  \<^item> \<open>Rtp\<close> (\<^verbatim>\<open>src/transport/rtp.rs\<close>): packets and their wire form; round trips.
  \<^item> \<open>Index_Recovery\<close> (\<^verbatim>\<open>src/receiver/index_recovery.rs\<close>): position from a 16-bit sequence number; exact
    while reordering stays below half the sequence space (locale \<open>index_estimator\<close>).
  \<^item> \<open>Replay\<close> (libsrtp's \<^verbatim>\<open>rdbx.c\<close>): the replay database; it meets the same estimator contract and admits
    no position twice (locale \<open>replay_db\<close>).
  \<^item> \<open>Mls_Export\<close> (\<^verbatim>\<open>src/keying/mls.rs\<close>): members, key packages, key export, identities, rekey commits.
  \<^item> \<open>Ratchet\<close> (\<^verbatim>\<open>src/keying/ratchet.rs\<close>): the key ratchet (locale \<open>key_ratchet\<close>); separation of exporter calls.
  \<^item> \<open>Srtp_Session\<close> and \<open>Template_Session\<close> (\<^verbatim>\<open>src/transport/srtp_session.rs\<close>, the \<^verbatim>\<open>srtp\<close> crate's
    \<^verbatim>\<open>session.rs\<close>, libsrtp's \<^verbatim>\<open>srtp.c\<close>): protect and unprotect with AES-GCM; no nonce and no position is
    used twice (locale \<open>media_session\<close>).
  \<^item> \<open>Srtcp\<close> (libsrtp's \<^verbatim>\<open>rdb.c\<close> and the RTCP functions of \<^verbatim>\<open>srtp.c\<close>), \<open>Session_Api\<close> (all of \<^verbatim>\<open>session.rs\<close>) and
    \<open>Session_Replay\<close>: control packets, and adding, removing and updating streams. A session is the RTP
    half of \<open>Srtp_Session\<close> with an RTCP half beside it. Every session the interface can build is well
    typed; no control packet is accepted twice and those sent arrive; an update, unlike a rekey in
    place, lets an old RTP packet in again.
  \<^item> \<open>Generation\<close> (\<^verbatim>\<open>src/receiver/generation.rs\<close>) and \<open>Rekeying\<close> (\<^verbatim>\<open>src/keying/granularity.rs\<close>): when keys
    change, and what a rekeying sender emits packet by packet.
  \<^item> \<open>Receiver\<close> (\<^verbatim>\<open>src/receiver.rs\<close>): the key manager with its window invariant; what it accepts is
    authentic and delivered once, a dropped packet changes nothing that matters, its work is bounded,
    and which inputs make it panic.
  \<^item> \<open>Delivery\<close>: sender and receiver together, under an explicit condition on the arrival order.
  \<^item> \<open>Tesla_Chain\<close>, \<open>Tesla_Schedule\<close>, \<open>Tesla_Mac\<close>, \<open>Tesla_Sender\<close>, \<open>Tesla_Receiver\<close> (\<^verbatim>\<open>src/tesla/\<close>): the key
    chain (locale \<open>key_discloser\<close>), the timetable and accept test, tags and extension, the signed
    commitment and the two ends; a packet that waits for its key arrived before the key was out, and
    a stream within the travel budget is verified.
  \<^item> \<open>Stream_Model\<close> and \<open>Network\<close> (\<^verbatim>\<open>src/simulation/\<close>): the modelled stream, loss, jitter, duplication and
    the displacement statistics.
  \<^item> \<open>Auth_Service\<close> (\<^verbatim>\<open>demo/auth-service/src/main.rs\<close> and its clients): the registry, its mutex with
    poisoning, and the check of group members against it.
  \<^item> \<open>Demo_Client\<close> (\<^verbatim>\<open>send_srtp\<close>, \<^verbatim>\<open>recv_srtp\<close> and steps 4 and 5 of \<^verbatim>\<open>main\<close> in
    \<^verbatim>\<open>demo/safecast-client/src/main.rs\<close>): what receivers show, and which datagrams stop one.
  \<^item> \<open>Group_Setup\<close> (\<^verbatim>\<open>ds_client.rs\<close>, and steps 1 to 3 of \<^verbatim>\<open>main\<close> with \<^verbatim>\<open>create_group\<close> and \<^verbatim>\<open>join_group\<close>):
    what a client has confirmed once its setup returns, and which group it joins.
  \<^item> \<open>Multicast\<close> (\<^verbatim>\<open>multicast.rs\<close>) and \<open>Client_Main\<close> (\<^verbatim>\<open>main\<close> as a whole): receivers share a host and hear the
    senders' destination; the demo from the command line to the last packet.
  \<^item> \<open>Unit_Tests\<close>: the unit tests of the files under \<^verbatim>\<open>src/\<close>, run on the model.
  \<^item> This theory: delivery from a shared seed to the receiver's output, directly and across the
    simulated network.

  \<^bold>\<open>Parameters.\<close> AES-GCM and the SRTP key derivation, HKDF, HMAC, the signature scheme, OpenMLS, the hash
  behind SSRCs, base64, HTTP, the TLS codec, the sockets and the random generator are arguments of the
  definitions. What the code relies on is a named hypothesis (\<open>crypto_sound\<close>, \<open>rtcp_kdf_sound\<close>, \<open>hkdf_sound\<close>,
  \<open>mac_sound\<close>, \<open>exporter_sound\<close>, \<open>base64_sound\<close>, \<open>http_serves\<close>, \<open>os_sound\<close>, \<open>os_ample\<close>, \<open>sockets_work\<close>); the
  \<open>sample_\<close> instances show they can hold.

  \<^bold>\<open>Loops and bounds.\<close> No definition uses fuel. Loops over packets are recursions over lists, and the demo's
  receive loop consumes the list of events its socket delivers. The demo's polling loops may run
  forever: \<open>poll\<close> is a partial function whose value is \<open>None\<close> then; \<open>poll_returns\<close> says when it
  returns. Sums and products that can leave their type wrap in the library and panic in the demo,
  as theory \<open>Prelude\<close> explains.

  \<^bold>\<open>Not modelled.\<close>
  \<^item> Of libsrtp and the \<^verbatim>\<open>srtp\<close> crate: ciphers other than AES-128-GCM, master key identifiers, header-extension
    encryption, a manually set rollover counter, user data and event callbacks, and the limit of
    2^48 packets per key. The library uses none of the first five; the limit is out of reach of the
    streams considered. The crate's tables of policies and error codes are constants of bindings.
  \<^item> OpenMLS and the delivery service: separate programs, of which the code uses the interface.
  \<^item> The parsing of the command line, printing and pauses.
  \<^item> Accessors that return a field, benchmarks, integration tests and build scripts.
\<close>

section \<open>Properties across components\<close>

text \<open>
  C1. End-to-end delivery. A sender and a receiver are created from the same 32-byte seed; the sender
  protects the packets of an epoch; any selection of the datagrams reaches the receiver in any order
  that stays within its key window \<open>k\<close>, its seek cap and libsrtp's replay window. Then neither side
  panics or reports an error, and each datagram is delivered with the original packet and under the
  generation the sender used for it.
\<close>

theorem end_to_end_delivery:
  assumes "crypto_sound C" and "hkdf_sound H" and "length seed = CHAIN_SECRET_LEN" and "usable gr"
    and "media_ok ssrc b pkts" and "timestamps_ok gr start_ts period pkts"
    and "1 \<le> k" and "w = 0 \<or> 64 \<le> w \<and> w < 0x8000"
    and "arrivals_ok k cap (window_bits w) (packet_gen gr pkts) b None [] order"
    and "\<forall>i\<in>set order. i < length pkts"
  shows "\<exists>st wire rk0 rk.
    obind (StreamRatchet_from_seed seed) (\<lambda>r. obind (RekeyingStream_new C H gr ssrc r)
      (\<lambda>st0. run_steps (RekeyingStream_protect C H) st0 pkts)) = Done (st, map (\<lambda>x. (x, Inr ())) wire) \<and>
    obind (StreamRatchet_from_seed seed) (\<lambda>r. ReceiverKeyManager_new C
      (GenerationScheme_for_granularity gr start_ts period b) ssrc r k cap w) = Done rk0 \<and>
    run_steps (ReceiverKeyManager_unprotect C H) rk0 (map (\<lambda>i. wire ! i) order) =
      Done (rk, map (\<lambda>i. (pkts ! i, Inr (packet_gen gr pkts i))) order)"
proof -
  have ok: "ratchet_ok H seed" using assms(2,3) by (simp add: ratchet_ok_def CHAIN_SECRET_LEN_def)
  have s: "StreamRatchet_from_seed seed = Done (ratchet_at H seed 0)"
    using assms(3) by (simp add: from_seed_at [of seed H] CHAIN_SECRET_LEN_def)
  define wire where "wire = map (sent_packet C H seed gr b pkts) [0..<length pkts]"
  obtain st where st: "run_steps (RekeyingStream_protect C H)
      (rekeying_state H seed gr ssrc [] dir_unknown (srtp_rdbx_init 128)) pkts = Done (st, map (\<lambda>x. (x, Inr ())) wire)"
    using protect_run [OF ok assms(4,5), of C] by (auto simp: wire_def)
  obtain rk0 where rk0: "ReceiverKeyManager_new C (GenerationScheme_for_granularity gr start_ts period b) ssrc
      (ratchet_at H seed 0) k cap w = Done rk0"
    and rel: "recv_rel H seed gr (GenerationScheme_for_granularity gr start_ts period b) ssrc k cap (window_bits w)
      (packet_gen gr pkts) b None [] rk0"
    by (rule new_receiver_rel [OF ok assms(7,8)])
  have "map (\<lambda>i. wire ! i) order = map (sent_packet C H seed gr b pkts) order"
    using assms(10) by (auto simp: wire_def)
  then obtain rk where "run_steps (ReceiverKeyManager_unprotect C H) rk0 (map (\<lambda>i. wire ! i) order) =
      Done (rk, map (\<lambda>i. (pkts ! i, Inr (packet_gen gr pkts i))) order)"
    using arrivals_delivered [OF assms(1,4,5,6) refl rel assms(9,10)] by auto
  then show ?thesis using s new_state [OF ok] st rk0 by auto
qed

theorem end_to_end_delivery_witness:
  "\<exists>st wire rk0 rk.
    obind (StreamRatchet_from_seed sample_seed) (\<lambda>r. obind (RekeyingStream_new sample_crypto sample_hkdf Gran_Frame 9 r)
      (\<lambda>st0. run_steps (RekeyingStream_protect sample_crypto sample_hkdf) st0 sample_media)) =
        Done (st, map (\<lambda>x. (x, Inr ())) wire) \<and>
    obind (StreamRatchet_from_seed sample_seed) (\<lambda>r. ReceiverKeyManager_new sample_crypto
      (GenerationScheme_for_granularity Gran_Frame 1000 3000 0) 9 r 2 5 0) = Done rk0 \<and>
    run_steps (ReceiverKeyManager_unprotect sample_crypto sample_hkdf) rk0 (map (\<lambda>i. wire ! i) [2, 0, 1]) =
      Done (rk, map (\<lambda>i. (sample_media ! i, Inr (packet_gen Gran_Frame sample_media i))) [2, 0, 1])"
proof (rule end_to_end_delivery [OF sample_crypto_sound sample_hkdf_sound _ _ sample_media_ok sample_timestamps_ok])
  have "packet_gen Gran_Frame sample_media 0 = 0" "packet_gen Gran_Frame sample_media 1 = 0"
    "packet_gen Gran_Frame sample_media 2 = 1"
    by (simp_all add: packet_gen_def sample_media_def sample_packet_facts crosses_boundary_def)
  then show "arrivals_ok 2 5 (window_bits 0) (packet_gen Gran_Frame sample_media) 0 None [] [2, 0, 1]"
    by (simp add: near_def window_bits_def)
qed (simp_all add: CHAIN_SECRET_LEN_def usable_def sample_media_def)

lemma window_bits_le: "w = 0 \<or> 64 \<le> w \<and> w < 0x8000 \<Longrightarrow> window_bits w \<le> 32768"
  by (auto simp: window_bits_def)

text \<open>
  C2. The simulation delivers what its network lets through. The simulated sender of a stream produces
  \<open>n\<close> protected packets; the simulated network delays, reorders and drops them and measures the
  displacement; the receiver is given more keys and a longer replay window than the measured
  maximal lateness, and a seek cap beyond the measured maximal gap. Then, at every keying
  granularity, each scheduled packet is delivered as the plain packet the stream model predicts for
  its number, under the sender's generation.
\<close>

theorem simulation_delivers:
  assumes "crypto_sound C" and "hkdf_sound H" and "length seed = CHAIN_SECRET_LEN" and "usable gr"
    and "StreamModel_new payload_size ssrc = Done m" and "payload_size + 36 < 2 ^ 31" and "n \<le> 2 ^ 48"
    and "(n - 1) div sm_ppf m * 1500 < 2 ^ 32" and "w = 0 \<or> 64 \<le> w \<and> w < 0x8000"
    and "disturb R n (StreamModel_send_ns m) cfg = Done (schedule, st)"
    and "ds_max_lateness (ns_displacement st) < k" and "ds_max_lateness (ns_displacement st) < window_bits w"
    and "ds_max_gap (ns_displacement st) < cap" and "ds_max_gap (ns_displacement st) < 32767"
  shows "\<exists>s wire rk0 rk.
    obind (StreamRatchet_from_seed seed) (\<lambda>r. obind (SimulatedSender_new C H m gr r) (\<lambda>s0.
      run_steps (\<lambda>s (_ :: unit). SimulatedSender_next_protected C H s) s0 (replicate n ()))) =
        Done (s, zip [0..<n] wire) \<and> length wire = n \<and>
    obind (StreamRatchet_from_seed seed) (\<lambda>r. ReceiverKeyManager_new C
      (GenerationScheme_for_granularity gr START_TS FRAME_PERIOD 0) ssrc r k cap w) = Done rk0 \<and>
    run_steps (ReceiverKeyManager_unprotect C H) rk0 (map (\<lambda>i. wire ! i) (map snd schedule)) =
      Done (rk, map (\<lambda>i. (StreamModel_plain_packet m i, Inr (packet_gen gr (stream_packets m n) i)))
        (map snd schedule))"
proof -
  let ?pkts = "stream_packets m n" and ?wire = "map (sent_packet C H seed gr 0 (stream_packets m n)) [0..<n]"
  have m: "sm_ssrc m = ssrc" "sm_payload_size m + 36 < 2 ^ 31" "0 < sm_ppf m"
    using assms(5,6) by (auto simp: StreamModel_new_def outcome_simps)
  have ok: "ratchet_ok H seed" using assms(2,3) by (simp add: ratchet_ok_def CHAIN_SECRET_LEN_def)
  have s: "StreamRatchet_from_seed seed = Done (ratchet_at H seed 0)"
    using assms(3) by (simp add: from_seed_at [of seed H] CHAIN_SECRET_LEN_def)
  have media: "media_ok ssrc 0 ?pkts" using stream_media_ok [OF assms(7) m(2)] m(1) by simp
  have ts: "timestamps_ok gr START_TS FRAME_PERIOD ?pkts" by (rule stream_timestamps_ok [OF m(3) assms(8)])
  have k: "1 \<le> k" using assms(11) by linarith
  have "n \<le> 2 ^ 53" using assms(7) by simp
  from disturb_served [OF this assms(10) refl assms(11,12) _ assms(13,14), of gr ?pkts] window_bits_le [OF assms(9)]
  have arr: "arrivals_ok k cap (window_bits w) (packet_gen gr ?pkts) 0 None [] (map snd schedule)"
    and lt: "\<forall>i\<in>set (map snd schedule). i < n" using assms(12) by auto
  obtain rk0 where rk0: "ReceiverKeyManager_new C (GenerationScheme_for_granularity gr START_TS FRAME_PERIOD 0) ssrc
      (ratchet_at H seed 0) k cap w = Done rk0"
    and rel: "recv_rel H seed gr (GenerationScheme_for_granularity gr START_TS FRAME_PERIOD 0) ssrc k cap (window_bits w)
      (packet_gen gr ?pkts) 0 None [] rk0"
    by (rule new_receiver_rel [OF ok k assms(9)])
  have e: "map (\<lambda>i. ?wire ! i) (map snd schedule) = map (sent_packet C H seed gr 0 ?pkts) (map snd schedule)"
    "map (\<lambda>i. (?pkts ! i, Inr (packet_gen gr ?pkts i))) (map snd schedule) =
     map (\<lambda>i. (StreamModel_plain_packet m i, Inr (packet_gen gr ?pkts i))) (map snd schedule)"
    using lt by (auto simp: stream_packets_nth)
  obtain rk where "run_steps (ReceiverKeyManager_unprotect C H) rk0 (map (\<lambda>i. ?wire ! i) (map snd schedule)) =
      Done (rk, map (\<lambda>i. (StreamModel_plain_packet m i, Inr (packet_gen gr ?pkts i))) (map snd schedule))"
    unfolding e(1) e(2) [symmetric]
    using arrivals_delivered [OF assms(1,4) media ts refl rel arr] lt by (auto simp del: map_map)
  moreover obtain s' where "obind (SimulatedSender_new C H m gr (ratchet_at H seed 0)) (\<lambda>s0.
      run_steps (\<lambda>s (_ :: unit). SimulatedSender_next_protected C H s) s0 (replicate n ())) = Done (s', zip [0..<n] ?wire)"
    using simulated_sender_run [OF ok assms(4,7) m(2), of C] by (auto simp: zip_map2 zip_same_conv_map)
  ultimately show ?thesis using s rk0
    by (intro exI [of _ s'] exI [of _ ?wire] exI [of _ rk0] exI [of _ rk] conjI) simp_all
qed

theorem simulation_delivers_witness:
  "\<exists>m schedule st s wire rk0 rk. StreamModel_new 16 9 = Done m \<and>
    disturb sample_rng 3 (StreamModel_send_ns m) sample_line = Done (schedule, st) \<and> map snd schedule = [1, 0, 2] \<and>
    obind (StreamRatchet_from_seed sample_seed) (\<lambda>r. obind (SimulatedSender_new sample_crypto sample_hkdf m Gran_Packet r)
      (\<lambda>s0. run_steps (\<lambda>s (_ :: unit). SimulatedSender_next_protected sample_crypto sample_hkdf s) s0 (replicate 3 ()))) =
        Done (s, zip [0..<3] wire) \<and>
    obind (StreamRatchet_from_seed sample_seed) (\<lambda>r. ReceiverKeyManager_new sample_crypto
      (GenerationScheme_for_granularity Gran_Packet START_TS FRAME_PERIOD 0) 9 r 2 3 0) = Done rk0 \<and>
    run_steps (ReceiverKeyManager_unprotect sample_crypto sample_hkdf) rk0 (map (\<lambda>i. wire ! i) [1, 0, 2]) =
      Done (rk, map (\<lambda>i. (StreamModel_plain_packet m i, Inr (packet_gen Gran_Packet (stream_packets m 3) i))) [1, 0, 2])"
proof -
  obtain m where m: "StreamModel_new 16 9 = Done m" and p: "sm_ppf m = 324000"
    by (simp add: StreamModel_new_def FRAME_BYTES_def)
  have "StreamModel_send_ns m 0 = 0" "StreamModel_send_ns m 1 = 51" "StreamModel_send_ns m 2 = 102"
    by (simp_all add: StreamModel_send_ns_def p FPS_def)
  from sample_line_run [OF this] obtain schedule st where
    r: "disturb sample_rng 3 (StreamModel_send_ns m) sample_line = Done (schedule, st)" "map snd schedule = [1, 0, 2]"
      "ds_max_lateness (ns_displacement st) = 1" "ds_max_gap (ns_displacement st) = 1" by (elim exE conjE)
  have seed: "length sample_seed = CHAIN_SECRET_LEN" and gr: "usable Gran_Packet"
    by (simp_all add: CHAIN_SECRET_LEN_def usable_def)
  have side: "(16 :: nat) + 36 < 2 ^ 31" "(3 :: nat) \<le> 2 ^ 48" "(3 - 1) div sm_ppf m * 1500 < 2 ^ 32"
    "(0 :: nat) = 0 \<or> 64 \<le> (0 :: nat) \<and> (0 :: nat) < 0x8000"
    "ds_max_lateness (ns_displacement st) < 2" "ds_max_lateness (ns_displacement st) < window_bits 0"
    "ds_max_gap (ns_displacement st) < 3" "ds_max_gap (ns_displacement st) < 32767"
    by (simp_all add: r p window_bits_def)
  from simulation_delivers [OF sample_crypto_sound sample_hkdf_sound seed gr m side(1-4) r(1) side(5-8), unfolded r(2)]
  obtain s wire rk0 rk where D: "obind (StreamRatchet_from_seed sample_seed) (\<lambda>r.
      obind (SimulatedSender_new sample_crypto sample_hkdf m Gran_Packet r)
      (\<lambda>s0. run_steps (\<lambda>s (_ :: unit). SimulatedSender_next_protected sample_crypto sample_hkdf s) s0 (replicate 3 ()))) =
        Done (s, zip [0..<3] wire)"
    "obind (StreamRatchet_from_seed sample_seed) (\<lambda>r. ReceiverKeyManager_new sample_crypto
      (GenerationScheme_for_granularity Gran_Packet START_TS FRAME_PERIOD 0) 9 r 2 3 0) = Done rk0"
    "run_steps (ReceiverKeyManager_unprotect sample_crypto sample_hkdf) rk0 (map (\<lambda>i. wire ! i) [1, 0, 2]) =
      Done (rk, map (\<lambda>i. (StreamModel_plain_packet m i, Inr (packet_gen Gran_Packet (stream_packets m 3) i))) [1, 0, 2])"
    by (elim exE conjE)
  show ?thesis
    by (rule exI [of _ m], rule exI [of _ schedule], rule exI [of _ st], rule exI [of _ s], rule exI [of _ wire],
      rule exI [of _ rk0], rule exI [of _ rk], intro conjI) (fact m r D)+
qed

end
